(* ===== verification/H3_Prelude.thy ===== *)
theory H3_Prelude
  imports Main "HOL-Library.Word" "HOL-Library.Multiset" "HOL-Library.Monad_Syntax"
begin

text \<open>
  Shared vocabulary of the mod\_http3 development: the C integer types as words of their
  width, the APR status codes and HTTP status values the module tests for, the fact
  collections the component theories fill, and the generic lemmas (words read as naturals,
  the remove-by-swapping idiom on arrays, the capacity-doubling loop) that several
  components use.

  \<^item> \<open>size_t\<close>, \<open>uint64_t\<close>, \<open>apr_uint32_t\<close> and \<open>apr_port_t\<close> are words: their
    arithmetic wraps as it does in C.
  \<^item> \<open>apr_time_t\<close> (microseconds since 1970 in a signed 64-bit integer) and stream ids
    (\<open>int64_t\<close>) are \<open>int\<close>: the module only subtracts clock readings and tests the
    two low bits of an id.
  \<^item> C flags (\<open>int\<close> fields only ever set to 0 or 1) are \<open>bool\<close>.
\<close>

unbundle bit_operations_syntax

section \<open>C and APR types\<close>

type_synonym byte = "8 word"
type_synonym size_t = "64 word"
type_synonym uint64_t = "64 word"
type_synonym apr_uint32_t = "32 word"
type_synonym apr_port_t = "16 word"
type_synonym apr_time_t = int
type_synonym stream_id_t = int

datatype apr_status_t =
    APR_SUCCESS
  | APR_EGENERAL
  | APR_EINVAL
  | APR_ERANGE
  | APR_ENOMEM
  | APR_ECONNABORTED
  | APR_EAGAIN
  | APR_EOF
  | APR_TIMEUP
  | APR_OTHER int

text \<open>\<^verbatim>\<open>apr_time_from_sec\<close> and \<^verbatim>\<open>apr_time_from_msec\<close>: microseconds.\<close>

definition apr_time_from_sec :: "nat \<Rightarrow> apr_time_t" where
  "apr_time_from_sec s = int s * 1000000"

definition apr_time_from_msec :: "nat \<Rightarrow> apr_time_t" where
  "apr_time_from_msec ms = int ms * 1000"

section \<open>Decimal printing\<close>

text \<open>\<^verbatim>\<open>%u\<close> and \<^verbatim>\<open>%d\<close> of a non-negative number.\<close>

fun show_nat :: "nat \<Rightarrow> string" where
  "show_nat n = (if n < 10 then [char_of (48 + n)] else show_nat (n div 10) @ [char_of (48 + n mod 10)])"

declare show_nat.simps [simp del]

text \<open>\<^verbatim>\<open>%d\<close> of an \<open>int\<close>.\<close>

definition show_int :: "int \<Rightarrow> string" where
  "show_int i = (if i < 0 then CHR ''-'' # show_nat (nat (- i)) else show_nat (nat i))"

section \<open>Fact collections\<close>

named_theorems conf_simps \<open>unfolding of the configuration handlers\<close>
named_theorems queue_simps \<open>unfolding of the response queue operations\<close>
named_theorems stream_simps \<open>unfolding of the stream and session operations\<close>
named_theorems inv_intros \<open>preservation of component invariants\<close>
named_theorems frame_simps \<open>fields an operation leaves alone\<close>

section \<open>Words read as naturals\<close>

lemma unat_ucast_id:
  fixes x :: "'a::len word"
  assumes "unat x < 2 ^ LENGTH('b::len)"
  shows "unat (ucast x :: 'b word) = unat x"
  using assms by (simp add: unsigned_ucast_eq take_bit_nat_eq_self)

lemma unat_plus_no_overflow:
  fixes a b :: "'a::len word"
  assumes "unat a + unat b < 2 ^ LENGTH('a)"
  shows "unat (a + b) = unat a + unat b"
  using assms by (simp add: unat_word_ariths)

lemma unat_minus_no_underflow:
  fixes a b :: "'a::len word"
  assumes "b \<le> a"
  shows "unat (a - b) = unat a - unat b"
  using assms by (simp add: unat_sub)

lemma unat_of_nat_id:
  assumes "n < 2 ^ LENGTH('a)"
  shows "unat (of_nat n :: 'a::len word) = n"
  using assms by (simp add: unat_of_nat take_bit_nat_eq_self)

lemma unat_double_no_overflow:
  fixes a :: "'a::len word"
  assumes "2 * unat a < 2 ^ LENGTH('a)"
  shows "unat (2 * a) = 2 * unat a"
  using assms unat_plus_no_overflow [of a a] by (simp only: mult_2)

lemma unat_size_t_bound [simp]: "unat (x :: size_t) < 18446744073709551616"
  using unsigned_less [of x, where 'a = nat] by simp

section \<open>Removal by swapping with the last element\<close>

text \<open>
  Both connection arrays of the event loop delete slot \<open>i\<close> by copying the last element
  over it and dropping the last slot
  (\<^verbatim>\<open>if (i < nelts - 1) a[i] = a[nelts - 1]; nelts--\<close>).
\<close>

definition swap_remove :: "'a list \<Rightarrow> nat \<Rightarrow> 'a list" where
  "swap_remove xs i =
     (if i < length xs - 1 then butlast (xs[i := last xs]) else butlast xs)"

lemma length_swap_remove [simp]: "length (swap_remove xs i) = length xs - 1"
  by (simp add: swap_remove_def)

lemma mset_snoc_last:
  assumes "xs \<noteq> []"
  shows "mset xs = add_mset (last xs) (mset (butlast xs))"
proof -
  from assms have "mset xs = mset (butlast xs @ [last xs])" by simp
  then show ?thesis by simp
qed

lemma add_mset_diff_single:
  assumes "a \<in># M"
  shows "add_mset y (M - {# a #}) = add_mset y M - {# a #}"
  using subset_mset.add_diff_assoc2 [OF mset_subset_eq_single [OF assms], of "{# y #}"]
  by (simp only: add_mset_add_single [symmetric])

lemma mset_swap_remove:
  assumes "i < length xs"
  shows "mset (swap_remove xs i) = mset xs - {# xs ! i #}"
proof (cases "i < length xs - 1")
  case True
  then have "xs \<noteq> []" by auto
  then obtain ys y where xs: "xs = ys @ [y]"
    by (metis append_butlast_last_id)
  with True have i: "i < length ys" by simp
  have "swap_remove xs i = ys[i := y]"
    using i by (simp add: swap_remove_def xs list_update_append)
  then have "mset (swap_remove xs i) = add_mset y (mset ys - {# ys ! i #})"
    using mset_update [OF i, of y] by (simp only:)
  also have "\<dots> = add_mset y (mset ys) - {# ys ! i #}"
    by (rule add_mset_diff_single [OF nth_mem_mset [OF i]])
  also have "\<dots> = mset xs - {# xs ! i #}"
    using i by (simp add: xs nth_append)
  finally show ?thesis .
next
  case False
  with assms have "i = length xs - 1" and ne: "xs \<noteq> []" by auto
  then have "xs ! i = last xs" by (simp add: last_conv_nth)
  then have "mset xs - {# xs ! i #} = mset (butlast xs)"
    by (simp only: mset_snoc_last [OF ne] add_mset_remove_trivial)
  with False show ?thesis by (simp only: swap_remove_def if_False)
qed

section \<open>The capacity-doubling loop\<close>

text \<open>
  \<^verbatim>\<open>while (new_cap < needed) new_cap *= 2;\<close> on \<open>size_t\<close>: the product wraps, so the loop ends
  only when the sizes stay in the lower half of the range.
\<close>

partial_function (option) grow_cap :: "size_t \<Rightarrow> size_t \<Rightarrow> size_t option" where
  "grow_cap new_cap needed = (if new_cap < needed then grow_cap (2 * new_cap) needed else Some new_cap)"

lemma grow_cap_total:
  assumes "0 < cap" and "unat needed \<le> 2 ^ 63"
  shows "\<exists>c. grow_cap cap needed = Some c \<and> needed \<le> c \<and> cap \<le> c"
  using assms(1)
proof (induction "unat needed - unat cap" arbitrary: cap rule: less_induct)
  case less
  show ?case
  proof (cases "cap < needed")
    case False
    then show ?thesis by (subst grow_cap.simps) auto
  next
    case True
    have c: "unat cap < unat needed" using True by (simp add: word_less_nat_alt)
    have d: "unat (2 * cap) = 2 * unat cap"
      using c assms(2) by (intro unat_double_no_overflow) simp
    have p: "0 < unat cap" using less.prems by (simp add: word_less_nat_alt)
    have "0 < 2 * cap" using d p by (simp add: word_less_nat_alt)
    moreover have "unat needed - unat (2 * cap) < unat needed - unat cap" using c d p by simp
    ultimately obtain c' where "grow_cap (2 * cap) needed = Some c'" "needed \<le> c'" "2 * cap \<le> c'"
      using less.hyps by blast
    moreover have "cap \<le> 2 * cap" using d by (simp add: word_le_nat_alt)
    ultimately show ?thesis using True by (subst grow_cap.simps) auto
  qed
qed

section \<open>Counting under a point update\<close>

lemma length_filter_upd:
  assumes "distinct (map g es)" and "x \<in> g ` set es"
  shows "int (length (filter (\<lambda>e. if g e = x then b else P (g e)) es)) =
    int (length (filter (\<lambda>e. P (g e)) es)) + of_bool b - of_bool (P x)"
  using assms
proof (induction es)
  case (Cons e es)
  show ?case
  proof (cases "g e = x")
    case True
    then have "x \<notin> g ` set es" using Cons.prems(1) by simp
    then have "g e' \<noteq> x" if "e' \<in> set es" for e' using that by blast
    then have "filter (\<lambda>e. if g e = x then b else P (g e)) es = filter (\<lambda>e. P (g e)) es"
      by (intro filter_cong) simp_all
    then show ?thesis using True by simp
  next
    case False
    then show ?thesis using Cons by auto
  qed
qed simp

end
