(* ===== verification/H3_Config.thy ===== *)
theory H3_Config
  imports H3_Prelude
begin

text \<open>
  The module's configuration: \<^verbatim>\<open>mod_http3/include/h3.h\<close> (defaults and maxima),
  \<^verbatim>\<open>h3_config.h\<close> (the per-server record) and \<^verbatim>\<open>h3_config.c\<close> (directive handlers, merging,
  the post-config hook).

  Parameters: APR's number parsers \<^verbatim>\<open>apr_cstr_atoi64\<close> and \<^verbatim>\<open>apr_cstr_atoui64\<close> (record
  \<open>apr_cstr\<close>: status and value stored), and, for the post-config hook, which paths
  \<^verbatim>\<open>apr_file_open\<close> can open. Logging is left out.
\<close>

section \<open>Defaults and maxima (h3.h)\<close>

definition H3_MAX_CONCURRENT_STREAMS_DEFAULT :: nat where "H3_MAX_CONCURRENT_STREAMS_DEFAULT = 100"
definition H3_MAX_CONCURRENT_STREAMS_MAX :: nat where "H3_MAX_CONCURRENT_STREAMS_MAX = 1000"
definition H3_MAX_CONNECTIONS_DEFAULT :: nat where "H3_MAX_CONNECTIONS_DEFAULT = 256"
definition H3_MAX_CONNECTIONS_MAX :: nat where "H3_MAX_CONNECTIONS_MAX = 10000"
definition H3_STREAM_BUFFER_SIZE_DEFAULT :: nat where "H3_STREAM_BUFFER_SIZE_DEFAULT = 64 * 1024"
definition H3_STREAM_BUFFER_SIZE_MAX :: nat where "H3_STREAM_BUFFER_SIZE_MAX = 1024 * 1024"
definition H3_MAX_REQUEST_BODY_SIZE_DEFAULT :: nat where
  "H3_MAX_REQUEST_BODY_SIZE_DEFAULT = 10 * 1024 * 1024"
definition H3_MAX_REQUEST_BODY_SIZE_MAX :: nat where
  "H3_MAX_REQUEST_BODY_SIZE_MAX = 1024 * 1024 * 1024"
definition H3_MAX_RESPONSE_BODY_SIZE_DEFAULT :: size_t where
  "H3_MAX_RESPONSE_BODY_SIZE_DEFAULT = - 1"
definition H3_MAX_RESPONSE_BODY_SIZE_MAX :: nat where
  "H3_MAX_RESPONSE_BODY_SIZE_MAX = 2 * 1024 * 1024 * 1024"
definition H3_ALT_SVC_MAX_AGE_DEFAULT :: nat where "H3_ALT_SVC_MAX_AGE_DEFAULT = 86400"
definition H3_ALT_SVC_MAX_AGE_MAX :: nat where "H3_ALT_SVC_MAX_AGE_MAX = 7 * 24 * 3600"
definition H3_SOCKET_BUFFER_SIZE_DEFAULT :: nat where
  "H3_SOCKET_BUFFER_SIZE_DEFAULT = 2 * 1024 * 1024"
definition H3_SOCKET_BUFFER_SIZE_MAX :: nat where
  "H3_SOCKET_BUFFER_SIZE_MAX = 64 * 1024 * 1024"
definition H3_STREAM_TIMEOUT_MAX :: nat where "H3_STREAM_TIMEOUT_MAX = 86400"
definition H3_MAX_STREAM_ERRORS_DEFAULT :: nat where "H3_MAX_STREAM_ERRORS_DEFAULT = 8"
definition H3_MAX_STREAM_ERRORS_MAX :: nat where "H3_MAX_STREAM_ERRORS_MAX = 10000"
definition H3_QPACK_TABLE_CAPACITY_DEFAULT :: nat where "H3_QPACK_TABLE_CAPACITY_DEFAULT = 4096"
definition H3_QPACK_TABLE_CAPACITY_MAX :: nat where "H3_QPACK_TABLE_CAPACITY_MAX = 1024 * 1024"
definition H3_QPACK_BLOCKED_STREAMS_DEFAULT :: nat where "H3_QPACK_BLOCKED_STREAMS_DEFAULT = 0"
definition H3_QPACK_BLOCKED_STREAMS_MAX :: nat where "H3_QPACK_BLOCKED_STREAMS_MAX = 1000"
definition H3_MIN_WORKERS_DEFAULT :: nat where "H3_MIN_WORKERS_DEFAULT = 16"
definition H3_MAX_WORKERS_DEFAULT :: nat where "H3_MAX_WORKERS_DEFAULT = 64"
definition H3_WORKERS_MAX :: nat where "H3_WORKERS_MAX = 4096"
definition H3_MAX_WORKER_IDLE_SECONDS_DEFAULT :: nat where
  "H3_MAX_WORKER_IDLE_SECONDS_DEFAULT = 600"
definition H3_MAX_WORKER_IDLE_SECONDS_MAX :: nat where
  "H3_MAX_WORKER_IDLE_SECONDS_MAX = 86400"
definition H3_HANDSHAKE_TIMEOUT_DEFAULT :: nat where "H3_HANDSHAKE_TIMEOUT_DEFAULT = 10"
definition H3_HANDSHAKE_TIMEOUT_MAX :: nat where "H3_HANDSHAKE_TIMEOUT_MAX = 600"
definition H3_IDLE_TIMEOUT_DEFAULT :: nat where "H3_IDLE_TIMEOUT_DEFAULT = 300"
definition H3_IDLE_TIMEOUT_MAX :: nat where "H3_IDLE_TIMEOUT_MAX = 86400"
definition UINT16_MAX :: nat where "UINT16_MAX = 65535"

lemmas h3_limits [conf_simps] =
  H3_MAX_CONCURRENT_STREAMS_DEFAULT_def H3_MAX_CONCURRENT_STREAMS_MAX_def
  H3_MAX_CONNECTIONS_DEFAULT_def H3_MAX_CONNECTIONS_MAX_def
  H3_STREAM_BUFFER_SIZE_DEFAULT_def H3_STREAM_BUFFER_SIZE_MAX_def
  H3_MAX_REQUEST_BODY_SIZE_DEFAULT_def H3_MAX_REQUEST_BODY_SIZE_MAX_def
  H3_MAX_RESPONSE_BODY_SIZE_DEFAULT_def H3_MAX_RESPONSE_BODY_SIZE_MAX_def
  H3_ALT_SVC_MAX_AGE_DEFAULT_def H3_ALT_SVC_MAX_AGE_MAX_def
  H3_SOCKET_BUFFER_SIZE_DEFAULT_def H3_SOCKET_BUFFER_SIZE_MAX_def
  H3_STREAM_TIMEOUT_MAX_def H3_MAX_STREAM_ERRORS_DEFAULT_def H3_MAX_STREAM_ERRORS_MAX_def
  H3_QPACK_TABLE_CAPACITY_DEFAULT_def H3_QPACK_TABLE_CAPACITY_MAX_def
  H3_QPACK_BLOCKED_STREAMS_DEFAULT_def H3_QPACK_BLOCKED_STREAMS_MAX_def
  H3_MIN_WORKERS_DEFAULT_def H3_MAX_WORKERS_DEFAULT_def H3_WORKERS_MAX_def
  H3_MAX_WORKER_IDLE_SECONDS_DEFAULT_def H3_MAX_WORKER_IDLE_SECONDS_MAX_def
  H3_HANDSHAKE_TIMEOUT_DEFAULT_def H3_HANDSHAKE_TIMEOUT_MAX_def
  H3_IDLE_TIMEOUT_DEFAULT_def H3_IDLE_TIMEOUT_MAX_def UINT16_MAX_def

section \<open>The per-server record (h3_config.h)\<close>

datatype h3_tri_flag = H3_FLAG_UNSET | H3_FLAG_ON | H3_FLAG_OFF

record h3_server_conf =
  host_port :: apr_port_t
  h3_cert_path :: "string option"
  h3_key_path :: "string option"
  h3_port :: apr_port_t
  h3_max_concurrent_streams :: apr_uint32_t
  h3_max_connections :: apr_uint32_t
  h3_stream_buffer_size :: size_t
  h3_max_request_body_size :: size_t
  h3_max_response_body_size :: size_t
  h3_alt_svc :: h3_tri_flag
  h3_address_validation :: h3_tri_flag
  h3_alt_svc_max_age :: apr_uint32_t
  h3_handshake_timeout :: apr_uint32_t
  h3_idle_timeout :: apr_uint32_t
  h3_socket_buffer_size :: size_t
  h3_session_tickets :: h3_tri_flag
  h3_stream_timeout :: apr_uint32_t
  h3_max_stream_errors :: apr_uint32_t
  h3_qpack_capacity_set :: bool
  h3_qpack_blocked_set :: bool
  h3_qpack_table_capacity :: apr_uint32_t
  h3_qpack_blocked_streams :: apr_uint32_t
  h3_min_workers :: apr_uint32_t
  h3_max_workers :: apr_uint32_t
  h3_max_worker_idle_seconds :: apr_uint32_t

text \<open>\<^verbatim>\<open>h3_create_server_config\<close>: a zeroed record.\<close>

definition h3_create_server_config :: h3_server_conf where
  "h3_create_server_config =
     \<lparr>host_port = 0, h3_cert_path = None, h3_key_path = None, h3_port = 0,
      h3_max_concurrent_streams = 0, h3_max_connections = 0, h3_stream_buffer_size = 0,
      h3_max_request_body_size = 0, h3_max_response_body_size = 0,
      h3_alt_svc = H3_FLAG_UNSET, h3_address_validation = H3_FLAG_UNSET,
      h3_alt_svc_max_age = 0, h3_handshake_timeout = 0, h3_idle_timeout = 0,
      h3_socket_buffer_size = 0, h3_session_tickets = H3_FLAG_UNSET, h3_stream_timeout = 0,
      h3_max_stream_errors = 0, h3_qpack_capacity_set = False, h3_qpack_blocked_set = False,
      h3_qpack_table_capacity = 0, h3_qpack_blocked_streams = 0, h3_min_workers = 0,
      h3_max_workers = 0, h3_max_worker_idle_seconds = 0\<rparr>"

section \<open>Merging a virtual host over its base (h3_merge_server_config)\<close>

text \<open>\<^verbatim>\<open>new->f ? new->f : base->f\<close> at a number, at a pointer and at a tri-state flag.\<close>

definition pick_num :: "'a::zero \<Rightarrow> 'a \<Rightarrow> 'a" where
  "pick_num new base = (if new \<noteq> 0 then new else base)"

definition pick_ptr :: "'a option \<Rightarrow> 'a option \<Rightarrow> 'a option" where
  "pick_ptr new base = (if new \<noteq> None then new else base)"

definition pick_flag :: "h3_tri_flag \<Rightarrow> h3_tri_flag \<Rightarrow> h3_tri_flag" where
  "pick_flag new base = (if new \<noteq> H3_FLAG_UNSET then new else base)"

definition h3_merge_server_config :: "h3_server_conf \<Rightarrow> h3_server_conf \<Rightarrow> h3_server_conf" where
  "h3_merge_server_config base new =
     \<lparr>host_port = 0,
      h3_cert_path = pick_ptr (h3_cert_path new) (h3_cert_path base),
      h3_key_path = pick_ptr (h3_key_path new) (h3_key_path base),
      h3_port = pick_num (h3_port new) (h3_port base),
      h3_max_concurrent_streams =
        pick_num (h3_max_concurrent_streams new) (h3_max_concurrent_streams base),
      h3_max_connections = pick_num (h3_max_connections new) (h3_max_connections base),
      h3_stream_buffer_size = pick_num (h3_stream_buffer_size new) (h3_stream_buffer_size base),
      h3_max_request_body_size =
        pick_num (h3_max_request_body_size new) (h3_max_request_body_size base),
      h3_max_response_body_size =
        pick_num (h3_max_response_body_size new) (h3_max_response_body_size base),
      h3_alt_svc = pick_flag (h3_alt_svc new) (h3_alt_svc base),
      h3_address_validation = pick_flag (h3_address_validation new) (h3_address_validation base),
      h3_alt_svc_max_age = pick_num (h3_alt_svc_max_age new) (h3_alt_svc_max_age base),
      h3_handshake_timeout = pick_num (h3_handshake_timeout new) (h3_handshake_timeout base),
      h3_idle_timeout = pick_num (h3_idle_timeout new) (h3_idle_timeout base),
      h3_socket_buffer_size = pick_num (h3_socket_buffer_size new) (h3_socket_buffer_size base),
      h3_session_tickets = pick_flag (h3_session_tickets new) (h3_session_tickets base),
      h3_stream_timeout = pick_num (h3_stream_timeout new) (h3_stream_timeout base),
      h3_max_stream_errors = pick_num (h3_max_stream_errors new) (h3_max_stream_errors base),
      h3_qpack_capacity_set =
        (if h3_qpack_capacity_set new then h3_qpack_capacity_set new
         else h3_qpack_capacity_set base),
      h3_qpack_blocked_set =
        (if h3_qpack_blocked_set new then h3_qpack_blocked_set new
         else h3_qpack_blocked_set base),
      h3_qpack_table_capacity =
        (if h3_qpack_capacity_set new then h3_qpack_table_capacity new
         else h3_qpack_table_capacity base),
      h3_qpack_blocked_streams =
        (if h3_qpack_blocked_set new then h3_qpack_blocked_streams new
         else h3_qpack_blocked_streams base),
      h3_min_workers = pick_num (h3_min_workers new) (h3_min_workers base),
      h3_max_workers = pick_num (h3_max_workers new) (h3_max_workers base),
      h3_max_worker_idle_seconds =
        pick_num (h3_max_worker_idle_seconds new) (h3_max_worker_idle_seconds base)\<rparr>"

section \<open>Directive handlers\<close>

text \<open>
  A handler returns an error text or NULL. The texts are built from the directive's name, the
  argument and the bounds, so an error is a value carrying those. \<^verbatim>\<open>CHECK(conf)\<close> on a missing
  record aborts the process (\<open>CmdAbort\<close>).
\<close>

datatype directive_error =
    EmptyPort string
  | EmptyValue string
  | NotANumber string string
  | NotRepresentable string string
  | OutOfRange string string nat nat
  | NoServerConfig

datatype cmd_result = CmdOk h3_server_conf | CmdError directive_error | CmdAbort

text \<open>The text httpd prints.\<close>

fun error_text :: "directive_error \<Rightarrow> string" where
  "error_text (EmptyPort d) = d @ '': empty port number''"
| "error_text (EmptyValue d) = d @ '': empty value''"
| "error_text (NotANumber d a) = d @ '': '' @ [CHR 0x27] @ a @ [CHR 0x27] @ '' is not a number''"
| "error_text (NotRepresentable d a) =
     d @ '': '' @ [CHR 0x27] @ a @ [CHR 0x27] @ '' is out of representable range''"
| "error_text (OutOfRange d a lo hi) =
     d @ '': '' @ [CHR 0x27] @ a @ [CHR 0x27] @ '' is out of allowed range ('' @
     show_nat lo @ ''-'' @ show_nat hi @ '')''"
| "error_text NoServerConfig = ''mod_http3: internal error: no server config''"

text \<open>APR's parsers: the status they return and the number they store.\<close>

record apr_cstr =
  apr_cstr_atoi64 :: "string \<Rightarrow> apr_status_t \<times> int"
  apr_cstr_atoui64 :: "string \<Rightarrow> apr_status_t \<times> uint64_t"

type_synonym take1_handler =
  "apr_cstr \<Rightarrow> h3_server_conf option \<Rightarrow> string option \<Rightarrow> cmd_result"
type_synonym flag_handler = "h3_server_conf option \<Rightarrow> bool \<Rightarrow> cmd_result"

text \<open>\<^verbatim>\<open>CHECK(conf)\<close> and the store that follows it.\<close>

definition store_conf ::
  "h3_server_conf option \<Rightarrow> (h3_server_conf \<Rightarrow> h3_server_conf) \<Rightarrow> cmd_result" where
  "store_conf conf upd = (case conf of None \<Rightarrow> CmdAbort | Some c \<Rightarrow> CmdOk (upd c))"

definition set_string ::
  "h3_server_conf option \<Rightarrow> (h3_server_conf \<Rightarrow> h3_server_conf) \<Rightarrow> cmd_result" where
  "set_string conf upd = (case conf of None \<Rightarrow> CmdError NoServerConfig | Some c \<Rightarrow> CmdOk (upd c))"

definition set_h3_cert_path :: take1_handler where
  "set_h3_cert_path A conf arg = set_string conf (h3_cert_path_update (\<lambda>_. arg))"

definition set_h3_key_path :: take1_handler where
  "set_h3_key_path A conf arg = set_string conf (h3_key_path_update (\<lambda>_. arg))"

definition set_h3_port :: take1_handler where
  "set_h3_port A conf arg =
     (case arg of
        None \<Rightarrow> CmdError (EmptyPort ''H3Port'')
      | Some a \<Rightarrow>
          if a = [] then CmdError (EmptyPort ''H3Port'')
          else let (rv, port) = apr_cstr_atoi64 A a in
            if rv = APR_EINVAL then CmdError (NotANumber ''H3Port'' a)
            else if rv = APR_ERANGE then CmdError (NotRepresentable ''H3Port'' a)
            else if port < 1 \<or> port > 65535 then CmdError (OutOfRange ''H3Port'' a 1 65535)
            else store_conf conf (h3_port_update (\<lambda>_. word_of_int port)))"

text \<open>
  The fifteen other numeric handlers are the same text with another name, bounds and target
  field: empty argument, not a number, not representable, outside \<open>lo..hi\<close> (for \<open>lo = 1\<close> the
  C tests \<^verbatim>\<open>val == 0\<close>, for \<open>lo = 0\<close> only the maximum), then the store.
\<close>

definition uint_directive ::
  "string \<Rightarrow> nat \<Rightarrow> nat \<Rightarrow> (uint64_t \<Rightarrow> h3_server_conf \<Rightarrow> h3_server_conf) \<Rightarrow> take1_handler"
where
  "uint_directive d lo hi upd A conf arg =
     (case arg of
        None \<Rightarrow> CmdError (EmptyValue d)
      | Some a \<Rightarrow>
          if a = [] then CmdError (EmptyValue d)
          else let (rv, val) = apr_cstr_atoui64 A a in
            if rv = APR_EINVAL then CmdError (NotANumber d a)
            else if rv = APR_ERANGE then CmdError (NotRepresentable d a)
            else if unat val < lo \<or> unat val > hi then CmdError (OutOfRange d a lo hi)
            else store_conf conf (upd val))"

definition set_h3_max_concurrent_streams :: take1_handler where
  "set_h3_max_concurrent_streams =
     uint_directive ''H3MaxConcurrentStreams'' 1 UINT16_MAX
       (\<lambda>v. h3_max_concurrent_streams_update (\<lambda>_. ucast v))"

definition set_h3_max_connections :: take1_handler where
  "set_h3_max_connections =
     uint_directive ''H3MaxConnections'' 1 H3_MAX_CONNECTIONS_MAX
       (\<lambda>v. h3_max_connections_update (\<lambda>_. ucast v))"

definition set_h3_stream_buffer_size :: take1_handler where
  "set_h3_stream_buffer_size =
     uint_directive ''H3StreamBufferSize'' 1 H3_STREAM_BUFFER_SIZE_MAX
       (\<lambda>v. h3_stream_buffer_size_update (\<lambda>_. v))"

definition set_h3_socket_buffer_size :: take1_handler where
  "set_h3_socket_buffer_size =
     uint_directive ''H3SocketBufferSize'' 1 H3_SOCKET_BUFFER_SIZE_MAX
       (\<lambda>v. h3_socket_buffer_size_update (\<lambda>_. v))"

definition set_h3_stream_timeout :: take1_handler where
  "set_h3_stream_timeout =
     uint_directive ''H3StreamTimeout'' 1 H3_STREAM_TIMEOUT_MAX
       (\<lambda>v. h3_stream_timeout_update (\<lambda>_. ucast v))"

definition set_h3_max_stream_errors :: take1_handler where
  "set_h3_max_stream_errors =
     uint_directive ''H3MaxStreamErrors'' 1 H3_MAX_STREAM_ERRORS_MAX
       (\<lambda>v. h3_max_stream_errors_update (\<lambda>_. ucast v))"

definition set_h3_qpack_table_capacity :: take1_handler where
  "set_h3_qpack_table_capacity =
     uint_directive ''H3QpackTableCapacity'' 0 H3_QPACK_TABLE_CAPACITY_MAX
       (\<lambda>v c. c\<lparr>h3_qpack_table_capacity := ucast v, h3_qpack_capacity_set := True\<rparr>)"

definition set_h3_qpack_blocked_streams :: take1_handler where
  "set_h3_qpack_blocked_streams =
     uint_directive ''H3QpackBlockedStreams'' 0 H3_QPACK_BLOCKED_STREAMS_MAX
       (\<lambda>v c. c\<lparr>h3_qpack_blocked_streams := ucast v, h3_qpack_blocked_set := True\<rparr>)"

definition set_h3_min_workers :: take1_handler where
  "set_h3_min_workers =
     uint_directive ''H3MinWorkers'' 1 H3_WORKERS_MAX (\<lambda>v. h3_min_workers_update (\<lambda>_. ucast v))"

definition set_h3_max_workers :: take1_handler where
  "set_h3_max_workers =
     uint_directive ''H3MaxWorkers'' 1 H3_WORKERS_MAX (\<lambda>v. h3_max_workers_update (\<lambda>_. ucast v))"

definition set_h3_max_worker_idle_seconds :: take1_handler where
  "set_h3_max_worker_idle_seconds =
     uint_directive ''H3MaxWorkerIdleSeconds'' 1 H3_MAX_WORKER_IDLE_SECONDS_MAX
       (\<lambda>v. h3_max_worker_idle_seconds_update (\<lambda>_. ucast v))"

definition set_h3_max_request_body_size :: take1_handler where
  "set_h3_max_request_body_size =
     uint_directive ''H3MaxRequestBodySize'' 1 H3_MAX_REQUEST_BODY_SIZE_MAX
       (\<lambda>v. h3_max_request_body_size_update (\<lambda>_. v))"

definition set_h3_max_response_body_size :: take1_handler where
  "set_h3_max_response_body_size =
     uint_directive ''H3MaxResponseBodySize'' 1 H3_MAX_RESPONSE_BODY_SIZE_MAX
       (\<lambda>v. h3_max_response_body_size_update (\<lambda>_. v))"

definition set_h3_handshake_timeout :: take1_handler where
  "set_h3_handshake_timeout =
     uint_directive ''H3HandshakeTimeout'' 1 H3_HANDSHAKE_TIMEOUT_MAX
       (\<lambda>v. h3_handshake_timeout_update (\<lambda>_. ucast v))"

definition set_h3_idle_timeout :: take1_handler where
  "set_h3_idle_timeout =
     uint_directive ''H3IdleTimeout'' 1 H3_IDLE_TIMEOUT_MAX
       (\<lambda>v. h3_idle_timeout_update (\<lambda>_. ucast v))"

definition set_h3_alt_svc_max_age :: take1_handler where
  "set_h3_alt_svc_max_age =
     uint_directive ''H3AltSvcMaxAge'' 1 H3_ALT_SVC_MAX_AGE_MAX
       (\<lambda>v. h3_alt_svc_max_age_update (\<lambda>_. ucast v))"

definition set_h3_session_tickets :: flag_handler where
  "set_h3_session_tickets conf flag =
     store_conf conf (h3_session_tickets_update (\<lambda>_. if flag then H3_FLAG_ON else H3_FLAG_OFF))"

definition set_h3_alt_svc :: flag_handler where
  "set_h3_alt_svc conf flag =
     store_conf conf (h3_alt_svc_update (\<lambda>_. if flag then H3_FLAG_ON else H3_FLAG_OFF))"

definition set_h3_address_validation :: flag_handler where
  "set_h3_address_validation conf flag =
     store_conf conf (h3_address_validation_update (\<lambda>_. if flag then H3_FLAG_ON else H3_FLAG_OFF))"

lemmas numeric_setter_defs [conf_simps] =
  set_h3_max_concurrent_streams_def set_h3_max_connections_def set_h3_stream_buffer_size_def
  set_h3_socket_buffer_size_def set_h3_stream_timeout_def set_h3_max_stream_errors_def
  set_h3_qpack_table_capacity_def set_h3_qpack_blocked_streams_def set_h3_min_workers_def
  set_h3_max_workers_def set_h3_max_worker_idle_seconds_def set_h3_max_request_body_size_def
  set_h3_max_response_body_size_def set_h3_handshake_timeout_def set_h3_idle_timeout_def
  set_h3_alt_svc_max_age_def

text \<open>The command table, in source order.\<close>

datatype cmd_handler = TAKE1 take1_handler | FLAG flag_handler

definition h3_cmds :: "(string \<times> cmd_handler) list" where
  "h3_cmds =
     [(''H3CertificatePath'', TAKE1 set_h3_cert_path),
      (''H3CertificateKeyPath'', TAKE1 set_h3_key_path),
      (''H3Port'', TAKE1 set_h3_port),
      (''H3MaxConcurrentStreams'', TAKE1 set_h3_max_concurrent_streams),
      (''H3MaxConnections'', TAKE1 set_h3_max_connections),
      (''H3StreamBufferSize'', TAKE1 set_h3_stream_buffer_size),
      (''H3MaxRequestBodySize'', TAKE1 set_h3_max_request_body_size),
      (''H3AltSvc'', FLAG set_h3_alt_svc),
      (''H3AltSvcMaxAge'', TAKE1 set_h3_alt_svc_max_age),
      (''H3HandshakeTimeout'', TAKE1 set_h3_handshake_timeout),
      (''H3IdleTimeout'', TAKE1 set_h3_idle_timeout),
      (''H3MaxResponseBodySize'', TAKE1 set_h3_max_response_body_size),
      (''H3AddressValidation'', FLAG set_h3_address_validation),
      (''H3SocketBufferSize'', TAKE1 set_h3_socket_buffer_size),
      (''H3SessionTickets'', FLAG set_h3_session_tickets),
      (''H3StreamTimeout'', TAKE1 set_h3_stream_timeout),
      (''H3MaxStreamErrors'', TAKE1 set_h3_max_stream_errors),
      (''H3QpackTableCapacity'', TAKE1 set_h3_qpack_table_capacity),
      (''H3QpackBlockedStreams'', TAKE1 set_h3_qpack_blocked_streams),
      (''H3MinWorkers'', TAKE1 set_h3_min_workers),
      (''H3MaxWorkers'', TAKE1 set_h3_max_workers),
      (''H3MaxWorkerIdleSeconds'', TAKE1 set_h3_max_worker_idle_seconds)]"

text \<open>A configuration file as the lines httpd hands to the table, and their effect in order.\<close>

datatype directive_line = Take1Line string "string option" | FlagLine string bool

definition run_line :: "apr_cstr \<Rightarrow> directive_line \<Rightarrow> h3_server_conf \<Rightarrow> cmd_result option" where
  "run_line A l c =
     (case l of
        Take1Line d arg \<Rightarrow>
          (case map_of h3_cmds d of Some (TAKE1 h) \<Rightarrow> Some (h A (Some c) arg) | _ \<Rightarrow> None)
      | FlagLine d flag \<Rightarrow>
          (case map_of h3_cmds d of Some (FLAG h) \<Rightarrow> Some (h (Some c) flag) | _ \<Rightarrow> None))"

fun run_lines :: "apr_cstr \<Rightarrow> directive_line list \<Rightarrow> h3_server_conf \<Rightarrow> h3_server_conf option" where
  "run_lines A [] c = Some c"
| "run_lines A (l # ls) c =
     (case run_line A l c of Some (CmdOk c') \<Rightarrow> run_lines A ls c' | _ \<Rightarrow> None)"

section \<open>The post-config hook\<close>

text \<open>
  The fields of httpd's \<^verbatim>\<open>server_rec\<close> the module reads: the ports of its address list, its
  module configuration, \<^verbatim>\<open>LimitRequestFields\<close>, \<^verbatim>\<open>LimitRequestFieldSize\<close> and \<^verbatim>\<open>Timeout\<close>.
  The linked list of virtual hosts is a list.
\<close>

record server_rec =
  addrs :: "apr_port_t list"
  module_config :: h3_server_conf
  limit_req_fields :: int
  limit_req_fieldsize :: int
  s_timeout :: apr_time_t

fun first_port :: "apr_port_t list \<Rightarrow> apr_port_t" where
  "first_port [] = 0"
| "first_port (p # ps) = (if p \<noteq> 0 then p else first_port ps)"

definition get_server_port :: "server_rec \<Rightarrow> apr_port_t" where
  "get_server_port s = first_port (addrs s)"

definition has_identity :: "h3_server_conf \<Rightarrow> bool" where
  "has_identity c \<longleftrightarrow> h3_cert_path c \<noteq> None \<and> h3_key_path c \<noteq> None"

text \<open>\<^verbatim>\<open>if (vc->f == 0) vc->f = DEFAULT\<close>, and the same on a flag.\<close>

definition dflt :: "'a::len word \<Rightarrow> 'a word \<Rightarrow> 'a word" where
  "dflt d x = (if x = 0 then d else x)"

definition dflt_flag :: "h3_tri_flag \<Rightarrow> h3_tri_flag" where
  "dflt_flag x = (if x = H3_FLAG_UNSET then H3_FLAG_ON else x)"

definition apply_defaults :: "apr_port_t \<Rightarrow> h3_server_conf \<Rightarrow> h3_server_conf" where
  "apply_defaults port vc =
     (let vc = vc\<lparr>host_port := port\<rparr>;
          vc = vc\<lparr>h3_port := dflt (host_port vc) (h3_port vc),
                  h3_max_concurrent_streams :=
                    dflt (of_nat H3_MAX_CONCURRENT_STREAMS_DEFAULT) (h3_max_concurrent_streams vc),
                  h3_max_connections :=
                    dflt (of_nat H3_MAX_CONNECTIONS_DEFAULT) (h3_max_connections vc),
                  h3_stream_buffer_size :=
                    dflt (of_nat H3_STREAM_BUFFER_SIZE_DEFAULT) (h3_stream_buffer_size vc),
                  h3_socket_buffer_size :=
                    dflt (of_nat H3_SOCKET_BUFFER_SIZE_DEFAULT) (h3_socket_buffer_size vc),
                  h3_max_stream_errors :=
                    dflt (of_nat H3_MAX_STREAM_ERRORS_DEFAULT) (h3_max_stream_errors vc),
                  h3_qpack_table_capacity :=
                    (if \<not> h3_qpack_capacity_set vc then of_nat H3_QPACK_TABLE_CAPACITY_DEFAULT
                     else h3_qpack_table_capacity vc),
                  h3_qpack_blocked_streams :=
                    (if \<not> h3_qpack_blocked_set vc then of_nat H3_QPACK_BLOCKED_STREAMS_DEFAULT
                     else h3_qpack_blocked_streams vc),
                  h3_min_workers := dflt (of_nat H3_MIN_WORKERS_DEFAULT) (h3_min_workers vc),
                  h3_max_workers := dflt (of_nat H3_MAX_WORKERS_DEFAULT) (h3_max_workers vc)\<rparr>;
          vc = (if h3_max_workers vc < h3_min_workers vc
                then vc\<lparr>h3_max_workers := h3_min_workers vc\<rparr> else vc)
      in vc\<lparr>h3_max_worker_idle_seconds :=
              dflt (of_nat H3_MAX_WORKER_IDLE_SECONDS_DEFAULT) (h3_max_worker_idle_seconds vc),
            h3_max_request_body_size :=
              dflt (of_nat H3_MAX_REQUEST_BODY_SIZE_DEFAULT) (h3_max_request_body_size vc),
            h3_max_response_body_size :=
              dflt H3_MAX_RESPONSE_BODY_SIZE_DEFAULT (h3_max_response_body_size vc),
            h3_alt_svc := dflt_flag (h3_alt_svc vc),
            h3_address_validation := dflt_flag (h3_address_validation vc),
            h3_session_tickets := dflt_flag (h3_session_tickets vc),
            h3_alt_svc_max_age :=
              dflt (of_nat H3_ALT_SVC_MAX_AGE_DEFAULT) (h3_alt_svc_max_age vc),
            h3_handshake_timeout :=
              dflt (of_nat H3_HANDSHAKE_TIMEOUT_DEFAULT) (h3_handshake_timeout vc),
            h3_idle_timeout := dflt (of_nat H3_IDLE_TIMEOUT_DEFAULT) (h3_idle_timeout vc)\<rparr>)"

text \<open>The loop over virtual hosts stops at the first one with a certificate and a key.\<close>

fun resolve_vhosts :: "server_rec list \<Rightarrow> server_rec list \<times> h3_server_conf option" where
  "resolve_vhosts [] = ([], None)"
| "resolve_vhosts (vs # rest) =
     (if has_identity (module_config vs)
      then let vc = apply_defaults (get_server_port vs) (module_config vs)
           in (vs\<lparr>module_config := vc\<rparr> # rest, Some vc)
      else let (rest', conf) = resolve_vhosts rest in (vs # rest', conf))"

datatype post_config_result = POST_OK | POST_INTERNAL_SERVER_ERROR

text \<open>
  \<open>pre_config\<close> is \<^verbatim>\<open>ap_state_query(AP_SQ_MAIN_STATE) == AP_SQ_MS_CREATE_PRE_CONFIG\<close>;
  \<open>readable p\<close> says whether \<^verbatim>\<open>apr_file_open\<close> of \<open>p\<close> for reading succeeds.
\<close>

definition h3_post_config ::
  "bool \<Rightarrow> (string \<Rightarrow> bool) \<Rightarrow> server_rec list \<Rightarrow> server_rec list \<times> post_config_result" where
  "h3_post_config pre_config readable servers =
     (if pre_config then (servers, POST_OK)
      else let (servers', conf) = resolve_vhosts servers in
        (case conf of
           None \<Rightarrow> (servers', POST_INTERNAL_SERVER_ERROR)
         | Some c \<Rightarrow>
             (case (h3_cert_path c, h3_key_path c) of
                (Some cert, Some key) \<Rightarrow>
                  if \<not> readable cert then (servers', POST_INTERNAL_SERVER_ERROR)
                  else if \<not> readable key then (servers', POST_INTERNAL_SERVER_ERROR)
                  else (servers', POST_OK)
              | _ \<Rightarrow> (servers', POST_INTERNAL_SERVER_ERROR))))"

text \<open>\<^verbatim>\<open>find_h3_server\<close> of h3_server.c: the virtual host a child serves, its port recorded.\<close>

fun find_h3_server :: "server_rec list \<Rightarrow> (server_rec \<times> h3_server_conf) option" where
  "find_h3_server [] = None"
| "find_h3_server (s # rest) =
     (if has_identity (module_config s)
      then let c = (module_config s)\<lparr>host_port := get_server_port s\<rparr>
           in Some (s\<lparr>module_config := c\<rparr>, c)
      else find_h3_server rest)"

section \<open>Well-formed configurations\<close>

text \<open>
  What the directives leave behind: every number is unset (0) or at most its maximum. And what
  the hook guarantees for the virtual host that serves HTTP/3: every number is set, in range,
  the flags are decided, and the worker bounds are ordered.
\<close>

definition conf_in_range :: "h3_server_conf \<Rightarrow> bool" where
  "conf_in_range c \<longleftrightarrow>
     unat (h3_max_concurrent_streams c) \<le> UINT16_MAX \<and>
     unat (h3_max_connections c) \<le> H3_MAX_CONNECTIONS_MAX \<and>
     unat (h3_stream_buffer_size c) \<le> H3_STREAM_BUFFER_SIZE_MAX \<and>
     unat (h3_max_request_body_size c) \<le> H3_MAX_REQUEST_BODY_SIZE_MAX \<and>
     unat (h3_max_response_body_size c) \<le> H3_MAX_RESPONSE_BODY_SIZE_MAX \<and>
     unat (h3_alt_svc_max_age c) \<le> H3_ALT_SVC_MAX_AGE_MAX \<and>
     unat (h3_handshake_timeout c) \<le> H3_HANDSHAKE_TIMEOUT_MAX \<and>
     unat (h3_idle_timeout c) \<le> H3_IDLE_TIMEOUT_MAX \<and>
     unat (h3_socket_buffer_size c) \<le> H3_SOCKET_BUFFER_SIZE_MAX \<and>
     unat (h3_stream_timeout c) \<le> H3_STREAM_TIMEOUT_MAX \<and>
     unat (h3_max_stream_errors c) \<le> H3_MAX_STREAM_ERRORS_MAX \<and>
     unat (h3_qpack_table_capacity c) \<le> H3_QPACK_TABLE_CAPACITY_MAX \<and>
     unat (h3_qpack_blocked_streams c) \<le> H3_QPACK_BLOCKED_STREAMS_MAX \<and>
     unat (h3_min_workers c) \<le> H3_WORKERS_MAX \<and>
     unat (h3_max_workers c) \<le> H3_WORKERS_MAX \<and>
     unat (h3_max_worker_idle_seconds c) \<le> H3_MAX_WORKER_IDLE_SECONDS_MAX"

definition set_upto :: "nat \<Rightarrow> 'a::len word \<Rightarrow> bool" where
  "set_upto hi x \<longleftrightarrow> 1 \<le> unat x \<and> unat x \<le> hi"

definition conf_ready :: "h3_server_conf \<Rightarrow> bool" where
  "conf_ready c \<longleftrightarrow>
     has_identity c \<and>
     set_upto UINT16_MAX (h3_max_concurrent_streams c) \<and>
     set_upto H3_MAX_CONNECTIONS_MAX (h3_max_connections c) \<and>
     set_upto H3_STREAM_BUFFER_SIZE_MAX (h3_stream_buffer_size c) \<and>
     set_upto H3_MAX_REQUEST_BODY_SIZE_MAX (h3_max_request_body_size c) \<and>
     (h3_max_response_body_size c = H3_MAX_RESPONSE_BODY_SIZE_DEFAULT \<or>
      set_upto H3_MAX_RESPONSE_BODY_SIZE_MAX (h3_max_response_body_size c)) \<and>
     set_upto H3_ALT_SVC_MAX_AGE_MAX (h3_alt_svc_max_age c) \<and>
     set_upto H3_HANDSHAKE_TIMEOUT_MAX (h3_handshake_timeout c) \<and>
     set_upto H3_IDLE_TIMEOUT_MAX (h3_idle_timeout c) \<and>
     set_upto H3_SOCKET_BUFFER_SIZE_MAX (h3_socket_buffer_size c) \<and>
     unat (h3_stream_timeout c) \<le> H3_STREAM_TIMEOUT_MAX \<and>
     set_upto H3_MAX_STREAM_ERRORS_MAX (h3_max_stream_errors c) \<and>
     unat (h3_qpack_table_capacity c) \<le> H3_QPACK_TABLE_CAPACITY_MAX \<and>
     unat (h3_qpack_blocked_streams c) \<le> H3_QPACK_BLOCKED_STREAMS_MAX \<and>
     set_upto H3_WORKERS_MAX (h3_min_workers c) \<and>
     set_upto H3_WORKERS_MAX (h3_max_workers c) \<and>
     h3_min_workers c \<le> h3_max_workers c \<and>
     set_upto H3_MAX_WORKER_IDLE_SECONDS_MAX (h3_max_worker_idle_seconds c) \<and>
     h3_alt_svc c \<noteq> H3_FLAG_UNSET \<and>
     h3_address_validation c \<noteq> H3_FLAG_UNSET \<and>
     h3_session_tickets c \<noteq> H3_FLAG_UNSET"

text \<open>What each numeric directive is meant to set: its field and its bounds.\<close>

definition numeric_spec :: "(string \<times> (h3_server_conf \<Rightarrow> nat) \<times> nat \<times> nat) list" where
  "numeric_spec =
     [(''H3MaxConcurrentStreams'', \<lambda>c. unat (h3_max_concurrent_streams c), 1, UINT16_MAX),
      (''H3MaxConnections'', \<lambda>c. unat (h3_max_connections c), 1, H3_MAX_CONNECTIONS_MAX),
      (''H3StreamBufferSize'', \<lambda>c. unat (h3_stream_buffer_size c), 1, H3_STREAM_BUFFER_SIZE_MAX),
      (''H3MaxRequestBodySize'', \<lambda>c. unat (h3_max_request_body_size c), 1, H3_MAX_REQUEST_BODY_SIZE_MAX),
      (''H3AltSvcMaxAge'', \<lambda>c. unat (h3_alt_svc_max_age c), 1, H3_ALT_SVC_MAX_AGE_MAX),
      (''H3HandshakeTimeout'', \<lambda>c. unat (h3_handshake_timeout c), 1, H3_HANDSHAKE_TIMEOUT_MAX),
      (''H3IdleTimeout'', \<lambda>c. unat (h3_idle_timeout c), 1, H3_IDLE_TIMEOUT_MAX),
      (''H3MaxResponseBodySize'', \<lambda>c. unat (h3_max_response_body_size c), 1, H3_MAX_RESPONSE_BODY_SIZE_MAX),
      (''H3SocketBufferSize'', \<lambda>c. unat (h3_socket_buffer_size c), 1, H3_SOCKET_BUFFER_SIZE_MAX),
      (''H3StreamTimeout'', \<lambda>c. unat (h3_stream_timeout c), 1, H3_STREAM_TIMEOUT_MAX),
      (''H3MaxStreamErrors'', \<lambda>c. unat (h3_max_stream_errors c), 1, H3_MAX_STREAM_ERRORS_MAX),
      (''H3QpackTableCapacity'', \<lambda>c. unat (h3_qpack_table_capacity c), 0, H3_QPACK_TABLE_CAPACITY_MAX),
      (''H3QpackBlockedStreams'', \<lambda>c. unat (h3_qpack_blocked_streams c), 0, H3_QPACK_BLOCKED_STREAMS_MAX),
      (''H3MinWorkers'', \<lambda>c. unat (h3_min_workers c), 1, H3_WORKERS_MAX),
      (''H3MaxWorkers'', \<lambda>c. unat (h3_max_workers c), 1, H3_WORKERS_MAX),
      (''H3MaxWorkerIdleSeconds'', \<lambda>c. unat (h3_max_worker_idle_seconds c), 1, H3_MAX_WORKER_IDLE_SECONDS_MAX)]"

section \<open>The contract of a numeric directive\<close>

lemma uint_directive_ok:
  "uint_directive d lo hi upd A (Some c) arg = CmdOk c' \<longleftrightarrow>
     (\<exists>a rv v. arg = Some a \<and> a \<noteq> [] \<and> apr_cstr_atoui64 A a = (rv, v) \<and>
        rv \<noteq> APR_EINVAL \<and> rv \<noteq> APR_ERANGE \<and> lo \<le> unat v \<and> unat v \<le> hi \<and> c' = upd v c)"
  by (auto simp: uint_directive_def store_conf_def split: option.splits prod.splits)

lemma uint_directive_out_of_range:
  assumes "a \<noteq> []" "apr_cstr_atoui64 A a = (APR_SUCCESS, v)" "\<not> (lo \<le> unat v \<and> unat v \<le> hi)"
  shows "uint_directive d lo hi upd A conf (Some a) = CmdError (OutOfRange d a lo hi)"
  using assms by (auto simp: uint_directive_def)

locale numeric_directive =
  fixes d :: string
    and handler :: take1_handler
    and field :: "h3_server_conf \<Rightarrow> nat"
    and lo hi :: nat
  assumes registered: "map_of h3_cmds d = Some (TAKE1 handler)"
    and empty: "handler A conf None = CmdError (EmptyValue d)"
      "handler A conf (Some []) = CmdError (EmptyValue d)"
    and unparsed: "a \<noteq> [] \<Longrightarrow> apr_cstr_atoui64 A a = (APR_EINVAL, v) \<Longrightarrow>
      handler A conf (Some a) = CmdError (NotANumber d a)"
      "a \<noteq> [] \<Longrightarrow> apr_cstr_atoui64 A a = (APR_ERANGE, v) \<Longrightarrow>
      handler A conf (Some a) = CmdError (NotRepresentable d a)"
    and rejects: "a \<noteq> [] \<Longrightarrow> apr_cstr_atoui64 A a = (APR_SUCCESS, v) \<Longrightarrow>
      \<not> (lo \<le> unat v \<and> unat v \<le> hi) \<Longrightarrow> handler A conf (Some a) = CmdError (OutOfRange d a lo hi)"
    and stores: "a \<noteq> [] \<Longrightarrow> apr_cstr_atoui64 A a = (APR_SUCCESS, v) \<Longrightarrow>
      lo \<le> unat v \<Longrightarrow> unat v \<le> hi \<Longrightarrow>
      \<exists>c'. handler A (Some c) (Some a) = CmdOk c' \<and> field c' = unat v"
    and frame: "(d', field', lo', hi') \<in> set numeric_spec \<Longrightarrow> d' \<noteq> d \<Longrightarrow>
      handler A (Some c) arg = CmdOk c' \<Longrightarrow> field' c' = field' c"
begin

lemma run_line_eq [simp]: "run_line A (Take1Line d arg) c = Some (handler A (Some c) arg)"
  by (simp add: run_line_def registered)

lemma accepted_iff:
  assumes "a \<noteq> []" "apr_cstr_atoui64 A a = (APR_SUCCESS, v)"
  shows "(\<exists>c'. run_line A (Take1Line d (Some a)) c = Some (CmdOk c') \<and> field c' = unat v) \<longleftrightarrow>
    lo \<le> unat v \<and> unat v \<le> hi"
  using stores [OF assms] rejects [OF assms] by force

lemma refusal_names_directive:
  assumes "run_line A (Take1Line d arg) c = Some (CmdError e)"
    and "\<And>a rv v. arg = Some a \<Longrightarrow> apr_cstr_atoui64 A a = (rv, v) \<Longrightarrow>
      rv \<in> {APR_SUCCESS, APR_EINVAL, APR_ERANGE}"
  shows "e = EmptyValue d \<or> (\<exists>a. arg = Some a \<and>
    (e = NotANumber d a \<or> e = NotRepresentable d a \<or> e = OutOfRange d a lo hi))"
proof (cases "arg = None \<or> arg = Some []")
  case True
  with assms(1) show ?thesis by (auto simp: empty)
next
  case False
  then obtain a where a: "arg = Some a" "a \<noteq> []" by auto
  obtain rv v where rv: "apr_cstr_atoui64 A a = (rv, v)" by fastforce
  from assms(2) [OF a(1) rv] consider "rv = APR_SUCCESS" | "rv = APR_EINVAL" | "rv = APR_ERANGE"
    by auto
  then show ?thesis
  proof cases
    case 1
    with assms(1) a rv show ?thesis
      using stores [OF a(2), of A v c] rejects [OF a(2), of A v "Some c"] by fastforce
  qed (use assms(1) a rv unparsed in auto)
qed

end

text \<open>Any instance of the common handler text meets the contract when its update stores the value.\<close>

lemma uint_directive_numeric:
  assumes "map_of h3_cmds d = Some (TAKE1 (uint_directive d lo hi upd))"
    and "\<And>v c. unat v \<le> hi \<Longrightarrow> field (upd v c) = unat v"
    and frame: "list_all (\<lambda>(d', f', lo', hi'). d' = d \<or> (\<forall>v c. f' (upd v c) = f' c)) numeric_spec"
  shows "numeric_directive d (uint_directive d lo hi upd) field lo hi"
proof
  fix d' field' lo' hi' A c arg c'
  assume "(d', field', lo', hi') \<in> set numeric_spec" "d' \<noteq> d"
    "uint_directive d lo hi upd A (Some c) arg = CmdOk c'"
  with frame show "field' c' = field' c"
    by (auto simp: list_all_iff uint_directive_ok)
qed (use assms(1,2) in \<open>auto simp: uint_directive_ok uint_directive_out_of_range
      uint_directive_def store_conf_def\<close>)

section \<open>Every numeric directive meets it\<close>

interpretation max_concurrent_streams: numeric_directive "''H3MaxConcurrentStreams''" set_h3_max_concurrent_streams
  "\<lambda>c. unat (h3_max_concurrent_streams c)" 1 UINT16_MAX
  unfolding set_h3_max_concurrent_streams_def
  by (rule uint_directive_numeric)
    (simp_all add: numeric_spec_def h3_cmds_def set_h3_max_concurrent_streams_def h3_limits unat_ucast_id)

interpretation max_connections: numeric_directive "''H3MaxConnections''" set_h3_max_connections
  "\<lambda>c. unat (h3_max_connections c)" 1 H3_MAX_CONNECTIONS_MAX
  unfolding set_h3_max_connections_def
  by (rule uint_directive_numeric)
    (simp_all add: numeric_spec_def h3_cmds_def set_h3_max_connections_def h3_limits unat_ucast_id)

interpretation stream_buffer_size: numeric_directive "''H3StreamBufferSize''" set_h3_stream_buffer_size
  "\<lambda>c. unat (h3_stream_buffer_size c)" 1 H3_STREAM_BUFFER_SIZE_MAX
  unfolding set_h3_stream_buffer_size_def
  by (rule uint_directive_numeric)
    (simp_all add: numeric_spec_def h3_cmds_def set_h3_stream_buffer_size_def h3_limits unat_ucast_id)

interpretation max_request_body_size: numeric_directive "''H3MaxRequestBodySize''" set_h3_max_request_body_size
  "\<lambda>c. unat (h3_max_request_body_size c)" 1 H3_MAX_REQUEST_BODY_SIZE_MAX
  unfolding set_h3_max_request_body_size_def
  by (rule uint_directive_numeric)
    (simp_all add: numeric_spec_def h3_cmds_def set_h3_max_request_body_size_def h3_limits unat_ucast_id)

interpretation alt_svc_max_age: numeric_directive "''H3AltSvcMaxAge''" set_h3_alt_svc_max_age
  "\<lambda>c. unat (h3_alt_svc_max_age c)" 1 H3_ALT_SVC_MAX_AGE_MAX
  unfolding set_h3_alt_svc_max_age_def
  by (rule uint_directive_numeric)
    (simp_all add: numeric_spec_def h3_cmds_def set_h3_alt_svc_max_age_def h3_limits unat_ucast_id)

interpretation handshake_timeout: numeric_directive "''H3HandshakeTimeout''" set_h3_handshake_timeout
  "\<lambda>c. unat (h3_handshake_timeout c)" 1 H3_HANDSHAKE_TIMEOUT_MAX
  unfolding set_h3_handshake_timeout_def
  by (rule uint_directive_numeric)
    (simp_all add: numeric_spec_def h3_cmds_def set_h3_handshake_timeout_def h3_limits unat_ucast_id)

interpretation idle_timeout: numeric_directive "''H3IdleTimeout''" set_h3_idle_timeout
  "\<lambda>c. unat (h3_idle_timeout c)" 1 H3_IDLE_TIMEOUT_MAX
  unfolding set_h3_idle_timeout_def
  by (rule uint_directive_numeric)
    (simp_all add: numeric_spec_def h3_cmds_def set_h3_idle_timeout_def h3_limits unat_ucast_id)

interpretation max_response_body_size: numeric_directive "''H3MaxResponseBodySize''" set_h3_max_response_body_size
  "\<lambda>c. unat (h3_max_response_body_size c)" 1 H3_MAX_RESPONSE_BODY_SIZE_MAX
  unfolding set_h3_max_response_body_size_def
  by (rule uint_directive_numeric)
    (simp_all add: numeric_spec_def h3_cmds_def set_h3_max_response_body_size_def h3_limits unat_ucast_id)

interpretation socket_buffer_size: numeric_directive "''H3SocketBufferSize''" set_h3_socket_buffer_size
  "\<lambda>c. unat (h3_socket_buffer_size c)" 1 H3_SOCKET_BUFFER_SIZE_MAX
  unfolding set_h3_socket_buffer_size_def
  by (rule uint_directive_numeric)
    (simp_all add: numeric_spec_def h3_cmds_def set_h3_socket_buffer_size_def h3_limits unat_ucast_id)

interpretation stream_timeout: numeric_directive "''H3StreamTimeout''" set_h3_stream_timeout
  "\<lambda>c. unat (h3_stream_timeout c)" 1 H3_STREAM_TIMEOUT_MAX
  unfolding set_h3_stream_timeout_def
  by (rule uint_directive_numeric)
    (simp_all add: numeric_spec_def h3_cmds_def set_h3_stream_timeout_def h3_limits unat_ucast_id)

interpretation max_stream_errors: numeric_directive "''H3MaxStreamErrors''" set_h3_max_stream_errors
  "\<lambda>c. unat (h3_max_stream_errors c)" 1 H3_MAX_STREAM_ERRORS_MAX
  unfolding set_h3_max_stream_errors_def
  by (rule uint_directive_numeric)
    (simp_all add: numeric_spec_def h3_cmds_def set_h3_max_stream_errors_def h3_limits unat_ucast_id)

interpretation qpack_table_capacity: numeric_directive "''H3QpackTableCapacity''" set_h3_qpack_table_capacity
  "\<lambda>c. unat (h3_qpack_table_capacity c)" 0 H3_QPACK_TABLE_CAPACITY_MAX
  unfolding set_h3_qpack_table_capacity_def
  by (rule uint_directive_numeric)
    (simp_all add: numeric_spec_def h3_cmds_def set_h3_qpack_table_capacity_def h3_limits unat_ucast_id)

interpretation qpack_blocked_streams: numeric_directive "''H3QpackBlockedStreams''" set_h3_qpack_blocked_streams
  "\<lambda>c. unat (h3_qpack_blocked_streams c)" 0 H3_QPACK_BLOCKED_STREAMS_MAX
  unfolding set_h3_qpack_blocked_streams_def
  by (rule uint_directive_numeric)
    (simp_all add: numeric_spec_def h3_cmds_def set_h3_qpack_blocked_streams_def h3_limits unat_ucast_id)

interpretation min_workers: numeric_directive "''H3MinWorkers''" set_h3_min_workers
  "\<lambda>c. unat (h3_min_workers c)" 1 H3_WORKERS_MAX
  unfolding set_h3_min_workers_def
  by (rule uint_directive_numeric)
    (simp_all add: numeric_spec_def h3_cmds_def set_h3_min_workers_def h3_limits unat_ucast_id)

interpretation max_workers: numeric_directive "''H3MaxWorkers''" set_h3_max_workers
  "\<lambda>c. unat (h3_max_workers c)" 1 H3_WORKERS_MAX
  unfolding set_h3_max_workers_def
  by (rule uint_directive_numeric)
    (simp_all add: numeric_spec_def h3_cmds_def set_h3_max_workers_def h3_limits unat_ucast_id)

interpretation max_worker_idle_seconds: numeric_directive "''H3MaxWorkerIdleSeconds''" set_h3_max_worker_idle_seconds
  "\<lambda>c. unat (h3_max_worker_idle_seconds c)" 1 H3_MAX_WORKER_IDLE_SECONDS_MAX
  unfolding set_h3_max_worker_idle_seconds_def
  by (rule uint_directive_numeric)
    (simp_all add: numeric_spec_def h3_cmds_def set_h3_max_worker_idle_seconds_def h3_limits unat_ucast_id)

lemmas numeric_directives =
  max_concurrent_streams.numeric_directive_axioms
  max_connections.numeric_directive_axioms
  stream_buffer_size.numeric_directive_axioms
  max_request_body_size.numeric_directive_axioms
  alt_svc_max_age.numeric_directive_axioms
  handshake_timeout.numeric_directive_axioms
  idle_timeout.numeric_directive_axioms
  max_response_body_size.numeric_directive_axioms
  socket_buffer_size.numeric_directive_axioms
  stream_timeout.numeric_directive_axioms
  max_stream_errors.numeric_directive_axioms
  qpack_table_capacity.numeric_directive_axioms
  qpack_blocked_streams.numeric_directive_axioms
  min_workers.numeric_directive_axioms
  max_workers.numeric_directive_axioms
  max_worker_idle_seconds.numeric_directive_axioms

lemma numeric_spec_directive:
  assumes "(d, field, lo, hi) \<in> set numeric_spec"
  shows "\<exists>handler. numeric_directive d handler field lo hi"
  using assms numeric_directives by (auto simp: numeric_spec_def)

section \<open>Directives keep every number in range\<close>

lemma uint_directive_in_range:
  assumes "\<And>v. unat v \<le> hi \<Longrightarrow> conf_in_range (upd v c)"
    and "uint_directive d lo hi upd A (Some c) arg = CmdOk c'"
  shows "conf_in_range c'"
  using assms by (auto simp: uint_directive_ok)

lemma conf_in_range_updates [simp]:
  assumes "conf_in_range c"
  shows "unat n \<le> UINT16_MAX \<Longrightarrow> conf_in_range (c\<lparr>h3_max_concurrent_streams := n\<rparr>)"
    "unat n \<le> H3_MAX_CONNECTIONS_MAX \<Longrightarrow> conf_in_range (c\<lparr>h3_max_connections := n\<rparr>)"
    "unat m \<le> H3_STREAM_BUFFER_SIZE_MAX \<Longrightarrow> conf_in_range (c\<lparr>h3_stream_buffer_size := m\<rparr>)"
    "unat m \<le> H3_MAX_REQUEST_BODY_SIZE_MAX \<Longrightarrow> conf_in_range (c\<lparr>h3_max_request_body_size := m\<rparr>)"
    "unat m \<le> H3_MAX_RESPONSE_BODY_SIZE_MAX \<Longrightarrow> conf_in_range (c\<lparr>h3_max_response_body_size := m\<rparr>)"
    "unat n \<le> H3_ALT_SVC_MAX_AGE_MAX \<Longrightarrow> conf_in_range (c\<lparr>h3_alt_svc_max_age := n\<rparr>)"
    "unat n \<le> H3_HANDSHAKE_TIMEOUT_MAX \<Longrightarrow> conf_in_range (c\<lparr>h3_handshake_timeout := n\<rparr>)"
    "unat n \<le> H3_IDLE_TIMEOUT_MAX \<Longrightarrow> conf_in_range (c\<lparr>h3_idle_timeout := n\<rparr>)"
    "unat m \<le> H3_SOCKET_BUFFER_SIZE_MAX \<Longrightarrow> conf_in_range (c\<lparr>h3_socket_buffer_size := m\<rparr>)"
    "unat n \<le> H3_STREAM_TIMEOUT_MAX \<Longrightarrow> conf_in_range (c\<lparr>h3_stream_timeout := n\<rparr>)"
    "unat n \<le> H3_MAX_STREAM_ERRORS_MAX \<Longrightarrow> conf_in_range (c\<lparr>h3_max_stream_errors := n\<rparr>)"
    "unat n \<le> H3_QPACK_TABLE_CAPACITY_MAX \<Longrightarrow>
       conf_in_range (c\<lparr>h3_qpack_table_capacity := n, h3_qpack_capacity_set := b\<rparr>)"
    "unat n \<le> H3_QPACK_BLOCKED_STREAMS_MAX \<Longrightarrow>
       conf_in_range (c\<lparr>h3_qpack_blocked_streams := n, h3_qpack_blocked_set := b\<rparr>)"
    "unat n \<le> H3_WORKERS_MAX \<Longrightarrow> conf_in_range (c\<lparr>h3_min_workers := n\<rparr>)"
    "unat n \<le> H3_WORKERS_MAX \<Longrightarrow> conf_in_range (c\<lparr>h3_max_workers := n\<rparr>)"
    "unat n \<le> H3_MAX_WORKER_IDLE_SECONDS_MAX \<Longrightarrow> conf_in_range (c\<lparr>h3_max_worker_idle_seconds := n\<rparr>)"
    "conf_in_range (c\<lparr>h3_cert_path := sp\<rparr>)" "conf_in_range (c\<lparr>h3_key_path := sp\<rparr>)"
    "conf_in_range (c\<lparr>h3_port := port\<rparr>)" "conf_in_range (c\<lparr>host_port := port\<rparr>)"
    "conf_in_range (c\<lparr>h3_alt_svc := fl\<rparr>)" "conf_in_range (c\<lparr>h3_address_validation := fl\<rparr>)"
    "conf_in_range (c\<lparr>h3_session_tickets := fl\<rparr>)"
  using assms by (simp_all add: conf_in_range_def)

lemma unat_narrow_le:
  fixes v :: uint64_t
  assumes "unat v \<le> hi" "hi \<le> 4294967295"
  shows "unat (ucast v :: apr_uint32_t) \<le> hi"
  using assms by (simp add: unat_ucast_id)

lemma h3_cmds_take1_in_range:
  assumes "(d, TAKE1 h) \<in> set h3_cmds" "conf_in_range c" "h A (Some c) arg = CmdOk c'"
  shows "conf_in_range c'"
proof -
  have num: "uint_directive d lo hi upd A (Some c) arg = CmdOk c' \<Longrightarrow>
      (\<And>v. unat v \<le> hi \<Longrightarrow> conf_in_range (upd v c)) \<Longrightarrow> conf_in_range c'" for d lo hi upd
    by (rule uint_directive_in_range)
  have narrow: "hi \<le> 4294967295 \<Longrightarrow> unat v \<le> hi \<Longrightarrow> unat (ucast v :: apr_uint32_t) \<le> hi"
    for hi and v :: uint64_t
    by (rule unat_narrow_le)
  have small: "UINT16_MAX \<le> 4294967295" "H3_MAX_CONNECTIONS_MAX \<le> 4294967295"
    "H3_ALT_SVC_MAX_AGE_MAX \<le> 4294967295" "H3_HANDSHAKE_TIMEOUT_MAX \<le> 4294967295"
    "H3_IDLE_TIMEOUT_MAX \<le> 4294967295" "H3_STREAM_TIMEOUT_MAX \<le> 4294967295"
    "H3_MAX_STREAM_ERRORS_MAX \<le> 4294967295" "H3_QPACK_TABLE_CAPACITY_MAX \<le> 4294967295"
    "H3_QPACK_BLOCKED_STREAMS_MAX \<le> 4294967295" "H3_WORKERS_MAX \<le> 4294967295"
    "H3_MAX_WORKER_IDLE_SECONDS_MAX \<le> 4294967295"
    by (simp_all add: h3_limits)
  have str: "set_string (Some c) upd = CmdOk c' \<Longrightarrow> conf_in_range (upd c) \<Longrightarrow> conf_in_range c'" for upd
    by (simp add: set_string_def)
  have port: "set_h3_port A (Some c) arg = CmdOk c' \<Longrightarrow> conf_in_range c'"
    using assms(2)
    by (auto simp: set_h3_port_def store_conf_def split: option.splits prod.splits if_splits)
  show ?thesis
    using assms
    apply (simp only: h3_cmds_def list.set insert_iff prod.inject cmd_handler.inject
        cmd_handler.distinct simp_thms empty_iff numeric_setter_defs)
    apply (elim disjE conjE)
    apply (simp_all only: set_h3_cert_path_def set_h3_key_path_def)
    apply (auto elim!: num str port simp: narrow [OF small(1)] narrow [OF small(2)] narrow [OF small(3)]
        narrow [OF small(4)] narrow [OF small(5)] narrow [OF small(6)] narrow [OF small(7)]
        narrow [OF small(8)] narrow [OF small(9)] narrow [OF small(10)] narrow [OF small(11)])
    done
qed

lemma h3_cmds_flag_in_range:
  assumes "(d, FLAG h) \<in> set h3_cmds" "conf_in_range c" "h (Some c) flag = CmdOk c'"
  shows "conf_in_range c'"
  using assms
  by (auto simp: h3_cmds_def conf_in_range_def store_conf_def set_h3_alt_svc_def
      set_h3_address_validation_def set_h3_session_tickets_def)

lemma run_line_in_range [inv_intros]:
  assumes "conf_in_range c" "run_line A l c = Some (CmdOk c')"
  shows "conf_in_range c'"
  using assms h3_cmds_take1_in_range h3_cmds_flag_in_range
  by (auto simp: run_line_def split: directive_line.splits option.splits cmd_handler.splits
      dest!: map_of_SomeD)

lemma run_lines_in_range_from:
  assumes "conf_in_range c" "run_lines A ls c = Some c'"
  shows "conf_in_range c'"
  using assms
proof (induction ls arbitrary: c)
  case (Cons l ls)
  then show ?case
    by (auto split: option.splits cmd_result.splits dest: run_line_in_range)
qed simp

lemma conf_in_range_create [simp]: "conf_in_range h3_create_server_config"
  by (simp add: conf_in_range_def h3_create_server_config_def)

lemma unat_pick_num:
  fixes a b :: "'a::len word"
  shows "unat a \<le> n \<Longrightarrow> unat b \<le> n \<Longrightarrow> unat (pick_num a b) \<le> n"
  by (simp add: pick_num_def)

lemma conf_in_range_merge [inv_intros]:
  assumes "conf_in_range base" "conf_in_range new"
  shows "conf_in_range (h3_merge_server_config base new)"
  using assms by (simp add: conf_in_range_def h3_merge_server_config_def unat_pick_num)

text \<open>whatever sequence of directive lines the module accepts for a server, starting from
  the zeroed record, every number it stores is unset or within the maximum its directive
  allows, and so is every number after that server is merged over a base server configured the
  same way: nothing is truncated by the narrowing casts.\<close>

theorem configured_in_range:
  assumes "run_lines A ls h3_create_server_config = Some base"
    and "run_lines A ls' h3_create_server_config = Some new"
  shows "conf_in_range new \<and> conf_in_range (h3_merge_server_config base new)"
  using run_lines_in_range_from [OF conf_in_range_create assms(1)]
    run_lines_in_range_from [OF conf_in_range_create assms(2)]
  by (simp add: conf_in_range_merge)

text \<open>A parser for the witnesses: decimal digits only.\<close>

fun digits_value :: "nat \<Rightarrow> string \<Rightarrow> nat option" where
  "digits_value acc [] = Some acc"
| "digits_value acc (ch # s) =
     (let k = of_char ch :: nat in
      if 48 \<le> k \<and> k \<le> 57 then digits_value (10 * acc + (k - 48)) s else None)"

definition decimal_cstr :: apr_cstr where
  "decimal_cstr =
     \<lparr>apr_cstr_atoi64 = (\<lambda>s. case digits_value 0 s of
          None \<Rightarrow> (APR_EINVAL, 0)
        | Some n \<Rightarrow> if n < 2 ^ 63 then (APR_SUCCESS, int n) else (APR_ERANGE, 0)),
      apr_cstr_atoui64 = (\<lambda>s. case digits_value 0 s of
          None \<Rightarrow> (APR_EINVAL, 0)
        | Some n \<Rightarrow> if n < 2 ^ 64 then (APR_SUCCESS, of_nat n) else (APR_ERANGE, 0))\<rparr>"

definition sample_base_lines :: "directive_line list" where
  "sample_base_lines =
     [Take1Line ''H3CertificatePath'' (Some ''c.pem''),
      Take1Line ''H3CertificateKeyPath'' (Some ''k.pem''),
      Take1Line ''H3MinWorkers'' (Some ''80''), FlagLine ''H3AltSvc'' False]"

definition sample_base :: h3_server_conf where
  "sample_base = h3_create_server_config
     \<lparr>h3_cert_path := Some ''c.pem'', h3_key_path := Some ''k.pem'', h3_min_workers := 80,
      h3_alt_svc := H3_FLAG_OFF\<rparr>"

lemma run_sample_base: "run_lines decimal_cstr sample_base_lines h3_create_server_config = Some sample_base"
  by (simp add: sample_base_lines_def sample_base_def run_line_def h3_cmds_def decimal_cstr_def
      set_h3_cert_path_def set_h3_key_path_def set_string_def set_h3_min_workers_def
      uint_directive_def h3_limits store_conf_def set_h3_alt_svc_def)

lemma sample_base_in_range: "conf_in_range sample_base"
  by (rule run_lines_in_range_from [OF conf_in_range_create run_sample_base])

theorem configured_in_range_witness:
  "conf_in_range sample_base \<and> conf_in_range (h3_merge_server_config sample_base sample_base)"
  using configured_in_range [OF run_sample_base run_sample_base] by simp

section \<open>Each directive sets its own field, exactly\<close>



section \<open>Merging\<close>

lemma pick_assoc:
  "pick_num c (pick_num b a) = pick_num (pick_num c b) a"
  "pick_ptr c' (pick_ptr b' a') = pick_ptr (pick_ptr c' b') a'"
  "pick_flag c'' (pick_flag b'' a'') = pick_flag (pick_flag c'' b'') a''"
  by (auto simp: pick_num_def pick_ptr_def pick_flag_def)

lemma pick_zero [simp]:
  "pick_num 0 x = x" "pick_num x 0 = x"
  "pick_ptr None p = p" "pick_ptr p None = p"
  "pick_flag H3_FLAG_UNSET f = f" "pick_flag f H3_FLAG_UNSET = f"
  by (auto simp: pick_num_def pick_ptr_def pick_flag_def)

text \<open>merging is associative (a chain of nested scopes gives one result however httpd
  groups the merges), and the zeroed record is neutral as a child; only the recorded host port
  is dropped.\<close>

theorem merge_assoc_and_unit:
  "h3_merge_server_config a (h3_merge_server_config b c) =
     h3_merge_server_config (h3_merge_server_config a b) c \<and>
   h3_merge_server_config a h3_create_server_config = a\<lparr>host_port := 0\<rparr>"
  by (simp add: h3_merge_server_config_def h3_create_server_config_def pick_assoc)

section \<open>The post-config hook readies the virtual host a child serves\<close>

lemma set_upto_dflt:
  assumes "unat x \<le> hi" "set_upto hi d"
  shows "set_upto hi (dflt d x)"
  using assms by (auto simp: dflt_def set_upto_def unat_gt_0 Suc_le_eq)

lemma set_upto_of_nat:
  assumes "1 \<le> n" "n \<le> hi" "n < 2 ^ LENGTH('a)"
  shows "set_upto hi (of_nat n :: 'a::len word)"
  using assms by (simp add: set_upto_def unat_of_nat_id)

lemma apply_defaults_identity [simp]:
  "h3_cert_path (apply_defaults p c) = h3_cert_path c"
  "h3_key_path (apply_defaults p c) = h3_key_path c"
  "has_identity (apply_defaults p c) = has_identity c"
  by (simp_all add: apply_defaults_def has_identity_def Let_def)

lemma dflt_response_limit:
  assumes "unat x \<le> H3_MAX_RESPONSE_BODY_SIZE_MAX"
  shows "dflt H3_MAX_RESPONSE_BODY_SIZE_DEFAULT x = H3_MAX_RESPONSE_BODY_SIZE_DEFAULT \<or>
    set_upto H3_MAX_RESPONSE_BODY_SIZE_MAX (dflt H3_MAX_RESPONSE_BODY_SIZE_DEFAULT x)"
  using assms by (auto simp: dflt_def set_upto_def unat_gt_0 Suc_le_eq)

lemma set_upto_defaults:
  "set_upto UINT16_MAX (of_nat H3_MAX_CONCURRENT_STREAMS_DEFAULT :: apr_uint32_t)"
  "set_upto H3_MAX_CONNECTIONS_MAX (of_nat H3_MAX_CONNECTIONS_DEFAULT :: apr_uint32_t)"
  "set_upto H3_STREAM_BUFFER_SIZE_MAX (of_nat H3_STREAM_BUFFER_SIZE_DEFAULT :: size_t)"
  "set_upto H3_MAX_REQUEST_BODY_SIZE_MAX (of_nat H3_MAX_REQUEST_BODY_SIZE_DEFAULT :: size_t)"
  "set_upto H3_ALT_SVC_MAX_AGE_MAX (of_nat H3_ALT_SVC_MAX_AGE_DEFAULT :: apr_uint32_t)"
  "set_upto H3_HANDSHAKE_TIMEOUT_MAX (of_nat H3_HANDSHAKE_TIMEOUT_DEFAULT :: apr_uint32_t)"
  "set_upto H3_IDLE_TIMEOUT_MAX (of_nat H3_IDLE_TIMEOUT_DEFAULT :: apr_uint32_t)"
  "set_upto H3_SOCKET_BUFFER_SIZE_MAX (of_nat H3_SOCKET_BUFFER_SIZE_DEFAULT :: size_t)"
  "set_upto H3_MAX_STREAM_ERRORS_MAX (of_nat H3_MAX_STREAM_ERRORS_DEFAULT :: apr_uint32_t)"
  "set_upto H3_WORKERS_MAX (of_nat H3_MIN_WORKERS_DEFAULT :: apr_uint32_t)"
  "set_upto H3_WORKERS_MAX (of_nat H3_MAX_WORKERS_DEFAULT :: apr_uint32_t)"
  "set_upto H3_MAX_WORKER_IDLE_SECONDS_MAX (of_nat H3_MAX_WORKER_IDLE_SECONDS_DEFAULT :: apr_uint32_t)"
  by (simp_all add: set_upto_def h3_limits)

lemma apply_defaults_ready:
  assumes "has_identity c" "conf_in_range c"
  shows "conf_ready (apply_defaults p c)"
proof -
  have qpack: "unat (of_nat H3_QPACK_TABLE_CAPACITY_DEFAULT :: apr_uint32_t) \<le> H3_QPACK_TABLE_CAPACITY_MAX"
    "unat (of_nat H3_QPACK_BLOCKED_STREAMS_DEFAULT :: apr_uint32_t) \<le> H3_QPACK_BLOCKED_STREAMS_MAX"
    by (simp_all add: h3_limits)
  show ?thesis
    using assms
    by (simp add: conf_ready_def apply_defaults_def Let_def conf_in_range_def dflt_flag_def
        dflt_response_limit has_identity_def qpack set_upto_dflt set_upto_defaults not_less)
qed

lemma resolve_vhosts_Some:
  assumes "resolve_vhosts ss = (ss', Some c)" "\<And>s. s \<in> set ss \<Longrightarrow> conf_in_range (module_config s)"
  shows "conf_ready c \<and> (\<exists>s. find_h3_server ss' = Some (s, c) \<and> module_config s = c)"
  using assms
proof (induction ss arbitrary: ss')
  case (Cons vs rest)
  show ?case
  proof (cases "has_identity (module_config vs)")
    case True
    with Cons.prems(1) have ss': "ss' = vs\<lparr>module_config := c\<rparr> # rest"
      and c: "c = apply_defaults (get_server_port vs) (module_config vs)"
      by (auto simp: Let_def)
    have "conf_ready c" using True Cons.prems(2) c by (simp add: apply_defaults_ready)
    moreover have "c\<lparr>host_port := get_server_port vs\<rparr> = c"
      by (simp add: c apply_defaults_def Let_def)
    ultimately show ?thesis
      using True c by (simp add: ss' get_server_port_def Let_def)
  next
    case False
    with Cons.prems(1) obtain rest' where "resolve_vhosts rest = (rest', Some c)" "ss' = vs # rest'"
      by (auto simp: Let_def split: prod.splits)
    with False Cons.IH [of rest'] Cons.prems(2) show ?thesis by simp
  qed
qed simp

lemma resolve_vhosts_None:
  "snd (resolve_vhosts ss) = None \<longleftrightarrow> (\<forall>s \<in> set ss. \<not> has_identity (module_config s))"
  by (induction ss) (auto simp: Let_def split: prod.splits)

text \<open>C11: when the post-config hook accepts a configuration built by the directives, the
  virtual host each child then picks (\<^verbatim>\<open>find_h3_server\<close>) is the one the hook prepared: it has a
  certificate and a key that could be opened, every limit is set and in range, H3MaxWorkers is
  at least H3MinWorkers, and every on/off setting is decided.\<close>

theorem post_config_ready:
  assumes "h3_post_config False readable servers = (servers', POST_OK)"
    and "\<And>s. s \<in> set servers \<Longrightarrow> conf_in_range (module_config s)"
  shows "\<exists>s c cert key. find_h3_server servers' = Some (s, c) \<and> module_config s = c \<and>
    conf_ready c \<and> h3_cert_path c = Some cert \<and> readable cert \<and>
    h3_key_path c = Some key \<and> readable key"
proof -
  obtain conf where conf: "resolve_vhosts servers = (servers', Some conf)"
    and paths: "\<exists>cert key. h3_cert_path conf = Some cert \<and> readable cert \<and>
      h3_key_path conf = Some key \<and> readable key"
    using assms(1) by (auto simp: h3_post_config_def split: prod.splits option.splits if_splits)
  with resolve_vhosts_Some [OF conf assms(2)] show ?thesis by blast
qed

definition sample_server :: server_rec where
  "sample_server = \<lparr>addrs = [0, 4433], module_config = sample_base, limit_req_fields = 100,
     limit_req_fieldsize = 8190, s_timeout = 60000000\<rparr>"

theorem post_config_ready_witness:
  "\<exists>s c. find_h3_server (fst (h3_post_config False (\<lambda>_. True) [sample_server])) = Some (s, c) \<and> conf_ready c"
proof -
  have "snd (h3_post_config False (\<lambda>_. True) [sample_server]) = POST_OK"
    by (simp add: h3_post_config_def sample_server_def sample_base_def has_identity_def Let_def)
  moreover have "conf_in_range (module_config sample_server)"
    using sample_base_in_range by (simp add: sample_server_def)
  ultimately show ?thesis
    using post_config_ready [of "\<lambda>_. True" "[sample_server]"] by (metis empty_iff empty_set prod.collapse set_ConsD)
qed

text \<open>The hook refuses to start the server (outside the pre-config run) exactly when no
  virtual host has both a certificate and a key path, or one of the first such host's two files
  cannot be opened.\<close>

theorem post_config_refuses_iff:
  "snd (h3_post_config False readable servers) = POST_INTERNAL_SERVER_ERROR \<longleftrightarrow>
     (case find_h3_server servers of
        None \<Rightarrow> True
      | Some (s, c) \<Rightarrow> \<not> (readable (the (h3_cert_path c)) \<and> readable (the (h3_key_path c))))"
proof -
  have key: "case find_h3_server ss of
      None \<Rightarrow> snd (resolve_vhosts ss) = None
    | Some (s, c) \<Rightarrow> \<exists>c'. snd (resolve_vhosts ss) = Some c' \<and>
        h3_cert_path c' = h3_cert_path c \<and> h3_key_path c' = h3_key_path c \<and> has_identity c'" for ss
    by (induction ss) (auto simp: Let_def has_identity_def split: prod.splits option.splits)
  show ?thesis
    using key [of servers]
    by (auto simp: h3_post_config_def has_identity_def split: prod.splits option.splits)
qed

end
