(* ===== verification/H3_Response_Queue.thy ===== *)
theory H3_Response_Queue
  imports H3_Prelude
begin

text \<open>
  The bounded producer/consumer queue of response bytes of one stream
  (\<^verbatim>\<open>h3_session.c\<close>: \<^verbatim>\<open>struct h3_response_chunk\<close>, \<^verbatim>\<open>h3_stream_response_append\<close>, \<^verbatim>\<open>_complete\<close>,
  \<^verbatim>\<open>_ack_locked\<close>, \<^verbatim>\<open>_cancel_locked\<close>, \<^verbatim>\<open>_cleanup_locked\<close> and \<^verbatim>\<open>h3_session_read_data\<close>).

  The queue is a singly linked list of malloc'ed chunks with three pointers into it (head, tail
  and the next chunk to hand to nghttp3), so the model keeps the pointers and an explicit store:
  \<open>response_heap\<close> is the part of the malloc heap this queue owns. Reading or writing through a
  pointer the store does not hold is undefined behaviour in C; here the operation returns
  \<^const>\<open>None\<close>, as it does when a loop never ends. A theorem that gives \<^const>\<open>Some\<close> thus shows
  memory safety and termination together.

  Parameters: \<^verbatim>\<open>malloc\<close> (which may fail, and otherwise returns memory not in use), the clock,
  and the result of each condition wait. The abstract side is \<open>resp_spec\<close>: the log of all bytes
  the producer ever queued, with two positions in it (handed to nghttp3, acknowledged).
\<close>

section \<open>Data\<close>

type_synonym chunk_ptr = nat

record h3_response_chunk =
  chunk_next :: "chunk_ptr option"
  chunk_len :: size_t
  chunk_acked :: size_t
  chunk_data :: "byte list"

type_synonym chunk_heap = "chunk_ptr \<Rightarrow> h3_response_chunk option"

text \<open>
  The response fields of \<^verbatim>\<open>struct h3_stream\<close>; the full stream record extends this one.
  \<open>response_cond\<close> is NULL or the number of broadcasts so far.
\<close>

record h3_response =
  response_cond :: "nat option"
  response_heap :: chunk_heap
  response_head :: "chunk_ptr option"
  response_tail :: "chunk_ptr option"
  response_submit_chunk :: "chunk_ptr option"
  response_submit_offset :: size_t
  response_buffered :: size_t
  response_len :: size_t
  response_buffer_limit :: size_t
  response_submitted :: bool
  response_complete :: bool
  response_cancelled :: bool
  response_progress_at :: apr_time_t

definition STREAM_CHUNK_BYTES :: size_t where
  "STREAM_CHUNK_BYTES = 4 * 1024"

definition SIZE_MAX :: size_t where
  "SIZE_MAX = - 1"

text \<open>\<^verbatim>\<open>malloc(sizeof(*chunk) + chunk_len)\<close>: NULL, or memory the heap does not hold yet.\<close>

type_synonym malloc = "chunk_heap \<Rightarrow> size_t \<Rightarrow> chunk_ptr option"

definition malloc_fresh :: "malloc \<Rightarrow> bool" where
  "malloc_fresh malloc \<longleftrightarrow> (\<forall>h n p. malloc h n = Some p \<longrightarrow> h p = None)"

section \<open>Operations\<close>

definition cond_broadcast :: "'a h3_response_scheme \<Rightarrow> 'a h3_response_scheme" where
  "cond_broadcast q = q\<lparr>response_cond := map_option Suc (response_cond q)\<rparr>"

definition h3_stream_response_cancel_locked :: "'a h3_response_scheme \<Rightarrow> 'a h3_response_scheme" where
  "h3_stream_response_cancel_locked q =
     (let q = q\<lparr>response_cancelled := True, response_complete := True\<rparr>
      in if response_cond q \<noteq> None then cond_broadcast q else q)"

text \<open>
  \<^verbatim>\<open>h3_stream_response_append\<close>, one pass of its outer loop, from taking the session lock to
  releasing it. \<open>aborted\<close>, \<open>ngh3_dead\<close> and \<open>ngh3\<close> (non-NULL) are the session's fields.
  \<open>AppWait\<close>: the queue is full and the producer sleeps on the condition variable;
  \<open>AppReturn\<close>: the function returns; \<open>AppQueued n\<close>: \<open>n\<close> bytes were queued, and nghttp3 is
  resumed when the response was already submitted.
\<close>

datatype append_result = AppWait | AppReturn apr_status_t | AppQueued size_t

definition append_chunk_len :: "size_t \<Rightarrow> size_t \<Rightarrow> size_t" where
  "append_chunk_len room want =
     (let c = (if want > room then room else want)
      in if c > STREAM_CHUNK_BYTES then STREAM_CHUNK_BYTES else c)"

definition link_chunk ::
  "chunk_ptr \<Rightarrow> h3_response_chunk \<Rightarrow> 'a h3_response_scheme \<Rightarrow> 'a h3_response_scheme option" where
  "link_chunk p c q =
     (let q = q\<lparr>response_heap := (response_heap q)(p \<mapsto> c)\<rparr> in
      do {
        q \<leftarrow> (case response_tail q of
               Some t \<Rightarrow>
                 (case response_heap q t of
                    None \<Rightarrow> None
                  | Some tc \<Rightarrow>
                      Some (q\<lparr>response_heap := (response_heap q)(t \<mapsto> tc\<lparr>chunk_next := Some p\<rparr>)\<rparr>))
             | None \<Rightarrow> Some (q\<lparr>response_head := Some p\<rparr>));
        let q = q\<lparr>response_tail := Some p\<rparr>;
        let q = (if response_submit_chunk q = None
                 then q\<lparr>response_submit_chunk := Some p, response_submit_offset := 0\<rparr> else q);
        Some (q\<lparr>response_buffered := response_buffered q + chunk_len c,
                response_len := response_len q + chunk_len c\<rparr>)
      })"

definition response_append_section ::
  "malloc \<Rightarrow> bool \<Rightarrow> bool \<Rightarrow> bool \<Rightarrow> byte list \<Rightarrow> size_t \<Rightarrow> size_t \<Rightarrow>
   'a h3_response_scheme \<Rightarrow> ('a h3_response_scheme \<times> append_result) option" where
  "response_append_section malloc aborted ngh3_dead ngh3 data len offset q =
     (if response_buffered q \<ge> response_buffer_limit q \<and> \<not> response_cancelled q \<and>
         \<not> aborted \<and> \<not> ngh3_dead
      then Some (q, AppWait)
      else if response_cancelled q \<or> aborted \<or> ngh3_dead \<or> \<not> ngh3
      then Some (q, AppReturn APR_ECONNABORTED)
      else
        let room = response_buffer_limit q - response_buffered q;
            n = append_chunk_len room (len - offset)
        in if n = 0 \<or> response_len q > SIZE_MAX - n
           then Some (h3_stream_response_cancel_locked q, AppReturn APR_EGENERAL)
           else (case malloc (response_heap q) n of
                   None \<Rightarrow> Some (h3_stream_response_cancel_locked q, AppReturn APR_ENOMEM)
                 | Some p \<Rightarrow>
                     map_option (\<lambda>q'. (q', AppQueued n))
                       (link_chunk p
                          \<lparr>chunk_next = None, chunk_len = n, chunk_acked = 0,
                           chunk_data = take (unat n) (drop (unat offset) data)\<rparr> q)))"

text \<open>
  The whole producer call. Between two passes the lock is free: \<open>others k\<close> is what the other
  threads do to the shared state then (the event thread reads, acknowledges, cancels, aborts), and
  \<open>waits k\<close> is the result of the timed wait. \<open>resume\<close> is \<^verbatim>\<open>nghttp3_conn_resume_stream\<close> on this
  stream and \<open>wake\<close> is \<^verbatim>\<open>wake_event_thread\<close>, both on the world outside the module.
\<close>

record ('w, 'q) resp_shared =
  rs_aborted :: bool
  rs_ngh3_dead :: bool
  rs_ngh3 :: bool
  rs_stream :: 'q
  rs_world :: 'w

partial_function (option) append_loop ::
  "malloc \<Rightarrow> ('w \<Rightarrow> 'w) \<Rightarrow> ('w \<Rightarrow> 'w) \<Rightarrow>
   (nat \<Rightarrow> ('w, 'a h3_response_scheme) resp_shared \<Rightarrow> ('w, 'a h3_response_scheme) resp_shared) \<Rightarrow>
   (nat \<Rightarrow> apr_status_t) \<Rightarrow> byte list \<Rightarrow> size_t \<Rightarrow> nat \<Rightarrow> size_t \<Rightarrow>
   ('w, 'a h3_response_scheme) resp_shared \<Rightarrow>
   (('w, 'a h3_response_scheme) resp_shared \<times> apr_status_t) option" where
  "append_loop malloc resume wake others waits data len k offset s =
     (if offset < len
      then (case response_append_section malloc (rs_aborted s) (rs_ngh3_dead s) (rs_ngh3 s)
                   data len offset (rs_stream s) of
              None \<Rightarrow> None
            | Some (q, r) \<Rightarrow>
                (case r of
                   AppWait \<Rightarrow>
                     let s = others k s; rv = waits k
                     in if rv \<noteq> APR_SUCCESS \<and> rv \<noteq> APR_TIMEUP then Some (s, rv)
                        else append_loop malloc resume wake others waits data len (Suc k) offset s
                 | AppReturn st \<Rightarrow> Some (s\<lparr>rs_stream := q\<rparr>, st)
                 | AppQueued n \<Rightarrow>
                     let w = (if response_submitted q then resume (rs_world s) else rs_world s);
                         s = s\<lparr>rs_stream := q, rs_world := wake w\<rparr>
                     in append_loop malloc resume wake others waits data len (Suc k) (offset + n)
                          (others k s)))
      else Some (s, APR_SUCCESS))"

definition h3_stream_response_append ::
  "malloc \<Rightarrow> ('w \<Rightarrow> 'w) \<Rightarrow> ('w \<Rightarrow> 'w) \<Rightarrow>
   (nat \<Rightarrow> ('w, 'a h3_response_scheme) resp_shared \<Rightarrow> ('w, 'a h3_response_scheme) resp_shared) \<Rightarrow>
   (nat \<Rightarrow> apr_status_t) \<Rightarrow> byte list option \<Rightarrow> size_t \<Rightarrow>
   ('w, 'a h3_response_scheme) resp_shared \<Rightarrow>
   (('w, 'a h3_response_scheme) resp_shared \<times> apr_status_t) option" where
  "h3_stream_response_append malloc resume wake others waits data len s =
     (if data = None \<and> len \<noteq> 0 then Some (s, APR_EINVAL)
      else append_loop malloc resume wake others waits
             (case data of None \<Rightarrow> [] | Some bs \<Rightarrow> bs) len 0 0 s)"

text \<open>
  \<^verbatim>\<open>h3_stream_response_complete\<close> under the lock; nghttp3 is resumed when the second component
  is true.
\<close>

definition h3_stream_response_complete ::
  "bool \<Rightarrow> bool \<Rightarrow> 'a h3_response_scheme \<Rightarrow> 'a h3_response_scheme \<times> bool" where
  "h3_stream_response_complete ngh3_dead ngh3 q =
     (let q = q\<lparr>response_complete := True\<rparr>
      in (cond_broadcast q, response_submitted q \<and> ngh3 \<and> \<not> ngh3_dead))"

text \<open>
  \<open>ack_chunk\<close> is the body of the acknowledgement loop: it takes \<open>consumed\<close> bytes off the head
  chunk \<open>p\<close> and frees it when none is left.
\<close>

definition ack_chunk ::
  "apr_time_t \<Rightarrow> size_t \<Rightarrow> chunk_ptr \<Rightarrow> h3_response_chunk \<Rightarrow> 'a h3_response_scheme \<Rightarrow>
   'a h3_response_scheme" where
  "ack_chunk now consumed p chunk q =
     (let chunk = chunk\<lparr>chunk_acked := chunk_acked chunk + consumed\<rparr>;
          q = q\<lparr>response_heap := (response_heap q)(p \<mapsto> chunk),
                response_buffered := response_buffered q - consumed,
                response_progress_at := now\<rparr>
      in if chunk_acked chunk = chunk_len chunk
         then let q = q\<lparr>response_head := chunk_next chunk\<rparr>;
                  q = (if response_head q = None then q\<lparr>response_tail := None\<rparr> else q)
              in q\<lparr>response_heap := (response_heap q)(p := None)\<rparr>
         else q)"

partial_function (option) ack_loop ::
  "apr_time_t \<Rightarrow> uint64_t \<Rightarrow> bool \<Rightarrow> 'a h3_response_scheme \<Rightarrow>
   ('a h3_response_scheme \<times> bool) option" where
  "ack_loop now datalen released q =
     (if datalen > 0
      then (case response_head q of
              None \<Rightarrow> Some (q, released)
            | Some p \<Rightarrow>
                (case response_heap q p of
                   None \<Rightarrow> None
                 | Some chunk \<Rightarrow>
                     let available = chunk_len chunk - chunk_acked chunk;
                         consumed = (if datalen < available then datalen else available)
                     in ack_loop now (datalen - consumed) True (ack_chunk now consumed p chunk q)))
      else Some (q, released))"

definition h3_stream_response_ack_locked ::
  "apr_time_t \<Rightarrow> uint64_t \<Rightarrow> 'a h3_response_scheme \<Rightarrow> 'a h3_response_scheme option" where
  "h3_stream_response_ack_locked now datalen q =
     map_option (\<lambda>(q', released). if released then cond_broadcast q' else q')
       (ack_loop now datalen False q)"

partial_function (option) free_chunks :: "chunk_heap \<Rightarrow> chunk_ptr option \<Rightarrow> chunk_heap option" where
  "free_chunks h chunk =
     (case chunk of
        None \<Rightarrow> Some h
      | Some p \<Rightarrow>
          (case h p of
             None \<Rightarrow> None
           | Some c \<Rightarrow> free_chunks (h(p := None)) (chunk_next c)))"

definition h3_stream_response_cleanup_locked ::
  "'a h3_response_scheme \<Rightarrow> 'a h3_response_scheme option" where
  "h3_stream_response_cleanup_locked q =
     map_option (\<lambda>h. q\<lparr>response_heap := h, response_head := None, response_tail := None,
                        response_submit_chunk := None, response_submit_offset := 0,
                        response_buffered := 0\<rparr>)
       (free_chunks (response_heap q) (response_head q))"

text \<open>
  \<^verbatim>\<open>h3_session_read_data\<close>: the vectors handed to nghttp3 (their bytes), and whether the EOF flag
  is set.
\<close>

datatype read_data_result =
    RD_CALLBACK_FAILURE
  | RD_WOULDBLOCK
  | RD_VECS "byte list list" bool

fun read_loop ::
  "nat \<Rightarrow> 'a h3_response_scheme \<Rightarrow> ('a h3_response_scheme \<times> byte list list) option" where
  "read_loop 0 q = Some (q, [])"
| "read_loop (Suc room) q =
     (case response_submit_chunk q of
        None \<Rightarrow> Some (q, [])
      | Some p \<Rightarrow>
          (case response_heap q p of
             None \<Rightarrow> None
           | Some chunk \<Rightarrow>
               let remaining = chunk_len chunk - response_submit_offset q;
                   vec = take (unat remaining) (drop (unat (response_submit_offset q)) (chunk_data chunk));
                   q = q\<lparr>response_submit_chunk := chunk_next chunk, response_submit_offset := 0\<rparr>
               in map_option (\<lambda>(q', vecs). (q', vec # vecs)) (read_loop room q)))"

definition h3_session_read_data ::
  "nat \<Rightarrow> 'a h3_response_scheme \<Rightarrow> ('a h3_response_scheme \<times> read_data_result) option" where
  "h3_session_read_data veccnt q =
     (if veccnt = 0 then Some (q, RD_CALLBACK_FAILURE)
      else if response_cancelled q then Some (q, RD_VECS [] True)
      else map_option (\<lambda>(q', vecs).
             (q', if vecs \<noteq> []
                  then RD_VECS vecs (response_submit_chunk q' = None \<and> response_complete q')
                  else if response_complete q' then RD_VECS [] True else RD_WOULDBLOCK))
           (read_loop veccnt q))"

section \<open>Abstract queue\<close>

text \<open>
  What the queue promises: the log of the bytes the producer queued, in order, with the
  number already handed to nghttp3 and the number the peer acknowledged.
\<close>

record resp_spec =
  spec_log :: "byte list"
  spec_submitted :: nat
  spec_acked :: nat

definition spec_empty :: resp_spec where
  "spec_empty = \<lparr>spec_log = [], spec_submitted = 0, spec_acked = 0\<rparr>"

definition spec_append :: "byte list \<Rightarrow> resp_spec \<Rightarrow> resp_spec" where
  "spec_append bs a = a\<lparr>spec_log := spec_log a @ bs\<rparr>"

definition spec_ack :: "nat \<Rightarrow> resp_spec \<Rightarrow> resp_spec" where
  "spec_ack n a = a\<lparr>spec_acked := spec_acked a + n\<rparr>"

definition spec_read :: "nat \<Rightarrow> resp_spec \<Rightarrow> resp_spec" where
  "spec_read n a = a\<lparr>spec_submitted := spec_submitted a + n\<rparr>"

section \<open>Representation\<close>

fun chunk_path :: "chunk_heap \<Rightarrow> chunk_ptr option \<Rightarrow> (chunk_ptr \<times> h3_response_chunk) list \<Rightarrow> bool" where
  "chunk_path h p [] = (p = None)"
| "chunk_path h p ((x, c) # es) = (p = Some x \<and> h x = Some c \<and> chunk_path h (chunk_next c) es)"

definition chunk_ok :: "h3_response_chunk \<Rightarrow> bool" where
  "chunk_ok c \<longleftrightarrow> unat (chunk_len c) = length (chunk_data c) \<and> unat (chunk_acked c) < unat (chunk_len c)"

definition unacked :: "h3_response_chunk \<Rightarrow> byte list" where
  "unacked c = drop (unat (chunk_acked c)) (chunk_data c)"

text \<open>
  \<open>queue_rep q es n\<close>: the chunks of \<open>q\<close> are \<open>es\<close> in list order, the store holds these and
  no others, and the first \<open>n\<close> of them have been handed to nghttp3.
\<close>

definition queue_rep ::
  "'a h3_response_scheme \<Rightarrow> (chunk_ptr \<times> h3_response_chunk) list \<Rightarrow> nat \<Rightarrow> bool" where
  "queue_rep q es n \<longleftrightarrow>
     chunk_path (response_heap q) (response_head q) es \<and>
     distinct (map fst es) \<and>
     dom (response_heap q) = set (map fst es) \<and>
     response_tail q = (if es = [] then None else Some (fst (last es))) \<and>
     n \<le> length es \<and>
     response_submit_chunk q = (if n < length es then Some (fst (es ! n)) else None) \<and>
     response_submit_offset q = 0 \<and>
     list_all (\<lambda>e. chunk_ok (snd e)) es \<and>
     list_all (\<lambda>e. chunk_acked (snd e) = 0) (if n = 0 then es else tl es) \<and>
     unat (response_buffered q) = length (concat (map (\<lambda>e. unacked (snd e)) es)) \<and>
     response_buffered q \<le> response_buffer_limit q"

definition queue_refines :: "'a h3_response_scheme \<Rightarrow> resp_spec \<Rightarrow> bool" where
  "queue_refines q a \<longleftrightarrow>
     (\<exists>es n. queue_rep q es n \<and>
        spec_acked a \<le> spec_submitted a \<and> spec_submitted a \<le> length (spec_log a) \<and>
        drop (spec_acked a) (spec_log a) = concat (map (\<lambda>e. unacked (snd e)) es) \<and>
        drop (spec_submitted a) (spec_log a) = concat (map (\<lambda>e. chunk_data (snd e)) (drop n es)) \<and>
        length (spec_log a) = unat (response_len q))"

definition response_wf :: "'a h3_response_scheme \<Rightarrow> bool" where
  "response_wf q \<longleftrightarrow> (\<exists>a. queue_refines q a)"

section \<open>Schedules\<close>

text \<open>
  The lock-held sections of the two threads that share a queue, in any order: the worker queues
  (and may find the session in any condition), the event thread reads on behalf of nghttp3 and
  acknowledges, and either side changes a flag. A schedule is a list of such sections; running it
  records the bytes taken in, the bytes handed out and the count acknowledged. nghttp3
  acknowledges only bytes it was given: a schedule that does otherwise is \<open>OutOfContract\<close>.
  \<open>Faulted\<close> stands for undefined behaviour or a loop that does not end.
\<close>

datatype ('f, 'c) queue_op = OpPut 'f "byte list" | OpGet nat | OpAck uint64_t | OpCtl 'c

record 'q queue_run =
  qr_queue :: 'q
  qr_in :: "byte list"
  qr_out :: "byte list"
  qr_acked :: nat

fun op_ok :: "('f \<Rightarrow> bool) \<Rightarrow> ('f, 'c) queue_op \<Rightarrow> bool" where
  "op_ok put_ok (OpPut f bs) = put_ok f"
| "op_ok put_ok op = True"

datatype 'r outcome = OutOfContract | Faulted | Ran 'r

fun run_ops ::
  "('f \<Rightarrow> byte list \<Rightarrow> 'q \<Rightarrow> ('q \<times> nat) option) \<Rightarrow> (nat \<Rightarrow> 'q \<Rightarrow> ('q \<times> byte list) option) \<Rightarrow>
   (uint64_t \<Rightarrow> 'q \<Rightarrow> 'q option) \<Rightarrow> ('c \<Rightarrow> 'q \<Rightarrow> 'q) \<Rightarrow>
   ('f, 'c) queue_op list \<Rightarrow> 'q queue_run \<Rightarrow> 'q queue_run outcome" where
  "run_ops put get ack ctl [] r = Ran r"
| "run_ops put get ack ctl (OpPut f bs # ops) r =
     (case put f bs (qr_queue r) of
        None \<Rightarrow> Faulted
      | Some (q, n) \<Rightarrow>
          run_ops put get ack ctl ops (r\<lparr>qr_queue := q, qr_in := qr_in r @ take n bs\<rparr>))"
| "run_ops put get ack ctl (OpGet n # ops) r =
     (case get n (qr_queue r) of
        None \<Rightarrow> Faulted
      | Some (q, bs) \<Rightarrow> run_ops put get ack ctl ops (r\<lparr>qr_queue := q, qr_out := qr_out r @ bs\<rparr>))"
| "run_ops put get ack ctl (OpAck n # ops) r =
     (if qr_acked r + unat n > length (qr_out r) then OutOfContract
      else case ack n (qr_queue r) of
             None \<Rightarrow> Faulted
           | Some q \<Rightarrow>
               run_ops put get ack ctl ops (r\<lparr>qr_queue := q, qr_acked := qr_acked r + unat n\<rparr>))"
| "run_ops put get ack ctl (OpCtl d # ops) r =
     run_ops put get ack ctl ops (r\<lparr>qr_queue := ctl d (qr_queue r)\<rparr>)"

text \<open>
  The sections of the response queue as such operations. A put carries what the worker finds:
  the allocator and the session flags.
\<close>

record put_env =
  put_malloc :: malloc
  put_aborted :: bool
  put_dead :: bool
  put_ngh3 :: bool

datatype response_ctl = CtlCancel | CtlComplete bool bool | CtlSubmitted

definition response_put ::
  "put_env \<Rightarrow> byte list \<Rightarrow> 'a h3_response_scheme \<Rightarrow> ('a h3_response_scheme \<times> nat) option" where
  "response_put f bs q =
     (let len = of_nat (length bs) in
      if 0 < len
      then (case response_append_section (put_malloc f) (put_aborted f) (put_dead f) (put_ngh3 f)
                   bs len 0 q of
              None \<Rightarrow> None
            | Some (q', r) \<Rightarrow> Some (q', case r of AppQueued n \<Rightarrow> unat n | _ \<Rightarrow> 0))
      else Some (q, 0))"

definition response_get ::
  "nat \<Rightarrow> 'a h3_response_scheme \<Rightarrow> ('a h3_response_scheme \<times> byte list) option" where
  "response_get veccnt q =
     map_option (\<lambda>(q', r). (q', case r of RD_VECS vs eof \<Rightarrow> concat vs | _ \<Rightarrow> []))
       (h3_session_read_data veccnt q)"

fun response_control :: "response_ctl \<Rightarrow> 'a h3_response_scheme \<Rightarrow> 'a h3_response_scheme" where
  "response_control CtlCancel q = h3_stream_response_cancel_locked q"
| "response_control (CtlComplete dead ngh3) q = fst (h3_stream_response_complete dead ngh3 q)"
| "response_control CtlSubmitted q = q\<lparr>response_submitted := True\<rparr>"

text \<open>The response fields of a zeroed stream, with the limit \<open>track_stream\<close> gives it.\<close>

definition fresh_response :: "size_t \<Rightarrow> h3_response" where
  "fresh_response limit =
     \<lparr>response_cond = Some 0, response_heap = Map.empty, response_head = None, response_tail = None,
      response_submit_chunk = None, response_submit_offset = 0, response_buffered = 0,
      response_len = 0, response_buffer_limit = limit, response_submitted = False,
      response_complete = False, response_cancelled = False, response_progress_at = 0\<rparr>"

definition fresh_run :: "size_t \<Rightarrow> h3_response queue_run" where
  "fresh_run limit =
     \<lparr>qr_queue = fresh_response limit, qr_in = [], qr_out = [], qr_acked = 0\<rparr>"

definition run_spec :: "'q queue_run \<Rightarrow> resp_spec" where
  "run_spec r = \<lparr>spec_log = qr_in r, spec_submitted = length (qr_out r), spec_acked = qr_acked r\<rparr>"

definition run_ok :: "('q \<Rightarrow> resp_spec \<Rightarrow> bool) \<Rightarrow> 'q queue_run \<Rightarrow> bool" where
  "run_ok refines r \<longleftrightarrow>
     refines (qr_queue r) (run_spec r) \<and> qr_out r = take (length (qr_out r)) (qr_in r)"

section \<open>The pointer structure\<close>

lemma chunk_path_frame [queue_simps]:
  "x \<notin> fst ` set es \<Longrightarrow> chunk_path (h(x := v)) p es = chunk_path h p es"
  by (induction es arbitrary: p) (auto split: prod.splits)

lemma chunk_path_snoc:
  assumes "chunk_path h p (es @ [(t, c)])" and "x \<notin> fst ` set es" and "t \<notin> fst ` set es"
    and "x \<noteq> t" and "chunk_next new = None"
  shows "chunk_path (h(x \<mapsto> new, t \<mapsto> c\<lparr>chunk_next := Some x\<rparr>)) p
           (es @ [(t, c\<lparr>chunk_next := Some x\<rparr>), (x, new)])"
  using assms by (induction es arbitrary: p) auto

lemma chunk_path_append_last:
  "chunk_path h p (es @ [(t, c)]) \<Longrightarrow> h t = Some c \<and> chunk_next c = None"
  by (induction es arbitrary: p) auto

lemma chunk_path_nth:
  "chunk_path h p es \<Longrightarrow> i < length es \<Longrightarrow>
   h (fst (es ! i)) = Some (snd (es ! i)) \<and>
   chunk_next (snd (es ! i)) = (if Suc i < length es then Some (fst (es ! Suc i)) else None)"
proof (induction es arbitrary: p i)
  case (Cons e es)
  show ?case
  proof (cases i)
    case 0
    then show ?thesis using Cons.prems by (cases e; cases es) auto
  next
    case (Suc j)
    then show ?thesis using Cons by (cases e) auto
  qed
qed simp

lemma free_chunks_path:
  assumes "chunk_path h p es" and "distinct (map fst es)" and "dom h = set (map fst es)"
  shows "free_chunks h p = Some Map.empty"
  using assms
proof (induction es arbitrary: h p)
  case Nil
  then show ?case by (simp add: free_chunks.simps)
next
  case (Cons e es)
  obtain x c where e: "e = (x, c)" by (cases e)
  have "chunk_path (h(x := None)) (chunk_next c) es" and "distinct (map fst es)"
    and "dom (h(x := None)) = set (map fst es)"
    using Cons.prems by (auto simp: e chunk_path_frame)
  then have "free_chunks (h(x := None)) (chunk_next c) = Some Map.empty"
    by (rule Cons.IH)
  then show ?case using Cons.prems by (simp add: e free_chunks.simps)
qed

section \<open>Linking a chunk\<close>

lemma queue_rep_nonempty:
  "queue_rep q es n \<Longrightarrow> list_all (\<lambda>e. chunk_data (snd e) \<noteq> []) es"
  by (auto simp: queue_rep_def list_all_iff chunk_ok_def)

lemma queue_rep_bounded: "queue_rep q es n \<Longrightarrow> response_buffered q \<le> response_buffer_limit q"
  by (simp add: queue_rep_def)

lemma link_chunk_rep:
  assumes rep: "queue_rep q es n" and fresh: "response_heap q p = None"
    and new: "chunk_ok c" "chunk_acked c = 0" "chunk_next c = None"
    and room: "unat (response_buffered q) + unat (chunk_len c) \<le> unat (response_buffer_limit q)"
  shows "\<exists>q' es'. link_chunk p c q = Some q' \<and> queue_rep q' es' n \<and>
     map (\<lambda>e. unacked (snd e)) es' = map (\<lambda>e. unacked (snd e)) es @ [chunk_data c] \<and>
     map (\<lambda>e. chunk_data (snd e)) es' = map (\<lambda>e. chunk_data (snd e)) es @ [chunk_data c] \<and>
     response_len q' = response_len q + chunk_len c"
proof -
  note d = queue_rep_def link_chunk_def
  have pn: "p \<notin> fst ` set es"
    using rep fresh by (force simp: queue_rep_def dom_def)
  have buf: "unat (response_buffered q + chunk_len c) =
      unat (response_buffered q) + unat (chunk_len c)"
    using room unat_size_t_bound [of "response_buffer_limit q"]
    by (intro unat_plus_no_overflow) (simp del: unat_size_t_bound)
  have le: "response_buffered q + chunk_len c \<le> response_buffer_limit q"
    using room buf by (simp add: word_le_nat_alt)
  have ua: "unacked c = chunk_data c" "unat (chunk_len c) = length (chunk_data c)"
    using new by (simp_all add: unacked_def chunk_ok_def)
  show ?thesis
  proof (cases es rule: rev_cases)
    case Nil
    then show ?thesis
      using rep new buf le ua by (intro exI [of _ "the (link_chunk p c q)"] exI [of _ "[(p, c)]"])
        (auto simp: d)
  next
    case (snoc es0 e)
    obtain t tc where e: "e = (t, tc)" by (cases e)
    let ?es = "es0 @ [(t, tc\<lparr>chunk_next := Some p\<rparr>), (p, c)]"
    have t: "response_heap q t = Some tc" "response_tail q = Some t" "p \<noteq> t" "t \<notin> fst ` set es0"
      using rep pn chunk_path_append_last [of _ _ es0 t tc]
      by (auto simp: queue_rep_def snoc e)
    have path: "chunk_path ((response_heap q)(p \<mapsto> c, t \<mapsto> tc\<lparr>chunk_next := Some p\<rparr>))
        (response_head q) ?es"
      using rep pn t new by (intro chunk_path_snoc) (auto simp: queue_rep_def snoc e)
    have un: "unacked (tc\<lparr>chunk_next := Some p\<rparr>) = unacked tc"
      "chunk_ok (tc\<lparr>chunk_next := Some p\<rparr>) = chunk_ok tc"
      by (simp_all add: unacked_def chunk_ok_def)
    show ?thesis
      using rep new buf le ua t path pn un
      by (intro exI [of _ "the (link_chunk p c q)"] exI [of _ ?es])
        (auto simp: d snoc e nth_append less_Suc_eq tl_append split: list.splits)
  qed
qed

section \<open>Each operation implements the abstract queue\<close>

lemma queue_refines_flags [queue_simps]:
  "queue_refines (q\<lparr>response_cancelled := b\<rparr>) a = queue_refines q a"
  "queue_refines (q\<lparr>response_complete := b\<rparr>) a = queue_refines q a"
  "queue_refines (q\<lparr>response_submitted := b\<rparr>) a = queue_refines q a"
  "queue_refines (q\<lparr>response_cond := v\<rparr>) a = queue_refines q a"
  "queue_refines (q\<lparr>response_progress_at := t\<rparr>) a = queue_refines q a"
  "queue_refines (cond_broadcast q) a = queue_refines q a"
  by (simp_all add: queue_refines_def queue_rep_def cond_broadcast_def)

lemma queue_refines_cancel [queue_simps]:
  "queue_refines (h3_stream_response_cancel_locked q) a = queue_refines q a"
  by (simp add: h3_stream_response_cancel_locked_def Let_def queue_simps)

lemma append_chunk_len_bounds:
  "append_chunk_len room want \<le> room" "append_chunk_len room want \<le> want"
  "append_chunk_len room want \<le> STREAM_CHUNK_BYTES"
  by (auto simp: append_chunk_len_def Let_def)

lemma unat_SIZE_MAX_minus: "unat (SIZE_MAX - n) = 18446744073709551615 - unat n"
  by (simp add: SIZE_MAX_def unat_sub unsigned_minus_1_eq_mask mask_eq_exp_minus_1)

definition append_post ::
  "byte list \<Rightarrow> size_t \<Rightarrow> size_t \<Rightarrow> resp_spec \<Rightarrow> 'a h3_response_scheme \<Rightarrow>
   'a h3_response_scheme \<Rightarrow> append_result \<Rightarrow> bool" where
  "append_post data len offset a q q' r \<longleftrightarrow>
     (case r of
        AppWait \<Rightarrow> q' = q
      | AppReturn st \<Rightarrow> st \<noteq> APR_SUCCESS \<and> queue_refines q' a
      | AppQueued k \<Rightarrow>
          0 < k \<and> k \<le> STREAM_CHUNK_BYTES \<and> unat offset + unat k \<le> unat len \<and>
          queue_refines q' (spec_append (take (unat k) (drop (unat offset) data)) a))"

lemma link_chunk_refines:
  assumes r: "queue_refines q a" and fresh: "response_heap q p = None"
    and new: "chunk_ok c" "chunk_acked c = 0" "chunk_next c = None"
    and room: "chunk_len c \<le> response_buffer_limit q - response_buffered q"
    and len: "response_len q \<le> SIZE_MAX - chunk_len c"
  shows "\<exists>q'. link_chunk p c q = Some q' \<and> queue_refines q' (spec_append (chunk_data c) a)"
proof -
  obtain es n where rep: "queue_rep q es n" and le: "spec_acked a \<le> spec_submitted a"
    "spec_submitted a \<le> length (spec_log a)"
    and una: "drop (spec_acked a) (spec_log a) = concat (map (\<lambda>e. unacked (snd e)) es)"
    and uns: "drop (spec_submitted a) (spec_log a) = concat (map (\<lambda>e. chunk_data (snd e)) (drop n es))"
    and log: "length (spec_log a) = unat (response_len q)"
    using r by (auto simp: queue_refines_def)
  have "unat (response_buffered q) + unat (chunk_len c) \<le> unat (response_buffer_limit q)"
    using queue_rep_bounded [OF rep] room by (simp add: word_le_nat_alt unat_sub)
  then obtain q' es' where q': "link_chunk p c q = Some q'" "queue_rep q' es' n"
    and m: "map (\<lambda>e. unacked (snd e)) es' = map (\<lambda>e. unacked (snd e)) es @ [chunk_data c]"
      "map (\<lambda>e. chunk_data (snd e)) es' = map (\<lambda>e. chunk_data (snd e)) es @ [chunk_data c]"
    and rl: "response_len q' = response_len q + chunk_len c"
    using link_chunk_rep [OF rep fresh new] by blast
  have "n \<le> length es" using rep by (simp add: queue_rep_def)
  then have dm: "map (\<lambda>e. chunk_data (snd e)) (drop n es') = map (\<lambda>e. chunk_data (snd e)) (drop n es) @ [chunk_data c]"
    using m(2) by (simp add: drop_map [symmetric])
  have "unat (response_len q + chunk_len c) = unat (response_len q) + unat (chunk_len c)"
    using len unat_SIZE_MAX_minus [of "chunk_len c"] unat_size_t_bound [of "chunk_len c"]
    by (intro unat_plus_no_overflow) (simp add: word_le_nat_alt del: unat_size_t_bound)
  then show ?thesis
    using q' le una uns log m dm rl new
    by (auto simp: queue_refines_def spec_append_def chunk_ok_def intro!: exI [of _ es'] exI [of _ n])
qed

lemma append_section_refines:
  assumes r: "queue_refines q a" and mal: "malloc_fresh malloc"
    and len: "unat len \<le> length data" and off: "offset < len"
  shows "\<exists>q' r. response_append_section malloc aborted dead ngh3 data len offset q = Some (q', r) \<and>
     append_post data len offset a q q' r"
proof -
  define n where "n = append_chunk_len (response_buffer_limit q - response_buffered q) (len - offset)"
  define c where "c = \<lparr>chunk_next = None, chunk_len = n, chunk_acked = 0,
      chunk_data = take (unat n) (drop (unat offset) data)\<rparr>"
  have "n \<le> len - offset" "n \<le> response_buffer_limit q - response_buffered q" "n \<le> STREAM_CHUNK_BYTES"
    by (simp_all add: n_def append_chunk_len_bounds)
  then have nb: "unat offset + unat n \<le> unat len" "n \<le> response_buffer_limit q - response_buffered q"
      "n \<le> STREAM_CHUNK_BYTES"
    using off by (simp_all add: word_le_nat_alt word_less_nat_alt unat_sub)
  show ?thesis
  proof (cases "\<exists>p. malloc (response_heap q) n = Some p \<and> n \<noteq> 0 \<and> response_len q \<le> SIZE_MAX - n")
    case True
    then obtain p where p: "malloc (response_heap q) n = Some p" "n \<noteq> 0" "response_len q \<le> SIZE_MAX - n"
      by blast
    have "chunk_ok c"
      using nb len p(2) by (auto simp: c_def chunk_ok_def unat_gt_0)
    then obtain q' where "link_chunk p c q = Some q'" "queue_refines q' (spec_append (chunk_data c) a)"
      using link_chunk_refines [OF r, of p c] p mal nb by (auto simp: c_def malloc_fresh_def)
    then show ?thesis
      using r p nb
      by (auto simp: response_append_section_def append_post_def Let_def n_def [symmetric]
          c_def [symmetric] word_neq_0_conv) (simp add: c_def)
  next
    case False
    then show ?thesis
      using r by (auto simp: response_append_section_def append_post_def Let_def n_def [symmetric]
          queue_simps not_le split: option.splits)
  qed
qed

section \<open>Acknowledgement\<close>

lemma queue_rep_Cons_D:
  assumes "queue_rep q ((p, c) # es) n"
  shows "response_head q = Some p" "response_heap q p = Some c" "chunk_ok c"
    "unat (chunk_len c - chunk_acked c) = unat (chunk_len c) - unat (chunk_acked c)"
    "length (unacked c) = unat (chunk_len c) - unat (chunk_acked c)"
    "p \<notin> fst ` set es"
  using assms by (auto simp: queue_rep_def chunk_ok_def unacked_def unat_sub word_le_nat_alt)

lemma ack_chunk_partial:
  assumes rep: "queue_rep q ((p, c) # es) (Suc n)" and lt: "k < chunk_len c - chunk_acked c"
  shows "\<exists>c'. queue_rep (ack_chunk now k p c q) ((p, c') # es) (Suc n) \<and> unacked c' = drop (unat k) (unacked c)"
proof -
  note h = queue_rep_Cons_D [OF rep]
  have k: "unat k < unat (chunk_len c) - unat (chunk_acked c)"
    using lt h by (simp add: word_less_nat_alt)
  have ack: "unat (chunk_acked c + k) = unat (chunk_acked c) + unat k"
    using k unat_size_t_bound [of "chunk_len c"]
    by (intro unat_plus_no_overflow) (simp add: less_diff_conv del: unat_size_t_bound)
  have ne: "chunk_acked c + k \<noteq> chunk_len c"
    using ack k by auto
  have "unat k \<le> unat (response_buffered q)"
    using rep k h by (simp add: queue_rep_def)
  then have buf: "unat (response_buffered q - k) = unat (response_buffered q) - unat k"
    by (simp add: unat_sub word_le_nat_alt)
  show ?thesis
    using rep h k ack ne buf
    by (intro exI [of _ "c\<lparr>chunk_acked := chunk_acked c + k\<rparr>"])
      (auto simp: queue_rep_def ack_chunk_def Let_def chunk_path_frame chunk_ok_def unacked_def
        word_le_nat_alt add.commute)
qed

lemma ack_chunk_all:
  assumes rep: "queue_rep q ((p, c) # es) (Suc n)"
  shows "queue_rep (ack_chunk now (chunk_len c - chunk_acked c) p c q) es n"
proof -
  note h = queue_rep_Cons_D [OF rep]
  have "unat (chunk_len c - chunk_acked c) \<le> unat (response_buffered q)"
    using rep h by (simp add: queue_rep_def)
  then have buf: "unat (response_buffered q - (chunk_len c - chunk_acked c)) =
      unat (response_buffered q) - length (unacked c)"
    using h by (simp only: unat_sub word_le_nat_alt)
  show ?thesis
    using rep h buf
    by (cases es) (auto simp: queue_rep_def ack_chunk_def Let_def chunk_path_frame
        word_le_nat_alt)
qed

definition ack_frame :: "'a h3_response_scheme \<Rightarrow> 'a h3_response_scheme \<Rightarrow> bool" where
  "ack_frame q q' \<longleftrightarrow>
     response_len q' = response_len q \<and> response_buffer_limit q' = response_buffer_limit q \<and>
     response_submit_chunk q' = response_submit_chunk q \<and>
     response_submitted q' = response_submitted q \<and> response_complete q' = response_complete q \<and>
     response_cancelled q' = response_cancelled q"

lemma ack_frame_chunk: "ack_frame (ack_chunk now k p c q) q' = ack_frame q q'"
  by (simp add: ack_frame_def ack_chunk_def Let_def)

lemma ack_frame_refl [simp]: "ack_frame q q"
  by (simp add: ack_frame_def)

lemma ack_loop_0 [simp]: "ack_loop now 0 released q = Some (q, released)"
  by (simp add: ack_loop.simps)

lemma ack_loop_rep:
  assumes "queue_rep q es n" and "unat k \<le> length (concat (map (\<lambda>e. unacked (snd e)) (take n es)))"
  shows "\<exists>q' es' n'. ack_loop now k released q = Some (q', released \<or> k > 0) \<and> queue_rep q' es' n' \<and>
     concat (map (\<lambda>e. unacked (snd e)) es') = drop (unat k) (concat (map (\<lambda>e. unacked (snd e)) es)) \<and>
     drop n' es' = drop n es \<and> ack_frame q q'"
  using assms
proof (induction es arbitrary: q n k released)
  case Nil
  then have "k = 0" by (simp add: unat_eq_zero)
  then show ?case using Nil by (auto intro!: exI [of _ q] exI [of _ "[]"] exI [of _ n])
next
  case (Cons e es)
  obtain p c where e: "e = (p, c)" by (cases e)
  show ?case
  proof (cases "k = 0")
    case True
    then show ?thesis using Cons.prems by (auto intro!: exI [of _ q] exI [of _ "e # es"] exI [of _ n])
  next
    case False
    then obtain m where n: "n = Suc m" using Cons.prems(2) by (cases n) (auto simp: unat_eq_zero)
    have rep: "queue_rep q ((p, c) # es) (Suc m)" using Cons.prems(1) by (simp add: e n)
    note h = queue_rep_Cons_D [OF rep]
    let ?av = "chunk_len c - chunk_acked c"
    have k0: "k > 0" using False by (simp add: word_neq_0_conv)
    show ?thesis
    proof (cases "k < ?av")
      case True
      then obtain c' where c': "queue_rep (ack_chunk now k p c q) ((p, c') # es) (Suc m)"
          "unacked c' = drop (unat k) (unacked c)"
        using ack_chunk_partial [OF rep] by blast
      have "unat k \<le> length (unacked c)" using True h by (simp add: word_less_nat_alt)
      then show ?thesis
        using c' True h k0 by (subst ack_loop.simps)
          (auto simp: e n ack_frame_chunk intro!: exI [of _ "(p, c') # es"] exI [of _ "Suc m"],
           simp add: ack_frame_def ack_chunk_def Let_def)
    next
      case False
      let ?q = "ack_chunk now ?av p c q"
      have k': "unat (k - ?av) = unat k - length (unacked c)"
        using False h by (simp add: unat_sub not_less)
      have "unat (k - ?av) \<le> length (concat (map (\<lambda>e. unacked (snd e)) (take m es)))"
        using Cons.prems(2) by (simp add: k' e n)
      from Cons.IH [OF ack_chunk_all [OF rep, of now] this, of True]
      obtain q' es' n' where i: "ack_loop now (k - ?av) True ?q = Some (q', True)" "queue_rep q' es' n'"
        "concat (map (\<lambda>e. unacked (snd e)) es') = drop (unat (k - ?av)) (concat (map (\<lambda>e. unacked (snd e)) es))"
        "drop n' es' = drop m es" "ack_frame ?q q'" by auto
      have "length (unacked c) \<le> unat k" using False h by (simp add: word_less_nat_alt)
      then show ?thesis
        using i False h k0 k' by (subst ack_loop.simps)
          (auto simp: e n ack_frame_chunk intro!: exI [of _ es'] exI [of _ n'])
    qed
  qed
qed

lemma unacked_take_submitted:
  assumes rep: "queue_rep q es n"
    and una: "drop (spec_acked a) (spec_log a) = concat (map (\<lambda>e. unacked (snd e)) es)"
    and uns: "drop (spec_submitted a) (spec_log a) = concat (map (\<lambda>e. chunk_data (snd e)) (drop n es))"
    and le: "spec_acked a \<le> spec_submitted a" "spec_submitted a \<le> length (spec_log a)"
  shows "length (concat (map (\<lambda>e. unacked (snd e)) (take n es))) = spec_submitted a - spec_acked a"
proof -
  have zero: "\<forall>e\<in>set (drop n es). chunk_acked (snd e) = 0"
  proof (cases n)
    case 0
    then show ?thesis using rep by (simp add: queue_rep_def list_all_iff)
  next
    case (Suc m)
    then have "set (drop n es) \<subseteq> set (tl es)" by (simp add: drop_Suc set_drop_subset)
    then show ?thesis using rep Suc by (auto simp: queue_rep_def list_all_iff)
  qed
  then have "map (\<lambda>e. unacked (snd e)) (drop n es) = map (\<lambda>e. chunk_data (snd e)) (drop n es)"
    by (simp add: unacked_def cong: map_cong)
  moreover have "concat (map (\<lambda>e. unacked (snd e)) es) =
      concat (map (\<lambda>e. unacked (snd e)) (take n es)) @ concat (map (\<lambda>e. unacked (snd e)) (drop n es))"
    by (metis append_take_drop_id concat_append map_append)
  ultimately have "length (drop (spec_acked a) (spec_log a)) =
      length (concat (map (\<lambda>e. unacked (snd e)) (take n es))) + length (drop (spec_submitted a) (spec_log a))"
    by (simp only: una uns length_append)
  then show ?thesis using le by simp
qed

lemma ack_refines:
  assumes r: "queue_refines q a" and k: "spec_acked a + unat k \<le> spec_submitted a"
  shows "\<exists>q'. h3_stream_response_ack_locked now k q = Some q' \<and>
     queue_refines q' (spec_ack (unat k) a) \<and> ack_frame q q'"
proof -
  obtain es n where rep: "queue_rep q es n" and le: "spec_acked a \<le> spec_submitted a"
    "spec_submitted a \<le> length (spec_log a)"
    and una: "drop (spec_acked a) (spec_log a) = concat (map (\<lambda>e. unacked (snd e)) es)"
    and uns: "drop (spec_submitted a) (spec_log a) = concat (map (\<lambda>e. chunk_data (snd e)) (drop n es))"
    and log: "length (spec_log a) = unat (response_len q)"
    using r by (auto simp: queue_refines_def)
  have "unat k \<le> length (concat (map (\<lambda>e. unacked (snd e)) (take n es)))"
    using k unacked_take_submitted [OF rep una uns le] by simp
  from ack_loop_rep [OF rep this, of now False]
  obtain q' es' n' where a: "ack_loop now k False q = Some (q', k > 0)" "queue_rep q' es' n'"
    "concat (map (\<lambda>e. unacked (snd e)) es') = drop (unat k) (concat (map (\<lambda>e. unacked (snd e)) es))"
    "drop n' es' = drop n es" "ack_frame q q'" by auto
  have "drop (spec_acked a + unat k) (spec_log a) = drop (unat k) (drop (spec_acked a) (spec_log a))"
    by (simp add: add.commute)
  then have "queue_refines q' (spec_ack (unat k) a)"
    unfolding queue_refines_def spec_ack_def
    using a le una uns log k
    by (intro exI [of _ es'] exI [of _ n']) (simp add: ack_frame_def)
  then show ?thesis
    using a by (auto simp: h3_stream_response_ack_locked_def queue_simps)
      (simp add: ack_frame_def cond_broadcast_def)
qed

section \<open>Handing bytes to nghttp3\<close>

lemma queue_rep_submit:
  assumes rep: "queue_rep q es n" and n: "n < length es"
  shows "response_submit_chunk q = Some (fst (es ! n))"
    "response_heap q (fst (es ! n)) = Some (snd (es ! n))"
    "queue_rep (q\<lparr>response_submit_chunk := chunk_next (snd (es ! n)), response_submit_offset := 0\<rparr>) es (Suc n)"
    "take (unat (chunk_len (snd (es ! n)))) (chunk_data (snd (es ! n))) = chunk_data (snd (es ! n))"
    "response_submit_offset q = 0"
proof -
  have path: "chunk_path (response_heap q) (response_head q) es" using rep by (simp add: queue_rep_def)
  note nth = chunk_path_nth [OF path n]
  have "list_all (\<lambda>e. chunk_acked (snd e) = 0) (tl es)"
    using rep by (cases es; cases n) (auto simp: queue_rep_def)
  then show "queue_rep (q\<lparr>response_submit_chunk := chunk_next (snd (es ! n)), response_submit_offset := 0\<rparr>)
      es (Suc n)"
    using rep n nth by (simp add: queue_rep_def)
  show "take (unat (chunk_len (snd (es ! n)))) (chunk_data (snd (es ! n))) = chunk_data (snd (es ! n))"
    using rep n by (simp add: queue_rep_def list_all_length chunk_ok_def)
qed (use rep n chunk_path_nth in \<open>auto simp: queue_rep_def\<close>)

lemma read_loop_rep:
  assumes "queue_rep q es n"
  shows "\<exists>q'. read_loop room q = Some (q', map (\<lambda>e. chunk_data (snd e)) (take room (drop n es))) \<and>
     queue_rep q' es (min (length es) (n + room)) \<and>
     (\<exists>s. q' = q\<lparr>response_submit_chunk := s, response_submit_offset := 0\<rparr>)"
  using assms
proof (induction room arbitrary: q n)
  case 0
  then have "n \<le> length es" "response_submit_offset q = 0" by (auto simp: queue_rep_def)
  then show ?case using 0 by (auto simp: min_absorb2 intro!: exI [of _ "response_submit_chunk q"])
next
  case (Suc room)
  show ?case
  proof (cases "n < length es")
    case True
    note s = queue_rep_submit [OF Suc.prems True]
    from Suc.IH [OF s(3)] show ?thesis
      using s True by (auto simp: Let_def Cons_nth_drop_Suc [symmetric])
  next
    case False
    then have "n = length es" "response_submit_offset q = 0" "response_submit_chunk q = None"
      using Suc.prems by (auto simp: queue_rep_def)
    then show ?thesis using Suc.prems by (auto intro!: exI [of _ None])
  qed
qed

lemma spec_read_0 [simp]: "spec_read 0 a = a"
  by (simp add: spec_read_def)

definition read_post ::
  "nat \<Rightarrow> resp_spec \<Rightarrow> 'a h3_response_scheme \<Rightarrow> 'a h3_response_scheme \<Rightarrow> read_data_result \<Rightarrow> bool" where
  "read_post veccnt a q q' r \<longleftrightarrow>
     (case r of
        RD_CALLBACK_FAILURE \<Rightarrow> False
      | RD_WOULDBLOCK \<Rightarrow>
          \<not> response_complete q \<and> spec_submitted a = length (spec_log a) \<and> queue_refines q' a
      | RD_VECS vs eof \<Rightarrow>
          length vs \<le> veccnt \<and>
          concat vs = take (length (concat vs)) (drop (spec_submitted a) (spec_log a)) \<and>
          (eof \<longleftrightarrow> response_complete q \<and>
             spec_submitted a + length (concat vs) = length (spec_log a)) \<and>
          (vs = [] \<longrightarrow> eof) \<and> list_all (\<lambda>v. v \<noteq> []) vs \<and>
          queue_refines q' (spec_read (length (concat vs)) a))"

lemma concat_eq_Nil_nonempty:
  "list_all (\<lambda>e. f e \<noteq> []) es \<Longrightarrow> concat (map f es) = [] \<longleftrightarrow> es = []"
  by (cases es) auto

lemma read_refines:
  assumes r: "queue_refines q a" and v: "veccnt > 0" and nc: "\<not> response_cancelled q"
  shows "\<exists>q' r. h3_session_read_data veccnt q = Some (q', r) \<and> read_post veccnt a q q' r"
proof -
  obtain es n where rep: "queue_rep q es n" and le: "spec_acked a \<le> spec_submitted a"
    "spec_submitted a \<le> length (spec_log a)"
    and una: "drop (spec_acked a) (spec_log a) = concat (map (\<lambda>e. unacked (snd e)) es)"
    and uns: "drop (spec_submitted a) (spec_log a) = concat (map (\<lambda>e. chunk_data (snd e)) (drop n es))"
    and log: "length (spec_log a) = unat (response_len q)"
    using r by (auto simp: queue_refines_def)
  let ?vs = "map (\<lambda>e. chunk_data (snd e)) (take veccnt (drop n es))"
  let ?rest = "concat (map (\<lambda>e. chunk_data (snd e)) (drop (n + veccnt) es))"
  define q' where "q' = fst (the (read_loop veccnt q))"
  have q': "read_loop veccnt q = Some (q', ?vs)" "queue_rep q' es (min (length es) (n + veccnt))"
    "response_complete q' = response_complete q" "response_len q' = response_len q"
    using read_loop_rep [OF rep, of veccnt] by (auto simp: q'_def)
  have split: "drop (spec_submitted a) (spec_log a) = concat ?vs @ ?rest"
    by (metis uns append_take_drop_id concat_append drop_drop add.commute map_append)
  have ne: "list_all (\<lambda>e. chunk_data (snd e) \<noteq> []) (drop k es)" for k
    using queue_rep_nonempty [OF rep] by (auto simp: list_all_iff dest: in_set_dropD)
  have nev: "list_all (\<lambda>v. v \<noteq> []) ?vs"
    using ne [of n] by (auto simp: list_all_iff dest: in_set_takeD)
  have rest: "?rest = [] \<longleftrightarrow> response_submit_chunk q' = None"
    using q'(2) concat_eq_Nil_nonempty [OF ne] by (auto simp: queue_rep_def)
  have vs0: "?vs = [] \<longleftrightarrow> spec_submitted a = length (spec_log a)"
  proof -
    have "?vs = [] \<longleftrightarrow> drop n es = []" using v by simp
    also have "\<dots> \<longleftrightarrow> drop (spec_submitted a) (spec_log a) = []"
      by (simp only: uns concat_eq_Nil_nonempty [OF ne])
    finally show ?thesis using le by auto
  qed
  have len: "length (spec_log a) = spec_submitted a + length (concat ?vs) + length ?rest"
    using arg_cong [OF split, of length] le by simp
  have "drop (spec_submitted a + length (concat ?vs)) (spec_log a) =
      drop (length (concat ?vs)) (drop (spec_submitted a) (spec_log a))"
    by (simp add: add.commute)
  then have dr: "drop (spec_submitted a + length (concat ?vs)) (spec_log a) = ?rest"
    by (simp only: split append_eq_conv_conj) simp
  have "drop (min (length es) (n + veccnt)) es = drop (n + veccnt) es" by (simp add: min_def)
  then have ref: "queue_refines q' (spec_read (length (concat ?vs)) a)"
    unfolding queue_refines_def spec_read_def
    using q' le una dr len log by (intro exI [of _ es] exI [of _ "min (length es) (n + veccnt)"]) simp
  have fifo: "concat ?vs = take (length (concat ?vs)) (drop (spec_submitted a) (spec_log a))"
    by (simp only: split) simp
  show ?thesis
  proof (cases "?vs = []")
    case True
    then show ?thesis
      using q' v nc ref vs0 le
      by (simp only: h3_session_read_data_def) (simp add: read_post_def)
  next
    case False
    have "read_post veccnt a q q' (RD_VECS ?vs (response_submit_chunk q' = None \<and> response_complete q'))"
      using False nev fifo ref rest len q'(3) by (simp only: read_post_def read_data_result.case) auto
    then show ?thesis
      using q'(1) v nc False by (simp only: h3_session_read_data_def) simp
  qed
qed

section \<open>Release\<close>

lemma cleanup_frees_all:
  assumes "queue_refines q a"
  shows "h3_stream_response_cleanup_locked q =
    Some (q\<lparr>response_heap := Map.empty, response_head := None, response_tail := None,
            response_submit_chunk := None, response_submit_offset := 0, response_buffered := 0\<rparr>)"
  using assms free_chunks_path
  by (auto simp: queue_refines_def queue_rep_def h3_stream_response_cleanup_locked_def)

section \<open>The producer call under interference\<close>

text \<open>
  What the rest of the program may do to the queue while the producer does not hold the lock:
  hand out, acknowledge and cancel, but never queue bytes (one worker owns the producing end).
\<close>

definition others_ok ::
  "(nat \<Rightarrow> ('w, 'a h3_response_scheme) resp_shared \<Rightarrow> ('w, 'a h3_response_scheme) resp_shared) \<Rightarrow> bool" where
  "others_ok others \<longleftrightarrow>
     (\<forall>k s a. queue_refines (rs_stream s) a \<longrightarrow>
        (\<exists>a'. queue_refines (rs_stream (others k s)) a' \<and> spec_log a' = spec_log a))"

lemma append_loop_step:
  assumes "offset < len"
    and "response_append_section malloc (rs_aborted s) (rs_ngh3_dead s) (rs_ngh3 s) data len offset
           (rs_stream s) = Some (q, r)"
  shows "append_loop malloc resume wake others waits data len k offset s =
     (case r of
        AppWait \<Rightarrow>
          (if waits k \<noteq> APR_SUCCESS \<and> waits k \<noteq> APR_TIMEUP then Some (others k s, waits k)
           else append_loop malloc resume wake others waits data len (Suc k) offset (others k s))
      | AppReturn st \<Rightarrow> Some (s\<lparr>rs_stream := q\<rparr>, st)
      | AppQueued n \<Rightarrow>
          append_loop malloc resume wake others waits data len (Suc k) (offset + n)
            (others k (s\<lparr>rs_stream := q,
               rs_world := wake (if response_submitted q then resume (rs_world s) else rs_world s)\<rparr>)))"
  using assms by (subst append_loop.simps) (simp split: append_result.splits)

definition append_done :: "byte list \<Rightarrow> size_t \<Rightarrow> size_t \<Rightarrow> resp_spec \<Rightarrow> resp_spec \<Rightarrow> apr_status_t \<Rightarrow> bool" where
  "append_done data len offset a a' st \<longleftrightarrow>
     (\<exists>m. unat offset + m \<le> unat len \<and> spec_log a' = spec_log a @ take m (drop (unat offset) data) \<and>
        (st = APR_SUCCESS \<longrightarrow> m = unat len - unat offset))"

lemma append_done_0: "st \<noteq> APR_SUCCESS \<Longrightarrow> offset < len \<Longrightarrow> append_done data len offset a a st"
  by (auto simp: append_done_def word_less_nat_alt intro!: exI [of _ 0])

lemma append_done_log: "spec_log b = spec_log a \<Longrightarrow> append_done data len offset b a' st = append_done data len offset a a' st"
  by (simp add: append_done_def)

lemma append_done_chunk:
  assumes "append_done data len (offset + n) (spec_append (take (unat n) (drop (unat offset) data)) a) a' st"
    and "unat offset + unat n \<le> unat len"
  shows "append_done data len offset a a' st"
proof -
  have o: "unat (offset + n) = unat offset + unat n"
    using assms(2) unat_size_t_bound [of len]
    by (intro unat_plus_no_overflow) (simp del: unat_size_t_bound)
  have dd: "drop (unat n) (drop (unat offset) data) = drop (unat offset + unat n) data"
    by (simp add: add.commute)
  obtain m where m: "unat offset + unat n + m \<le> unat len"
    "spec_log a' = spec_log a @ take (unat n) (drop (unat offset) data) @
       take m (drop (unat n) (drop (unat offset) data))"
    "st = APR_SUCCESS \<longrightarrow> m = unat len - (unat offset + unat n)"
    using assms(1) unfolding append_done_def o dd by (auto simp: spec_append_def)
  have "spec_log a' = spec_log a @ take (unat n + m) (drop (unat offset) data)"
    by (simp only: m(2) take_add)
  moreover have "unat offset + (unat n + m) \<le> unat len"
    and "st = APR_SUCCESS \<longrightarrow> unat n + m = unat len - unat offset"
    using m assms(2) by auto
  ultimately show ?thesis unfolding append_done_def by blast
qed

definition queue_full :: "('w, 'a h3_response_scheme) resp_shared \<Rightarrow> bool" where
  "queue_full s \<longleftrightarrow>
     response_buffered (rs_stream s) \<ge> response_buffer_limit (rs_stream s) \<and>
     \<not> response_cancelled (rs_stream s) \<and> \<not> rs_aborted s \<and> \<not> rs_ngh3_dead s"

text \<open>From its \<open>K\<close>-th turn on, the consumer leaves room, or cancels or ends the session.\<close>

definition eventually_room ::
  "nat \<Rightarrow> (nat \<Rightarrow> ('w, 'a h3_response_scheme) resp_shared \<Rightarrow> ('w, 'a h3_response_scheme) resp_shared) \<Rightarrow> bool" where
  "eventually_room K others \<longleftrightarrow> (\<forall>k\<ge>K. \<forall>s. \<not> queue_full (others k s))"

lemma append_section_wait_iff:
  "response_append_section malloc (rs_aborted s) (rs_ngh3_dead s) (rs_ngh3 s) data len offset (rs_stream s)
     = Some (q, AppWait) \<longleftrightarrow> queue_full s \<and> q = rs_stream s"
  by (auto simp: response_append_section_def queue_full_def Let_def split: option.splits if_splits)

lemma append_loop_correct:
  assumes ok: "others_ok others" and mal: "malloc_fresh malloc" and room: "eventually_room K others"
    and len: "unat len \<le> length data"
  shows "queue_refines (rs_stream s) a \<Longrightarrow> offset \<le> len \<Longrightarrow> (k > K \<Longrightarrow> \<not> queue_full s) \<Longrightarrow>
    \<exists>s' st a'. append_loop malloc resume wake others waits data len k offset s = Some (s', st) \<and>
      queue_refines (rs_stream s') a' \<and> append_done data len offset a a' st"
proof (induction "(Suc K - k) + (unat len - unat offset)" arbitrary: k offset s a rule: less_induct)
  case less
  show ?case
  proof (cases "offset < len")
    case False
    then have "offset = len" using less.prems(2) by simp
    then show ?thesis
      using less.prems(1) by (subst append_loop.simps) (auto simp: append_done_def)
  next
    case True
    obtain q r where sec: "response_append_section malloc (rs_aborted s) (rs_ngh3_dead s) (rs_ngh3 s)
        data len offset (rs_stream s) = Some (q, r)" and post: "append_post data len offset a (rs_stream s) q r"
      using append_section_refines [OF less.prems(1) mal len True] by blast
    note step = append_loop_step [OF True sec]
    have nf: "Suc k > K \<Longrightarrow> \<not> queue_full (others k s')" for s'
      using room by (simp add: eventually_room_def)
    show ?thesis
    proof (cases r)
      case AppWait
      then have full: "queue_full s" using sec append_section_wait_iff by blast
      then have k: "k \<le> K" using less.prems(3) by force
      obtain b where b: "queue_refines (rs_stream (others k s)) b" "spec_log b = spec_log a"
        using ok less.prems(1) unfolding others_ok_def by blast
      have dec: "(Suc K - Suc k) + (unat len - unat offset) < (Suc K - k) + (unat len - unat offset)"
        using k by simp
      show ?thesis
        using less.hyps [OF dec b(1) less.prems(2) nf] b append_done_0 [OF _ True]
        by (auto simp: step AppWait append_done_log [OF b(2)])
          (metis append_done_log b(1) b(2) append_done_0 True)+
    next
      case (AppReturn st)
      then show ?thesis using post append_done_0 [OF _ True] by (auto simp: step append_post_def)
    next
      case (AppQueued n)
      let ?s = "s\<lparr>rs_stream := q,
               rs_world := wake (if response_submitted q then resume (rs_world s) else rs_world s)\<rparr>"
      let ?a = "spec_append (take (unat n) (drop (unat offset) data)) a"
      have n: "0 < n" "unat offset + unat n \<le> unat len" "queue_refines (rs_stream ?s) ?a"
        using post by (auto simp: AppQueued append_post_def)
      have o: "unat (offset + n) = unat offset + unat n"
        using n(2) unat_size_t_bound [of len] by (intro unat_plus_no_overflow) (simp del: unat_size_t_bound)
      obtain b where b: "queue_refines (rs_stream (others k ?s)) b" "spec_log b = spec_log ?a"
        using ok n(3) unfolding others_ok_def by blast
      have dec: "(Suc K - Suc k) + (unat len - unat (offset + n)) < (Suc K - k) + (unat len - unat offset)"
        using n o by (auto simp: word_less_nat_alt)
      have le: "offset + n \<le> len" using n(2) o by (simp add: word_le_nat_alt)
      obtain s' st a' where "append_loop malloc resume wake others waits data len (Suc k) (offset + n)
          (others k ?s) = Some (s', st)" "queue_refines (rs_stream s') a'"
          "append_done data len (offset + n) ?a a' st"
        using less.hyps [OF dec b(1) le nf] by (auto simp: append_done_log [OF b(2)])
      then show ?thesis
        using append_done_chunk [OF _ n(2)] by (auto simp: step AppQueued)
    qed
  qed
qed

section \<open>The contract of the queue\<close>

locale byte_queue =
  fixes refines :: "'q \<Rightarrow> resp_spec \<Rightarrow> bool"
    and put :: "'f \<Rightarrow> byte list \<Rightarrow> 'q \<Rightarrow> ('q \<times> nat) option"
    and get :: "nat \<Rightarrow> 'q \<Rightarrow> ('q \<times> byte list) option"
    and ack :: "uint64_t \<Rightarrow> 'q \<Rightarrow> 'q option"
    and ctl :: "'c \<Rightarrow> 'q \<Rightarrow> 'q"
    and put_ok :: "'f \<Rightarrow> bool"
  assumes put_law: "refines q a \<Longrightarrow> put_ok f \<Longrightarrow>
      \<exists>q' n. put f bs q = Some (q', n) \<and> refines q' (spec_append (take n bs) a)"
    and get_law: "refines q a \<Longrightarrow>
      \<exists>q' bs. get n q = Some (q', bs) \<and> refines q' (spec_read (length bs) a) \<and>
        bs = take (length bs) (drop (spec_submitted a) (spec_log a))"
    and ack_law: "refines q a \<Longrightarrow> spec_acked a + unat k \<le> spec_submitted a \<Longrightarrow>
      \<exists>q'. ack k q = Some q' \<and> refines q' (spec_ack (unat k) a)"
    and ctl_law: "refines q a \<Longrightarrow> refines (ctl d q) a"
    and positions: "refines q a \<Longrightarrow> spec_submitted a \<le> length (spec_log a)"
begin

lemma put_run:
  assumes "run_ok refines r" and "put_ok f"
  shows "\<exists>q n. put f bs (qr_queue r) = Some (q, n) \<and>
    run_ok refines (r\<lparr>qr_queue := q, qr_in := qr_in r @ take n bs\<rparr>)"
proof -
  have ref: "refines (qr_queue r) (run_spec r)" and out: "qr_out r = take (length (qr_out r)) (qr_in r)"
    using assms(1) by (auto simp: run_ok_def)
  have "length (qr_out r) \<le> length (qr_in r)" using positions [OF ref] by (simp add: run_spec_def)
  then show ?thesis
    using put_law [OF ref assms(2), of bs] out by (auto simp: run_ok_def run_spec_def spec_append_def)
qed

lemma get_run:
  assumes "run_ok refines r"
  shows "\<exists>q bs. get n (qr_queue r) = Some (q, bs) \<and>
    run_ok refines (r\<lparr>qr_queue := q, qr_out := qr_out r @ bs\<rparr>)"
proof -
  have ref: "refines (qr_queue r) (run_spec r)" and out: "qr_out r = take (length (qr_out r)) (qr_in r)"
    using assms by (auto simp: run_ok_def)
  obtain q bs where q: "get n (qr_queue r) = Some (q, bs)" "refines q (spec_read (length bs) (run_spec r))"
      "bs = take (length bs) (drop (length (qr_out r)) (qr_in r))"
    using get_law [OF ref, of n] by (auto simp: run_spec_def)
  have "qr_out r @ bs = take (length (qr_out r)) (qr_in r) @ take (length bs) (drop (length (qr_out r)) (qr_in r))"
    using out q(3) by simp
  also have "\<dots> = take (length (qr_out r) + length bs) (qr_in r)" by (simp only: take_add)
  finally show ?thesis using q by (simp add: run_ok_def run_spec_def spec_read_def)
qed

lemma ack_run:
  assumes "run_ok refines r" and "qr_acked r + unat k \<le> length (qr_out r)"
  shows "\<exists>q. ack k (qr_queue r) = Some q \<and>
    run_ok refines (r\<lparr>qr_queue := q, qr_acked := qr_acked r + unat k\<rparr>)"
  using assms ack_law [of "qr_queue r" "run_spec r" k]
  by (auto simp: run_ok_def run_spec_def spec_ack_def)

lemma ctl_run: "run_ok refines r \<Longrightarrow> run_ok refines (r\<lparr>qr_queue := ctl d (qr_queue r)\<rparr>)"
  by (simp add: run_ok_def run_spec_def ctl_law)

theorem run_in_order:
  assumes "run_ok refines r" and "list_all (op_ok put_ok) ops"
  shows "run_ops put get ack ctl ops r \<noteq> Faulted \<and>
    (\<forall>r'. run_ops put get ack ctl ops r = Ran r' \<longrightarrow> run_ok refines r')"
  using assms
proof (induction ops arbitrary: r)
  case (Cons op ops)
  note r = Cons.prems(1) and ops = Cons.prems(2)
  show ?case
  proof (cases op)
    case (OpPut f bs)
    then show ?thesis using Cons.IH put_run [OF r, of f bs] ops by auto
  next
    case (OpGet n)
    then show ?thesis using Cons.IH get_run [OF r, of n] ops by auto
  next
    case (OpAck k)
    then show ?thesis using Cons.IH ack_run [OF r, of k] ops by auto
  next
    case (OpCtl d)
    then show ?thesis using Cons.IH ctl_run [OF r] ops by auto
  qed
qed simp

end

text \<open>The response queue, with a fixed limit, keeps the contract.\<close>

definition limited_refines :: "size_t \<Rightarrow> 'a h3_response_scheme \<Rightarrow> resp_spec \<Rightarrow> bool" where
  "limited_refines limit q a \<longleftrightarrow> queue_refines q a \<and> response_buffer_limit q = limit"

lemma link_chunk_limit:
  "link_chunk p c q = Some q' \<Longrightarrow> response_buffer_limit q' = response_buffer_limit q"
  by (auto simp: link_chunk_def Let_def split: option.splits)

lemma cancel_limit [simp]:
  "response_buffer_limit (h3_stream_response_cancel_locked q) = response_buffer_limit q"
  by (simp add: h3_stream_response_cancel_locked_def cond_broadcast_def Let_def)

lemma append_section_limit:
  "response_append_section m ab dead ng data len off q = Some (q', r) \<Longrightarrow>
   response_buffer_limit q' = response_buffer_limit q"
  by (auto simp: response_append_section_def Let_def dest: link_chunk_limit
      split: if_splits option.splits)

lemma read_loop_limit:
  "read_loop n q = Some (q', vs) \<Longrightarrow> response_buffer_limit q' = response_buffer_limit q"
  by (induction n arbitrary: q q' vs) (fastforce simp: Let_def split: option.splits)+

lemma response_put_law:
  assumes "limited_refines l q a" and "malloc_fresh (put_malloc f)"
  shows "\<exists>q' n. response_put f bs q = Some (q', n) \<and> limited_refines l q' (spec_append (take n bs) a)"
proof (cases "0 < (of_nat (length bs) :: size_t)")
  case True
  have "unat (of_nat (length bs) :: size_t) \<le> length bs" by (simp add: unat_of_nat)
  then obtain q' r where "response_append_section (put_malloc f) (put_aborted f) (put_dead f) (put_ngh3 f)
      bs (of_nat (length bs)) 0 q = Some (q', r)" "append_post bs (of_nat (length bs)) 0 a q q' r"
    using append_section_refines [OF _ assms(2) _ True] assms(1) by (metis limited_refines_def)
  then show ?thesis
    using assms True append_section_limit
    by (auto simp: response_put_def limited_refines_def append_post_def spec_append_def
        split: append_result.splits)
next
  case False
  then show ?thesis using assms by (simp add: response_put_def spec_append_def)
qed

lemma response_get_law:
  assumes "limited_refines l q a"
  shows "\<exists>q' bs. response_get n q = Some (q', bs) \<and> limited_refines l q' (spec_read (length bs) a) \<and>
     bs = take (length bs) (drop (spec_submitted a) (spec_log a))"
proof (cases "n > 0 \<and> \<not> response_cancelled q")
  case True
  then obtain q' r where r: "h3_session_read_data n q = Some (q', r)" "read_post n a q q' r"
    using read_refines [of q a n] assms by (auto simp: limited_refines_def)
  moreover have "response_buffer_limit q' = l"
    using r(1) True assms read_loop_limit
    by (auto simp: h3_session_read_data_def limited_refines_def)
  ultimately show ?thesis
    by (auto simp: response_get_def limited_refines_def read_post_def split: read_data_result.splits)
next
  case False
  then show ?thesis using assms by (auto simp: response_get_def h3_session_read_data_def)
qed

lemma queue_refines_start: "queue_refines (fresh_response l) spec_empty"
  by (simp add: queue_refines_def queue_rep_def fresh_response_def spec_empty_def)

lemma limited_refines_positions:
  assumes "limited_refines l q a"
  shows "spec_submitted a \<le> length (spec_log a)" "spec_acked a \<le> spec_submitted a"
    "unat (response_buffered q) = length (spec_log a) - spec_acked a" "response_buffered q \<le> l"
proof -
  obtain es n where rep: "queue_rep q es n" and le: "spec_acked a \<le> spec_submitted a"
      "spec_submitted a \<le> length (spec_log a)"
    and una: "drop (spec_acked a) (spec_log a) = concat (map (\<lambda>e. unacked (snd e)) es)"
    and l: "response_buffer_limit q = l"
    using assms by (auto simp: limited_refines_def queue_refines_def)
  have "unat (response_buffered q) = length (drop (spec_acked a) (spec_log a))"
    using rep by (simp only: queue_rep_def una)
  then show "unat (response_buffered q) = length (spec_log a) - spec_acked a" by (simp only: length_drop)
  show "response_buffered q \<le> l" using queue_rep_bounded [OF rep] l by simp
qed (use assms in \<open>auto simp: limited_refines_def queue_refines_def\<close>)

interpretation response_queue: byte_queue "limited_refines l" response_put response_get
    "h3_stream_response_ack_locked now" response_control "\<lambda>f. malloc_fresh (put_malloc f)"
proof
  show "limited_refines l (response_control d q) a" if "limited_refines l q a"
    for q :: "'d h3_response_scheme" and a d
    using that by (cases d) (auto simp: limited_refines_def queue_simps h3_stream_response_complete_def
        Let_def, simp_all add: cond_broadcast_def)
  show "\<exists>q'. h3_stream_response_ack_locked now k q = Some q' \<and> limited_refines l q' (spec_ack (unat k) a)"
    if "limited_refines l q a" and "spec_acked a + unat k \<le> spec_submitted a"
    for q :: "'d h3_response_scheme" and a k
    using that ack_refines [of q a k now] by (auto simp: limited_refines_def ack_frame_def)
qed (fact response_put_law response_get_law limited_refines_positions(1))+

section \<open>Properties\<close>

lemma fresh_run_ok: "run_ok (limited_refines l) (fresh_run l)"
  using queue_refines_start [of l]
  by (simp add: run_ok_def fresh_run_def run_spec_def limited_refines_def spec_empty_def)
    (simp add: fresh_response_def)

text \<open>
  C1: Whatever the order in which the worker queues response bytes and the event thread reads,
  acknowledges, completes and cancels, no operation touches freed memory or loops forever, the
  bytes handed to nghttp3 are exactly the bytes queued, in order and without gap or repetition,
  and the buffered byte count is the number of bytes queued and not yet acknowledged, which never
  exceeds \<^verbatim>\<open>response_buffer_limit\<close>.
\<close>

theorem response_queue_schedules:
  assumes "list_all (op_ok (\<lambda>f. malloc_fresh (put_malloc f))) ops"
  shows "run_ops response_put response_get (h3_stream_response_ack_locked now) response_control ops
           (fresh_run limit) \<noteq> Faulted \<and>
     (\<forall>r. run_ops response_put response_get (h3_stream_response_ack_locked now) response_control ops
           (fresh_run limit) = Ran r \<longrightarrow>
        qr_out r = take (length (qr_out r)) (qr_in r) \<and>
        qr_acked r \<le> length (qr_out r) \<and>
        unat (response_buffered (qr_queue r)) = length (qr_in r) - qr_acked r \<and>
        response_buffered (qr_queue r) \<le> limit)"
proof -
  have "run_ok (limited_refines limit) r \<Longrightarrow>
      qr_out r = take (length (qr_out r)) (qr_in r) \<and> qr_acked r \<le> length (qr_out r) \<and>
      unat (response_buffered (qr_queue r)) = length (qr_in r) - qr_acked r \<and>
      response_buffered (qr_queue r) \<le> limit" for r :: "h3_response queue_run"
    using limited_refines_positions [of limit "qr_queue r" "run_spec r"]
    by (simp add: run_ok_def run_spec_def)
  then show ?thesis
    using response_queue.run_in_order [OF fresh_run_ok assms, of now] by blast
qed

text \<open>A concrete allocator: the first address in a list that the heap does not use.\<close>

definition scan_malloc :: "chunk_ptr list \<Rightarrow> malloc" where
  "scan_malloc addrs h n = find (\<lambda>p. h p = None) addrs"

lemma scan_malloc_fresh: "malloc_fresh (scan_malloc addrs)"
  by (auto simp: malloc_fresh_def scan_malloc_def find_Some_iff)

definition sample_env :: put_env where
  "sample_env = \<lparr>put_malloc = scan_malloc [0, 1, 2], put_aborted = False, put_dead = False, put_ngh3 = True\<rparr>"

definition sample_ops :: "(put_env, response_ctl) queue_op list" where
  "sample_ops = [OpPut sample_env [1, 2, 3], OpPut sample_env [4, 5], OpGet (Suc 0), OpAck 2,
     OpPut sample_env [6, 7, 8], OpGet (Suc (Suc 0)), OpCtl (CtlComplete False True), OpAck 3]"

lemmas queue_eval =
  fresh_run_def fresh_response_def sample_ops_def sample_env_def scan_malloc_def response_put_def
  response_get_def response_append_section_def append_chunk_len_def link_chunk_def SIZE_MAX_def
  STREAM_CHUNK_BYTES_def h3_session_read_data_def h3_stream_response_ack_locked_def ack_loop.simps
  ack_chunk_def cond_broadcast_def h3_stream_response_complete_def Let_def

lemma sample_run:
  "\<exists>q. run_ops response_put response_get (h3_stream_response_ack_locked 0) response_control sample_ops
     (fresh_run 6) = Ran \<lparr>qr_queue = q, qr_in = [1, 2, 3, 4, 5, 6, 7, 8], qr_out = [1, 2, 3, 4, 5, 6, 7, 8],
       qr_acked = 5\<rparr>"
  by (simp add: queue_eval)

theorem response_queue_schedules_witness:
  "\<exists>r. run_ops response_put response_get (h3_stream_response_ack_locked 0) response_control sample_ops
     (fresh_run 6) = Ran r \<and> qr_out r = [1, 2, 3, 4, 5, 6, 7, 8] \<and>
     unat (response_buffered (qr_queue r)) = 3"
proof -
  have "list_all (op_ok (\<lambda>f. malloc_fresh (put_malloc f))) sample_ops"
    by (simp add: sample_ops_def sample_env_def scan_malloc_fresh)
  from response_queue_schedules [OF this, of 0 6] sample_run show ?thesis
    by fastforce
qed


definition sample_others :: "nat \<Rightarrow> (nat, h3_response) resp_shared \<Rightarrow> (nat, h3_response) resp_shared" where
  "sample_others k s = (if queue_full s then s\<lparr>rs_aborted := True\<rparr> else s)"

lemma sample_others_ok: "others_ok sample_others" "eventually_room 0 sample_others"
  by (auto simp: others_ok_def eventually_room_def sample_others_def queue_full_def)

definition sample_shared :: "(nat, h3_response) resp_shared" where
  "sample_shared = \<lparr>rs_aborted = False, rs_ngh3_dead = False, rs_ngh3 = True,
     rs_stream = fresh_response 6, rs_world = 0\<rparr>"

lemma sample_append_status:
  "map_option snd (h3_stream_response_append (scan_malloc [0, 1]) id id sample_others (\<lambda>_. APR_SUCCESS)
     (Some [1, 2, 3, 4]) 4 sample_shared) = Some APR_SUCCESS"
proof -
  let ?step = "append_loop (scan_malloc [0, 1]) id id sample_others (\<lambda>_. APR_SUCCESS) [1, 2, 3, 4] 4"
  have "\<exists>s. ?step 0 0 sample_shared = ?step 1 4 s"
    by (subst append_loop.simps) (auto simp: sample_shared_def queue_eval)
  then show ?thesis
    by (auto simp: h3_stream_response_append_def append_loop.simps [where offset = 4])
qed




text \<open>
  Whatever the two threads did to the queue, \<^verbatim>\<open>h3_stream_response_cleanup_locked\<close> terminates
  and frees every chunk the queue still owns exactly once: nothing is leaked, nothing is freed
  twice, and all three chunk pointers and the byte count are reset.
\<close>

theorem cleanup_after_any_schedule:
  assumes "list_all (op_ok (\<lambda>f. malloc_fresh (put_malloc f))) ops"
    and "run_ops response_put response_get (h3_stream_response_ack_locked now) response_control ops
           (fresh_run limit) = Ran r"
  shows "\<exists>q. h3_stream_response_cleanup_locked (qr_queue r) = Some q \<and>
     response_heap q = Map.empty \<and> response_head q = None \<and> response_tail q = None \<and>
     response_submit_chunk q = None \<and> response_buffered q = 0"
proof -
  have "run_ok (limited_refines limit) r"
    using response_queue.run_in_order [OF fresh_run_ok assms(1), of now] assms(2) by blast
  then have "queue_refines (qr_queue r) (run_spec r)" by (simp add: run_ok_def limited_refines_def)
  from cleanup_frees_all [OF this] show ?thesis by simp
qed

theorem cleanup_after_any_schedule_witness:
  "\<exists>r q. run_ops response_put response_get (h3_stream_response_ack_locked 0) response_control sample_ops
     (fresh_run 6) = Ran r \<and> h3_stream_response_cleanup_locked (qr_queue r) = Some q \<and>
     response_heap q = Map.empty"
proof -
  have "list_all (op_ok (\<lambda>f. malloc_fresh (put_malloc f))) sample_ops"
    by (simp add: sample_ops_def sample_env_def scan_malloc_fresh)
  with cleanup_after_any_schedule sample_run show ?thesis by blast
qed

text \<open>
  A full queue holds its producer back: with the buffered count at the limit and the session
  alive, a pass of \<^verbatim>\<open>h3_stream_response_append\<close> queues nothing and waits; with room, it queues at
  least one byte unless the session is over, the allocation fails or the length counter would wrap.
\<close>

theorem append_backpressure:
  assumes "queue_refines q a" and "malloc_fresh malloc" and "unat len \<le> length data" and "offset < len"
    and "\<not> response_cancelled q" and "\<not> aborted" and "\<not> dead" and "ngh3"
  shows "if response_buffered q = response_buffer_limit q
    then response_append_section malloc aborted dead ngh3 data len offset q = Some (q, AppWait)
    else \<exists>q' r. response_append_section malloc aborted dead ngh3 data len offset q = Some (q', r) \<and>
      (r = AppReturn APR_ENOMEM \<or> (r = AppReturn APR_EGENERAL \<and> unat (response_len q) + 4096 > unat SIZE_MAX) \<or>
       (\<exists>n. r = AppQueued n \<and> 0 < n \<and> n \<le> STREAM_CHUNK_BYTES))"
proof (cases "response_buffered q = response_buffer_limit q")
  case True
  then show ?thesis using assms by (simp add: response_append_section_def)
next
  case False
  obtain es n where "queue_rep q es n" using assms(1) by (auto simp: queue_refines_def)
  then have lt: "response_buffered q < response_buffer_limit q"
    using queue_rep_bounded [of q] False by (auto simp: order.strict_iff_order)
  let ?n = "append_chunk_len (response_buffer_limit q - response_buffered q) (len - offset)"
  have n0: "?n \<noteq> 0"
    using lt assms(4) by (auto simp: append_chunk_len_def Let_def STREAM_CHUNK_BYTES_def)
  have "unat ?n \<le> 4096"
    using append_chunk_len_bounds(3) [of "response_buffer_limit q - response_buffered q" "len - offset"]
    by (simp add: STREAM_CHUNK_BYTES_def word_le_nat_alt)
  then have over: "response_len q > SIZE_MAX - ?n \<Longrightarrow> unat (response_len q) + 4096 > unat SIZE_MAX"
    using unat_SIZE_MAX_minus [of 0] unat_SIZE_MAX_minus [of ?n] by (simp add: word_less_nat_alt)
  obtain q' r where sec: "response_append_section malloc aborted dead ngh3 data len offset q = Some (q', r)"
    and post: "append_post data len offset a q q' r"
    using append_section_refines [OF assms(1-4)] by blast
  have "r = AppReturn APR_ENOMEM \<or> (r = AppReturn APR_EGENERAL \<and> response_len q > SIZE_MAX - ?n) \<or>
      (\<exists>n. r = AppQueued n)"
    using sec lt n0 assms(5-8)
    by (auto simp: response_append_section_def Let_def split: option.splits if_splits)
  then show ?thesis using False sec post over by (auto simp: append_post_def)
qed

theorem append_backpressure_witness:
  "response_append_section (scan_malloc [0]) False False True [1, 2, 3] 3 0 (fresh_response 0) =
     Some (fresh_response 0, AppWait) \<and>
   (\<exists>q' r. response_append_section (scan_malloc [0]) False False True [1, 2, 3] 3 0 (fresh_response 6) = Some (q', r))"
  using append_backpressure [OF queue_refines_start scan_malloc_fresh, of 3 "[1, 2, 3]" 0 0 False False True "[0]"]
    append_backpressure [OF queue_refines_start scan_malloc_fresh, of 3 "[1, 2, 3]" 0 6 False False True "[0]"]
  by (auto simp: fresh_response_def)

end
