(* ===== verification/H3Q_Transport.thy ===== *)
theory H3Q_Transport
  imports H3_Prelude
begin

text \<open>
  The thin layer over OpenSSL's QUIC objects: \<^verbatim>\<open>quic/h3q_stream.c\<close> (writing, reading, state,
  reset and release of one stream) and \<^verbatim>\<open>quic/h3q_conn.c\<close> (preparing, inspecting and closing a
  connection).

  OpenSSL is a parameter: \<open>'w\<close> is the state of the world outside the module and \<open>ssl_api\<close> holds
  the calls the module makes, as functions on it. Pointers to SSL objects are numbers, NULL is
  \<^const>\<open>None\<close>. What the theorems rely on is stated as a predicate on the record.
\<close>

section \<open>OpenSSL as the module sees it\<close>

type_synonym qptr = nat
type_synonym cptr = nat

datatype ssl_error =
    SSL_ERROR_WANT_READ
  | SSL_ERROR_WANT_WRITE
  | SSL_ERROR_ZERO_RETURN
  | SSL_ERROR_OTHER int

datatype ssl_stream_state =
    SSL_STREAM_STATE_NONE
  | SSL_STREAM_STATE_OK
  | SSL_STREAM_STATE_WRONG_DIR
  | SSL_STREAM_STATE_FINISHED
  | SSL_STREAM_STATE_RESET_LOCAL
  | SSL_STREAM_STATE_RESET_REMOTE
  | SSL_STREAM_STATE_CONN_CLOSED

text \<open>What \<^verbatim>\<open>SSL_get_conn_close_info\<close> reports, with its two flags split out.\<close>

record ssl_conn_close_info =
  cci_local :: bool
  cci_transport :: bool
  cci_error_code :: uint64_t
  cci_frame_type :: uint64_t
  cci_reason :: "string option"
  cci_reason_len :: size_t

text \<open>
  \<open>SSL_get_current_cipher\<close> gives the cipher's bits, algorithm bits and name;
  \<open>ERR_last_error_string\<close> is \<^verbatim>\<open>ERR_error_string_n\<close> of the last error on the queue, cut to the
  buffer size given.
\<close>

record 'w ssl_api =
  SSL_write_ex :: "qptr \<Rightarrow> byte list \<Rightarrow> 'w \<Rightarrow> (int \<times> size_t) \<times> 'w"
  SSL_get_error :: "qptr \<Rightarrow> int \<Rightarrow> 'w \<Rightarrow> ssl_error"
  SSL_stream_conclude :: "qptr \<Rightarrow> 'w \<Rightarrow> 'w"
  SSL_stream_write_buf_avail :: "qptr \<Rightarrow> 'w \<Rightarrow> uint64_t option"
  SSL_read_ex :: "qptr \<Rightarrow> size_t \<Rightarrow> 'w \<Rightarrow> (int \<times> byte list) \<times> 'w"
  SSL_get_stream_read_state :: "qptr \<Rightarrow> 'w \<Rightarrow> ssl_stream_state"
  SSL_get_stream_write_state :: "qptr \<Rightarrow> 'w \<Rightarrow> ssl_stream_state"
  SSL_stream_reset :: "qptr \<Rightarrow> uint64_t \<Rightarrow> 'w \<Rightarrow> 'w"
  SSL_free :: "nat \<Rightarrow> 'w \<Rightarrow> 'w"
  SSL_get_stream_id :: "qptr \<Rightarrow> 'w \<Rightarrow> uint64_t"
  SSL_set_blocking_mode :: "cptr \<Rightarrow> bool \<Rightarrow> 'w \<Rightarrow> bool \<times> 'w"
  SSL_set_default_stream_mode_none :: "cptr \<Rightarrow> 'w \<Rightarrow> 'w"
  SSL_set_incoming_stream_policy_accept :: "cptr \<Rightarrow> 'w \<Rightarrow> 'w"
  SSL_set_idle_timeout :: "cptr \<Rightarrow> uint64_t \<Rightarrow> 'w \<Rightarrow> 'w"
  SSL_new_uni_stream :: "cptr \<Rightarrow> 'w \<Rightarrow> qptr option \<times> 'w"
  SSL_accept_stream :: "cptr \<Rightarrow> 'w \<Rightarrow> qptr option \<times> 'w"
  SSL_is_init_finished :: "cptr \<Rightarrow> 'w \<Rightarrow> bool"
  SSL_get_shutdown :: "cptr \<Rightarrow> 'w \<Rightarrow> int"
  SSL_shutdown_ex :: "cptr \<Rightarrow> bool \<Rightarrow> uint64_t \<Rightarrow> string option \<Rightarrow> 'w \<Rightarrow> int \<times> 'w"
  SSL_shutdown :: "cptr \<Rightarrow> 'w \<Rightarrow> int \<times> 'w"
  SSL_get_current_cipher :: "cptr \<Rightarrow> 'w \<Rightarrow> (int \<times> int \<times> string option) option"
  SSL_get_version :: "cptr \<Rightarrow> 'w \<Rightarrow> string option"
  SSL_session_reused :: "cptr \<Rightarrow> 'w \<Rightarrow> bool"
  SSL_get_conn_close_info :: "cptr \<Rightarrow> 'w \<Rightarrow> ssl_conn_close_info option"
  ERR_last_error_string :: "nat \<Rightarrow> 'w \<Rightarrow> string"

text \<open>
  Documented behaviour of \<^verbatim>\<open>SSL_write_ex\<close>: a successful call has written at most what it was
  given.
\<close>

definition ssl_write_ok :: "'w ssl_api \<Rightarrow> bool" where
  "ssl_write_ok ssl \<longleftrightarrow>
     (\<forall>q bs w rv n w'. SSL_write_ex ssl q bs w = ((rv, n), w') \<longrightarrow> rv > 0 \<longrightarrow> unat n \<le> length bs)"

section \<open>Streams\<close>

record h3q_write_result =
  wr_accepted :: size_t
  wr_blocked :: bool
  wr_broken :: bool

definition vec_total :: "byte list list \<Rightarrow> size_t" where
  "vec_total vec = sum_list (map (\<lambda>v. of_nat (length v)) vec)"

fun write_loop ::
  "'w ssl_api \<Rightarrow> qptr \<Rightarrow> byte list list \<Rightarrow> h3q_write_result \<Rightarrow> 'w \<Rightarrow> h3q_write_result \<times> 'w" where
  "write_loop ssl q [] res w = (res, w)"
| "write_loop ssl q (v # vec) res w =
     (case SSL_write_ex ssl q v w of
        ((wrv, n), w) \<Rightarrow>
          if wrv \<le> 0
          then if SSL_get_error ssl q wrv w = SSL_ERROR_WANT_WRITE
               then (res\<lparr>wr_blocked := True\<rparr>, w)
               else (res\<lparr>wr_broken := True\<rparr>, w)
          else
            let res = res\<lparr>wr_accepted := wr_accepted res + n\<rparr>
            in if n < of_nat (length v) then (res\<lparr>wr_blocked := True\<rparr>, w)
               else write_loop ssl q vec res w)"

definition h3q_stream_write ::
  "'w ssl_api \<Rightarrow> qptr \<Rightarrow> byte list list \<Rightarrow> bool \<Rightarrow> 'w \<Rightarrow> h3q_write_result \<times> 'w" where
  "h3q_stream_write ssl q vec fin w =
     (let expected = vec_total vec;
          (res, w) = write_loop ssl q vec \<lparr>wr_accepted = 0, wr_blocked = False, wr_broken = False\<rparr> w
      in if fin \<and> \<not> wr_blocked res \<and> \<not> wr_broken res \<and> wr_accepted res = expected
         then (res, SSL_stream_conclude ssl q w)
         else (res, w))"

definition h3q_stream_is_write_blocked :: "'w ssl_api \<Rightarrow> qptr option \<Rightarrow> 'w \<Rightarrow> bool" where
  "h3q_stream_is_write_blocked ssl st w =
     (case st of
        None \<Rightarrow> False
      | Some q \<Rightarrow> SSL_stream_write_buf_avail ssl q w = Some 0)"

text \<open>The bytes read (none when the call returns 0) and the fin flag.\<close>

definition h3q_stream_read ::
  "'w ssl_api \<Rightarrow> qptr \<Rightarrow> size_t \<Rightarrow> 'w \<Rightarrow> (bool \<times> byte list \<times> bool) \<times> 'w" where
  "h3q_stream_read ssl q read_size w =
     (case SSL_read_ex ssl q read_size w of
        ((rv, bs), w) \<Rightarrow>
          if rv = 1 \<and> bs \<noteq> [] then ((True, bs, False), w)
          else if rv = 1 \<or> SSL_get_error ssl q rv w = SSL_ERROR_ZERO_RETURN
          then ((False, bs, True), w)
          else ((False, bs, False), w))"

definition h3q_stream_is_read_finished :: "'w ssl_api \<Rightarrow> qptr \<Rightarrow> 'w \<Rightarrow> bool \<times> bool" where
  "h3q_stream_is_read_finished ssl q w =
     (let rstate = SSL_get_stream_read_state ssl q w;
          wstate = (if rstate \<noteq> SSL_STREAM_STATE_CONN_CLOSED \<and> rstate \<noteq> SSL_STREAM_STATE_RESET_REMOTE
                    then SSL_get_stream_write_state ssl q w else SSL_STREAM_STATE_FINISHED)
      in (rstate = SSL_STREAM_STATE_FINISHED \<or> rstate = SSL_STREAM_STATE_RESET_REMOTE \<or>
            rstate = SSL_STREAM_STATE_CONN_CLOSED,
          wstate = SSL_STREAM_STATE_FINISHED \<or> wstate = SSL_STREAM_STATE_RESET_LOCAL))"

definition h3q_stream_reset :: "'w ssl_api \<Rightarrow> qptr option \<Rightarrow> uint64_t \<Rightarrow> 'w \<Rightarrow> 'w" where
  "h3q_stream_reset ssl st err w = (case st of None \<Rightarrow> w | Some q \<Rightarrow> SSL_stream_reset ssl q err w)"

definition h3q_stream_free :: "'w ssl_api \<Rightarrow> qptr option \<Rightarrow> 'w \<Rightarrow> 'w" where
  "h3q_stream_free ssl st w = (case st of None \<Rightarrow> w | Some q \<Rightarrow> SSL_free ssl q w)"

definition h3q_stream_id :: "'w ssl_api \<Rightarrow> qptr option \<Rightarrow> 'w \<Rightarrow> stream_id_t" where
  "h3q_stream_id ssl st w = (case st of None \<Rightarrow> - 1 | Some q \<Rightarrow> sint (SSL_get_stream_id ssl q w))"

section \<open>Connections\<close>

definition h3q_conn_prepare :: "'w ssl_api \<Rightarrow> cptr option \<Rightarrow> apr_uint32_t \<Rightarrow> 'w \<Rightarrow> bool \<times> 'w" where
  "h3q_conn_prepare ssl conn idle_timeout_secs w =
     (case conn of
        None \<Rightarrow> (False, w)
      | Some c \<Rightarrow>
          (case SSL_set_blocking_mode ssl c False w of
             (False, w) \<Rightarrow> (False, w)
           | (True, w) \<Rightarrow>
               let w = SSL_set_default_stream_mode_none ssl c w;
                   w = SSL_set_incoming_stream_policy_accept ssl c w;
                   w = SSL_set_idle_timeout ssl c (ucast idle_timeout_secs * 1000) w
               in (True, w)))"

text \<open>The \<open>CHECK\<close> on the connection aborts the process: \<^const>\<open>None\<close>.\<close>

definition h3q_conn_open_uni_stream ::
  "'w ssl_api \<Rightarrow> cptr option \<Rightarrow> 'w \<Rightarrow> ((qptr \<times> stream_id_t) option \<times> 'w) option" where
  "h3q_conn_open_uni_stream ssl conn w =
     (case conn of
        None \<Rightarrow> None
      | Some c \<Rightarrow>
          (case SSL_new_uni_stream ssl c w of
             (None, w) \<Rightarrow> Some (None, w)
           | (Some q, w) \<Rightarrow> Some (Some (q, sint (SSL_get_stream_id ssl q w)), w)))"

definition h3q_conn_accept_stream :: "'w ssl_api \<Rightarrow> cptr option \<Rightarrow> 'w \<Rightarrow> qptr option \<times> 'w" where
  "h3q_conn_accept_stream ssl conn w =
     (case conn of None \<Rightarrow> (None, w) | Some c \<Rightarrow> SSL_accept_stream ssl c w)"

definition h3q_conn_is_handshake_done :: "'w ssl_api \<Rightarrow> cptr option \<Rightarrow> 'w \<Rightarrow> bool" where
  "h3q_conn_is_handshake_done ssl conn w =
     (case conn of None \<Rightarrow> False | Some c \<Rightarrow> SSL_is_init_finished ssl c w)"

definition h3q_conn_is_closed :: "'w ssl_api \<Rightarrow> cptr option \<Rightarrow> 'w \<Rightarrow> bool" where
  "h3q_conn_is_closed ssl conn w =
     (case conn of None \<Rightarrow> True | Some c \<Rightarrow> SSL_get_shutdown ssl c w \<noteq> 0)"

definition h3q_conn_shutdown ::
  "'w ssl_api \<Rightarrow> cptr option \<Rightarrow> bool \<Rightarrow> uint64_t \<Rightarrow> string option \<Rightarrow> 'w \<Rightarrow> bool \<times> 'w" where
  "h3q_conn_shutdown ssl conn is_rapid app_error reason w =
     (case conn of
        None \<Rightarrow> (True, w)
      | Some c \<Rightarrow>
          let (ret, w) =
                (if reason \<noteq> None then SSL_shutdown_ex ssl c is_rapid app_error reason w
                 else if is_rapid then SSL_shutdown_ex ssl c is_rapid 0 None w
                 else SSL_shutdown ssl c w)
          in if ret = 1 then (True, w)
             else if ret < 0
             then let err = SSL_get_error ssl c ret w
                  in (err \<noteq> SSL_ERROR_WANT_READ \<and> err \<noteq> SSL_ERROR_WANT_WRITE, w)
             else (False, w))"

definition h3q_conn_free :: "'w ssl_api \<Rightarrow> cptr option \<Rightarrow> 'w \<Rightarrow> 'w" where
  "h3q_conn_free ssl conn w = (case conn of None \<Rightarrow> w | Some c \<Rightarrow> SSL_free ssl c w)"

record h3q_tls_info =
  ti_protocol :: string
  ti_cipher :: "string option"
  ti_cipher_bits :: int
  ti_cipher_alg_bits :: int
  ti_resumed :: bool

definition h3q_conn_tls_info :: "'w ssl_api \<Rightarrow> cptr option \<Rightarrow> 'w \<Rightarrow> h3q_tls_info option" where
  "h3q_conn_tls_info ssl conn w =
     (case conn of
        None \<Rightarrow> None
      | Some c \<Rightarrow>
          (case SSL_get_current_cipher ssl c w of
             None \<Rightarrow> None
           | Some (bits, alg_bits, name) \<Rightarrow>
               Some \<lparr>ti_protocol = (case SSL_get_version ssl c w of
                         Some version \<Rightarrow> if take 3 version = ''TLS'' then version else ''TLSv1.3''
                       | None \<Rightarrow> ''TLSv1.3''),
                     ti_cipher = name, ti_cipher_bits = bits, ti_cipher_alg_bits = alg_bits,
                     ti_resumed = SSL_session_reused ssl c w\<rparr>))"

text \<open>
  \<^verbatim>\<open>%llx\<close>; and \<^verbatim>\<open>%.*s\<close> with the length cast to \<open>int\<close>, where a negative precision prints the whole
  string.
\<close>

fun show_hex :: "nat \<Rightarrow> string" where
  "show_hex n =
     (if n < 10 then [char_of (48 + n)]
      else if n < 16 then [char_of (87 + n)]
      else show_hex (n div 16) @ show_hex (n mod 16))"

declare show_hex.simps [simp del]

definition show_prec :: "size_t \<Rightarrow> string \<Rightarrow> string" where
  "show_prec len s =
     (let n = sint (ucast len :: 32 word) in if n < 0 then s else take (nat n) s)"

text \<open>The text left in a buffer of \<open>buflen\<close> bytes; \<^const>\<open>None\<close> when there is no room at all.\<close>

definition h3q_conn_close_reason :: "'w ssl_api \<Rightarrow> nat \<Rightarrow> cptr option \<Rightarrow> nat \<Rightarrow> 'w \<Rightarrow> string option" where
  "h3q_conn_close_reason ssl errlen conn buflen w =
     (if buflen = 0 then None
      else let errbuf = ERR_last_error_string ssl errlen w in
           case Option.bind conn (\<lambda>c. SSL_get_conn_close_info ssl c w) of
             Some cci \<Rightarrow> Some (take (buflen - 1)
               ((if cci_local cci then ''local'' else ''remote'') @ '' '' @
                (if cci_transport cci then ''transport'' else ''app'') @ '' err=0x'' @
                show_hex (unat (cci_error_code cci)) @ '' frame=0x'' @ show_hex (unat (cci_frame_type cci)) @
                '' reason='' @ [CHR 0x22] @
                show_prec (cci_reason_len cci) (case cci_reason cci of None \<Rightarrow> [] | Some r \<Rightarrow> r) @
                [CHR 0x22] @ '' ('' @ errbuf @ '')''))
           | None \<Rightarrow> Some (take (buflen - 1) errbuf))"

section \<open>What a stream write achieves\<close>

lemma vec_total_unat:
  assumes "length (concat vec) < 18446744073709551616"
  shows "unat (vec_total vec) = length (concat vec)"
proof -
  have "vec_total vec = of_nat (length (concat vec))"
    unfolding vec_total_def by (induction vec) simp_all
  then show ?thesis using assms by (simp add: unat_of_nat_id)
qed

lemma write_loop_spec:
  assumes ok: "ssl_write_ok ssl"
  shows "write_loop ssl q vec res w = (res', w') \<Longrightarrow> \<not> wr_blocked res \<Longrightarrow> \<not> wr_broken res \<Longrightarrow>
    unat (wr_accepted res) + length (concat vec) < 18446744073709551616 \<Longrightarrow>
    unat (wr_accepted res') \<le> unat (wr_accepted res) + length (concat vec) \<and>
    \<not> (wr_blocked res' \<and> wr_broken res') \<and>
    (\<not> wr_blocked res' \<and> \<not> wr_broken res' \<longrightarrow>
       unat (wr_accepted res') = unat (wr_accepted res) + length (concat vec))"
proof (induction vec arbitrary: res w)
  case (Cons v vec)
  obtain rv n w1 where wr: "SSL_write_ex ssl q v w = ((rv, n), w1)" by (metis surj_pair)
  show ?case
  proof (cases "rv \<le> 0")
    case True
    then show ?thesis using Cons.prems wr by (auto split: if_splits)
  next
    case False
    then have n: "unat n \<le> length v" using ok wr unfolding ssl_write_ok_def by (meson not_le)
    have v: "length v < 18446744073709551616" using Cons.prems(4) by simp
    have acc: "unat (wr_accepted res + n) = unat (wr_accepted res) + unat n"
      using n Cons.prems(4) by (intro unat_plus_no_overflow) simp
    have lt: "n < of_nat (length v) \<longleftrightarrow> unat n < length v"
      using v by (simp add: word_less_nat_alt unat_of_nat_id)
    show ?thesis
    proof (cases "n < of_nat (length v)")
      case True
      then show ?thesis using Cons.prems wr False acc n lt by (auto simp: Let_def)
    next
      case full: False
      then have "unat n = length v" using lt n by simp
      then show ?thesis
        using Cons.IH [of "res\<lparr>wr_accepted := wr_accepted res + n\<rparr>" w1] Cons.prems wr False full acc
        by (auto simp: Let_def)
    qed
  qed
qed simp

text \<open>
  A stream write reports at most the bytes it was given; it is never both blocked and broken;
  when it is neither, every byte was accepted; and the stream is concluded (FIN sent) exactly when
  FIN was asked for and every byte was accepted.
\<close>

theorem stream_write_result:
  assumes "ssl_write_ok ssl" and "length (concat vec) < 18446744073709551616"
    and "write_loop ssl q vec \<lparr>wr_accepted = 0, wr_blocked = False, wr_broken = False\<rparr> w = (r, w1)"
    and "h3q_stream_write ssl q vec fin w = (res, w')"
  shows "res = r \<and> unat (wr_accepted res) \<le> length (concat vec) \<and> \<not> (wr_blocked res \<and> wr_broken res) \<and>
     (\<not> wr_blocked res \<and> \<not> wr_broken res \<longrightarrow> unat (wr_accepted res) = length (concat vec)) \<and>
     w' = (if fin \<and> \<not> wr_blocked res \<and> \<not> wr_broken res then SSL_stream_conclude ssl q w1 else w1)"
proof -
  have "unat (wr_accepted r) \<le> length (concat vec)" "\<not> (wr_blocked r \<and> wr_broken r)"
    "\<not> wr_blocked r \<and> \<not> wr_broken r \<longrightarrow> unat (wr_accepted r) = length (concat vec)"
    using write_loop_spec [OF assms(1,3)] assms(2) by simp_all
  moreover have "wr_accepted r = vec_total vec \<longleftrightarrow> unat (wr_accepted r) = length (concat vec)"
    by (simp add: vec_total_unat [OF assms(2)] word_unat_eq_iff)
  ultimately show ?thesis using assms(3,4) by (auto simp: h3q_stream_write_def Let_def split: if_splits)
qed

text \<open>A stream object with a send buffer of the given size, as a concrete OpenSSL.\<close>

definition buffer_ssl :: "nat \<Rightarrow> byte list ssl_api" where
  "buffer_ssl cap =
     \<lparr>SSL_write_ex = (\<lambda>q bs w. let n = min (length bs) (cap - length w)
         in ((if n = 0 \<and> bs \<noteq> [] then - 1 else 1, of_nat n), w @ take n bs)),
      SSL_get_error = (\<lambda>q rv w. SSL_ERROR_WANT_WRITE),
      SSL_stream_conclude = (\<lambda>q w. w @ [0]),
      SSL_stream_write_buf_avail = (\<lambda>q w. Some (of_nat (cap - length w))),
      SSL_read_ex = (\<lambda>q n w. ((0, []), w)),
      SSL_get_stream_read_state = (\<lambda>q w. SSL_STREAM_STATE_OK),
      SSL_get_stream_write_state = (\<lambda>q w. SSL_STREAM_STATE_OK),
      SSL_stream_reset = (\<lambda>q e w. w), SSL_free = (\<lambda>q w. w), SSL_get_stream_id = (\<lambda>q w. of_nat q),
      SSL_set_blocking_mode = (\<lambda>c b w. (True, w)), SSL_set_default_stream_mode_none = (\<lambda>c w. w),
      SSL_set_incoming_stream_policy_accept = (\<lambda>c w. w), SSL_set_idle_timeout = (\<lambda>c t w. w),
      SSL_new_uni_stream = (\<lambda>c w. (None, w)), SSL_accept_stream = (\<lambda>c w. (None, w)),
      SSL_is_init_finished = (\<lambda>c w. True), SSL_get_shutdown = (\<lambda>c w. 0),
      SSL_shutdown_ex = (\<lambda>c r e s w. (1, w)), SSL_shutdown = (\<lambda>c w. (1, w)),
      SSL_get_current_cipher = (\<lambda>c w. Some (128, 128, Some ''TLS_AES_128_GCM_SHA256'')),
      SSL_get_version = (\<lambda>c w. Some ''QUICv1''), SSL_session_reused = (\<lambda>c w. False),
      SSL_get_conn_close_info = (\<lambda>c w. None), ERR_last_error_string = (\<lambda>n w. take (n - 1) ''no error'')\<rparr>"

lemma buffer_ssl_ok: "ssl_write_ok (buffer_ssl cap)"
  by (auto simp: ssl_write_ok_def buffer_ssl_def Let_def unat_of_nat
      intro: order.trans [OF mod_less_eq_dividend])

theorem stream_write_result_witness:
  "\<exists>res w'. h3q_stream_write (buffer_ssl 4) 0 [[1, 2, 3], [4, 5]] True [] = (res, w') \<and>
     wr_accepted res = 4 \<and> wr_blocked res \<and> \<not> wr_broken res \<and> w' = [1, 2, 3, 4] \<and>
     unat (wr_accepted res) \<le> 5"
proof -
  let ?r = "\<lparr>wr_accepted = 4, wr_blocked = True, wr_broken = False\<rparr>"
  have l: "write_loop (buffer_ssl 4) 0 [[1, 2, 3], [4, 5]]
      \<lparr>wr_accepted = 0, wr_blocked = False, wr_broken = False\<rparr> [] = (?r, [1, 2, 3, 4])"
    by (simp add: buffer_ssl_def)
  have e: "h3q_stream_write (buffer_ssl 4) 0 [[1, 2, 3], [4, 5]] True [] = (?r, [1, 2, 3, 4])"
    by (simp only: h3q_stream_write_def l) simp
  from stream_write_result [OF buffer_ssl_ok _ l e] e show ?thesis by simp
qed

end
