(* ===== verification/H3_State.thy ===== *)
theory H3_State
  imports H3_Config H3_Response_Queue H3Q_Transport
begin

text \<open>
  The state the session code works on (\<^verbatim>\<open>h3_session.h\<close>): \<open>h3_stream\<close> extends the response queue
  fields, \<open>h3_session\<close> holds the hash of streams, and \<open>h3_st\<close> is what a lock-held section of the
  event thread may change: the session, the two byte counters of the listener, and the world
  outside the module (OpenSSL objects, the nghttp3 connection, the clock).

  Streams are addressed by reference, as in C: \<open>se_store\<close> maps a reference to the structure and
  \<open>se_streams\<close> is the content of the APR hash, from stream id to reference. The structures live
  in the session pool until the session ends, so a reference stays valid.

  nghttp3 calls back into the module. A call of nghttp3 is therefore a tree: it ends with a result,
  or issues a callback and continues with what the callback returned and the world it left. A
  theorem that holds for every tree holds whatever nghttp3 does.
\<close>

section \<open>Streams and sessions\<close>

type_synonym stream_ref = nat

record h3_stream = h3_response +
  st_id :: stream_id_t
  st_qstream :: "qptr option"
  st_done :: bool
  st_write_blocked :: bool
  st_is_bidi :: bool
  st_headers_complete :: bool
  st_dispatched :: bool
  st_worker_done :: bool
  st_body_complete :: bool
  st_body_truncated :: bool
  st_request_body :: "byte list"
  st_request_body_len :: size_t
  st_request_body_offset :: size_t
  st_request_body_capacity :: size_t
  st_request_body_overflow :: bool
  st_malformed :: bool
  st_header_count :: int
  st_headers_too_large :: bool
  st_method :: "byte list option"
  st_scheme :: "byte list option"
  st_authority :: "byte list option"
  st_path :: "byte list option"
  st_headers :: "(byte list \<times> byte list) list option"

text \<open>
  \<open>st_request_body\<close> is the initialised part of the buffer \<^verbatim>\<open>request_body\<close> points to: its length is
  \<^verbatim>\<open>request_body_len\<close>, and the buffer itself has \<^verbatim>\<open>request_body_capacity\<close> bytes.
\<close>

text \<open>
  The TLS names shown to scripts; and the fields of httpd's \<^verbatim>\<open>conn_rec\<close> the module sets, addresses
  as host and port.
\<close>

record h3_tls_env =
  tls_protocol :: "string option"
  tls_cipher :: "string option"
  tls_cipher_usekeysize :: "string option"
  tls_cipher_algkeysize :: "string option"
  tls_cipher_export :: "string option"
  tls_session_resumed :: "string option"

definition h3_tls_env_zero :: h3_tls_env where
  "h3_tls_env_zero = \<lparr>tls_protocol = None, tls_cipher = None, tls_cipher_usekeysize = None,
     tls_cipher_algkeysize = None, tls_cipher_export = None, tls_session_resumed = None\<rparr>"

record conn_rec =
  c_id :: int
  c_local_ip :: string
  c_client_ip :: string
  c_remote_host :: "string option"
  c_client_addr :: "(string \<times> apr_port_t) option"
  c_local_addr :: "(string \<times> apr_port_t) option"
  c_notes :: "(string \<times> string) list"
  c_logio :: bool
  c_is_master :: bool

record h3_session =
  se_server :: server_rec
  se_qconn :: "cptr option"
  se_ngh3 :: bool
  se_streams :: "(stream_id_t \<times> stream_ref) list"
  se_store :: "stream_ref \<Rightarrow> h3_stream"
  se_next :: stream_ref
  se_aborted :: bool
  se_blocked_streams :: int
  se_ngh3_dead :: bool
  se_abort_quic_error_code :: uint64_t
  se_abort_reason :: "string option"
  se_pending_free :: "qptr list"
  se_stream_read_buf_size :: size_t
  se_stream_drain_cursor :: size_t
  se_control_streams_created :: bool
  se_goaway_sent :: bool
  se_goaway_deadline :: apr_time_t
  se_last_activity :: apr_time_t
  se_stream_errors :: apr_uint32_t
  se_active_tasks :: apr_uint32_t
  se_pending :: "stream_id_t \<times> stream_ref option"
  se_tls_env :: h3_tls_env
  se_c :: "conn_rec option"

definition se_conf :: "h3_session \<Rightarrow> h3_server_conf" where
  "se_conf se = module_config (se_server se)"

definition upd_stream :: "stream_ref \<Rightarrow> (h3_stream \<Rightarrow> h3_stream) \<Rightarrow> h3_session \<Rightarrow> h3_session" where
  "upd_stream r f se = se\<lparr>se_store := (se_store se)(r := f (se_store se r))\<rparr>"

text \<open>\<^verbatim>\<open>H3_SID_IS_BIDI\<close> and \<^verbatim>\<open>H3_SID_IS_SERVER\<close> on the two low bits of a stream id.\<close>

definition H3_SID_IS_BIDI :: "stream_id_t \<Rightarrow> bool" where
  "H3_SID_IS_BIDI sid \<longleftrightarrow> sid AND 2 = 0"

definition H3_SID_IS_SERVER :: "stream_id_t \<Rightarrow> bool" where
  "H3_SID_IS_SERVER sid \<longleftrightarrow> sid AND 1 = 1"

section \<open>The lock-held state\<close>

text \<open>
  \<open>sx_counters\<close> is \<^const>\<open>None\<close> when \<^verbatim>\<open>child_h3_io\<close> is NULL, otherwise its \<^verbatim>\<open>total_bytes_read\<close>
  and \<^verbatim>\<open>total_bytes_written\<close>.
\<close>

record 'w h3_st =
  sx_world :: 'w
  sx_session :: h3_session
  sx_counters :: "(uint64_t \<times> uint64_t) option"

definition on_session :: "(h3_session \<Rightarrow> h3_session) \<Rightarrow> 'w h3_st \<Rightarrow> 'w h3_st" where
  "on_session f sx = sx\<lparr>sx_session := f (sx_session sx)\<rparr>"

definition on_world :: "('w \<Rightarrow> 'w) \<Rightarrow> 'w h3_st \<Rightarrow> 'w h3_st" where
  "on_world f sx = sx\<lparr>sx_world := f (sx_world sx)\<rparr>"

definition stream_of :: "stream_ref \<Rightarrow> 'w h3_st \<Rightarrow> h3_stream" where
  "stream_of r sx = se_store (sx_session sx) r"

definition count_read :: "size_t \<Rightarrow> 'w h3_st \<Rightarrow> 'w h3_st" where
  "count_read n sx = sx\<lparr>sx_counters := map_option (\<lambda>(r, w). (r + n, w)) (sx_counters sx)\<rparr>"

definition count_written :: "size_t \<Rightarrow> 'w h3_st \<Rightarrow> 'w h3_st" where
  "count_written n sx = sx\<lparr>sx_counters := map_option (\<lambda>(r, w). (r, w + n)) (sx_counters sx)\<rparr>"

section \<open>nghttp3 as a tree of callbacks\<close>

text \<open>
  Each callback carries the stream's user data, the reference \<open>on_begin_headers\<close> attached, or
  NULL. \<open>QPACK\<close> tokens and error codes are the library's numbers.
\<close>

datatype ngh3_callback =
    CbBeginHeaders stream_id_t "stream_ref option"
  | CbRecvHeader stream_id_t int "byte list" "byte list" "stream_ref option"
  | CbEndHeaders stream_id_t bool "stream_ref option"
  | CbRecvData stream_id_t "byte list" "stream_ref option"
  | CbAckedStreamData stream_id_t uint64_t "stream_ref option"
  | CbStopSending stream_id_t uint64_t "stream_ref option"
  | CbResetStream stream_id_t uint64_t "stream_ref option"
  | CbStreamClose stream_id_t uint64_t "stream_ref option"
  | CbReadData stream_id_t nat "stream_ref option"

datatype cb_result = CbInt int | CbRead read_data_result

datatype (dead 'w, dead 'r) ngh3_prog =
    NgDone 'w 'r
  | NgCallback 'w ngh3_callback "cb_result \<Rightarrow> 'w \<Rightarrow> ('w, 'r) ngh3_prog"

text \<open>
  \<^verbatim>\<open>nghttp3_conn_writev_stream\<close>: an error, or the stream, its fin flag and the vectors; the id is
  negative when there is nothing to send.
\<close>

datatype writev_result = WritevError int stream_id_t | WritevOk stream_id_t bool "byte list list"

text \<open>The settings the module sets.\<close>

record nghttp3_settings =
  max_field_section_size :: uint64_t
  qpack_max_dtable_capacity :: size_t
  qpack_blocked_streams :: size_t

record 'w ngh3_api =
  nghttp3_conn_read_stream :: "stream_id_t \<Rightarrow> byte list \<Rightarrow> bool \<Rightarrow> 'w \<Rightarrow> ('w, int) ngh3_prog"
  nghttp3_conn_writev_stream :: "'w \<Rightarrow> ('w, writev_result) ngh3_prog"
  nghttp3_conn_add_write_offset :: "stream_id_t \<Rightarrow> size_t \<Rightarrow> 'w \<Rightarrow> ('w, unit) ngh3_prog"
  nghttp3_conn_add_ack_offset :: "stream_id_t \<Rightarrow> size_t \<Rightarrow> 'w \<Rightarrow> ('w, unit) ngh3_prog"
  nghttp3_conn_block_stream :: "stream_id_t \<Rightarrow> 'w \<Rightarrow> 'w"
  nghttp3_conn_unblock_stream :: "stream_id_t \<Rightarrow> 'w \<Rightarrow> 'w"
  nghttp3_conn_resume_stream :: "stream_id_t \<Rightarrow> 'w \<Rightarrow> 'w"
  nghttp3_conn_close_stream :: "stream_id_t \<Rightarrow> uint64_t \<Rightarrow> 'w \<Rightarrow> ('w, unit) ngh3_prog"
  nghttp3_conn_shutdown_stream_read :: "stream_id_t \<Rightarrow> 'w \<Rightarrow> ('w, unit) ngh3_prog"
  nghttp3_conn_set_stream_user_data :: "stream_id_t \<Rightarrow> stream_ref \<Rightarrow> 'w \<Rightarrow> 'w"
  nghttp3_conn_submit_response ::
    "stream_id_t \<Rightarrow> (byte list \<times> byte list) list \<Rightarrow> 'w \<Rightarrow> ('w, int) ngh3_prog"
  nghttp3_conn_submit_shutdown_notice :: "'w \<Rightarrow> ('w, unit) ngh3_prog"
  nghttp3_conn_shutdown :: "'w \<Rightarrow> ('w, unit) ngh3_prog"
  nghttp3_conn_is_drained2 :: "'w \<Rightarrow> bool"
  nghttp3_conn_bind_control_stream :: "stream_id_t \<Rightarrow> 'w \<Rightarrow> int \<times> 'w"
  nghttp3_conn_bind_qpack_streams :: "stream_id_t \<Rightarrow> stream_id_t \<Rightarrow> 'w \<Rightarrow> int \<times> 'w"
  nghttp3_conn_del :: "'w \<Rightarrow> 'w"
  nghttp3_err_infer_quic_app_error_code :: "int \<Rightarrow> uint64_t"
  nghttp3_strerror :: "int \<Rightarrow> string"
  NGHTTP3_ERR_MALFORMED_HTTP_HEADER :: int
  NGHTTP3_ERR_MALFORMED_HTTP_MESSAGING :: int
  NGHTTP3_ERR_CALLBACK_FAILURE :: int
  NGHTTP3_H3_NO_ERROR :: uint64_t
  NGHTTP3_H3_EXCESSIVE_LOAD :: uint64_t
  NGHTTP3_QPACK_TOKEN__METHOD :: int
  NGHTTP3_QPACK_TOKEN__SCHEME :: int
  NGHTTP3_QPACK_TOKEN__PATH :: int
  NGHTTP3_QPACK_TOKEN__AUTHORITY :: int
  nghttp3_settings_default :: nghttp3_settings
  nghttp3_conn_server_new :: "nghttp3_settings \<Rightarrow> 'w \<Rightarrow> int \<times> 'w"
  nghttp3_conn_set_max_concurrent_streams :: "size_t \<Rightarrow> 'w \<Rightarrow> 'w"
  nghttp3_conn_set_max_client_streams_bidi :: "uint64_t \<Rightarrow> 'w \<Rightarrow> 'w"

text \<open>
  Everything outside the module: OpenSSL, nghttp3, the clock, and the APR calls that can fail.
  \<open>apr_hash_order\<close> is the order in which APR walks a hash.
\<close>

record 'w h3_env =
  env_ssl :: "'w ssl_api"
  env_ng :: "'w ngh3_api"
  apr_time_now :: "'w \<Rightarrow> apr_time_t \<times> 'w"
  apr_pool_create :: "'w \<Rightarrow> bool \<times> 'w"
  apr_thread_cond_create :: "'w \<Rightarrow> bool \<times> 'w"
  apr_hash_order :: "(stream_id_t \<times> stream_ref) list \<Rightarrow> (stream_id_t \<times> stream_ref) list"
  apr_thread_mutex_create :: "'w \<Rightarrow> apr_status_t \<times> 'w"
  apr_allocator_create :: "'w \<Rightarrow> bool \<times> 'w"
  apr_pool_create_ex :: "'w \<Rightarrow> bool \<times> 'w"

text \<open>Walking a hash visits each entry once.\<close>

definition hash_order_ok :: "'w h3_env \<Rightarrow> bool" where
  "hash_order_ok env \<longleftrightarrow> (\<forall>h. mset (apr_hash_order env h) = mset h)"

section \<open>Access lemmas\<close>

lemma upd_stream_store [simp]:
  "se_store (upd_stream r f se) r' = (if r' = r then f (se_store se r) else se_store se r')"
  by (simp add: upd_stream_def)

lemma upd_stream_fields [simp]:
  "se_server (upd_stream r f se) = se_server se" "se_conf (upd_stream r f se) = se_conf se"
  "se_goaway_deadline (upd_stream r f se) = se_goaway_deadline se"
  "se_qconn (upd_stream r f se) = se_qconn se" "se_ngh3 (upd_stream r f se) = se_ngh3 se"
  "se_streams (upd_stream r f se) = se_streams se" "se_next (upd_stream r f se) = se_next se"
  "se_aborted (upd_stream r f se) = se_aborted se"
  "se_blocked_streams (upd_stream r f se) = se_blocked_streams se"
  "se_ngh3_dead (upd_stream r f se) = se_ngh3_dead se"
  "se_pending_free (upd_stream r f se) = se_pending_free se"
  "se_stream_errors (upd_stream r f se) = se_stream_errors se"
  "se_active_tasks (upd_stream r f se) = se_active_tasks se"
  "se_pending (upd_stream r f se) = se_pending se"
  "se_abort_quic_error_code (upd_stream r f se) = se_abort_quic_error_code se"
  "se_stream_drain_cursor (upd_stream r f se) = se_stream_drain_cursor se"
  "se_goaway_sent (upd_stream r f se) = se_goaway_sent se" "se_c (upd_stream r f se) = se_c se"
  by (simp_all add: upd_stream_def se_conf_def)

lemma on_session_fields [simp]:
  "sx_session (on_session f sx) = f (sx_session sx)" "sx_world (on_session f sx) = sx_world sx"
  "sx_counters (on_session f sx) = sx_counters sx"
  "sx_session (on_world g sx) = sx_session sx" "sx_world (on_world g sx) = g (sx_world sx)"
  "sx_counters (on_world g sx) = sx_counters sx"
  "sx_session (count_read n sx) = sx_session sx" "sx_session (count_written n sx) = sx_session sx"
  "sx_world (count_read n sx) = sx_world sx" "sx_world (count_written n sx) = sx_world sx"
  by (simp_all add: on_session_def on_world_def count_read_def count_written_def)

end
