(* ===== verification/H3_Callbacks.thy ===== *)
theory H3_Callbacks
  imports H3_State
begin

text \<open>
  The nghttp3 callbacks (\<^verbatim>\<open>h3_callbacks.c\<close>) and the interpreter that runs a call of nghttp3 with
  them. All run on the event thread with the session lock held. \<^const>\<open>None\<close> stands for undefined
  behaviour (a copy beyond a buffer), a loop that does not end, or \<^verbatim>\<open>abort()\<close>.
\<close>

section \<open>Request header callbacks\<close>

definition H3_BODY_BUF_INIT_CAP :: size_t where
  "H3_BODY_BUF_INIT_CAP = 8 * 1024"

text \<open>\<^verbatim>\<open>apr_pstrndup\<close>: a copy of the first \<open>n\<close> bytes, up to a NUL if there is one.\<close>

definition apr_pstrndup :: "byte list \<Rightarrow> byte list" where
  "apr_pstrndup bs = takeWhile (\<lambda>b. b \<noteq> 0) bs"

definition IS_PSEUDO_TOKEN :: "'w ngh3_api \<Rightarrow> int \<Rightarrow> bool" where
  "IS_PSEUDO_TOKEN ng t \<longleftrightarrow>
     t = NGHTTP3_QPACK_TOKEN__METHOD ng \<or> t = NGHTTP3_QPACK_TOKEN__SCHEME ng \<or>
     t = NGHTTP3_QPACK_TOKEN__PATH ng \<or> t = NGHTTP3_QPACK_TOKEN__AUTHORITY ng"

definition set_pseudo :: "'w ngh3_api \<Rightarrow> int \<Rightarrow> byte list \<Rightarrow> h3_stream \<Rightarrow> h3_stream" where
  "set_pseudo ng token val st =
     (if val = [] \<or> length val \<ge> 8192 then st\<lparr>st_malformed := True\<rparr>
      else
        let copy = apr_pstrndup val
        in if token = NGHTTP3_QPACK_TOKEN__METHOD ng then st\<lparr>st_method := Some copy\<rparr>
           else if token = NGHTTP3_QPACK_TOKEN__SCHEME ng then st\<lparr>st_scheme := Some copy\<rparr>
           else if token = NGHTTP3_QPACK_TOKEN__PATH ng then st\<lparr>st_path := Some copy\<rparr>
           else if token = NGHTTP3_QPACK_TOKEN__AUTHORITY ng then st\<lparr>st_authority := Some copy\<rparr>
           else st\<lparr>st_malformed := True\<rparr>)"

definition on_begin_headers ::
  "'w h3_env \<Rightarrow> stream_id_t \<Rightarrow> stream_ref option \<Rightarrow> 'w h3_st \<Rightarrow> int \<times> 'w h3_st" where
  "on_begin_headers env sid user_data sx =
     (let pend = se_pending (sx_session sx);
          stream = (if user_data = None \<and> fst pend = sid then snd pend else user_data)
      in case stream of
           None \<Rightarrow> (NGHTTP3_ERR_CALLBACK_FAILURE (env_ng env), sx)
         | Some r \<Rightarrow>
             let sx = on_session (upd_stream r (\<lambda>st.
                        if st_is_bidi st \<and> st_headers st = None
                        then st\<lparr>st_headers := Some []\<rparr> else st)) sx
             in (0, on_world (nghttp3_conn_set_stream_user_data (env_ng env) sid r) sx))"

definition field_oversized :: "server_rec \<Rightarrow> byte list \<Rightarrow> byte list \<Rightarrow> bool" where
  "field_oversized s nk nv \<longleftrightarrow>
     limit_req_fieldsize s > 0 \<and>
     (of_nat (length nk) + of_nat (length nv) + 2 :: size_t) > of_int (limit_req_fieldsize s)"

definition recv_header_stream ::
  "'w ngh3_api \<Rightarrow> server_rec \<Rightarrow> int \<Rightarrow> byte list \<Rightarrow> byte list \<Rightarrow> h3_stream \<Rightarrow> h3_stream" where
  "recv_header_stream ng s token nk nv st =
     (if IS_PSEUDO_TOKEN ng token
      then if field_oversized s nk nv then st\<lparr>st_malformed := True\<rparr> else set_pseudo ng token nv st
      else if st_headers st = None \<or> st_headers_too_large st then st
      else
        let st = (if limit_req_fields s > 0 then st\<lparr>st_header_count := st_header_count st + 1\<rparr> else st)
        in if limit_req_fields s > 0 \<and> st_header_count st > limit_req_fields s
           then st\<lparr>st_headers_too_large := True\<rparr>
           else if field_oversized s nk nv then st\<lparr>st_headers_too_large := True\<rparr>
           else st\<lparr>st_headers :=
                  map_option (\<lambda>h. h @ [(apr_pstrndup nk, apr_pstrndup nv)]) (st_headers st)\<rparr>)"

definition on_recv_header ::
  "'w h3_env \<Rightarrow> int \<Rightarrow> byte list \<Rightarrow> byte list \<Rightarrow> stream_ref option \<Rightarrow> 'w h3_st \<Rightarrow> int \<times> 'w h3_st" where
  "on_recv_header env token nk nv user_data sx =
     (case user_data of
        None \<Rightarrow> (0, sx)
      | Some r \<Rightarrow>
          (0, on_session (upd_stream r
                (recv_header_stream (env_ng env) (se_server (sx_session sx)) token nk nv)) sx))"

definition on_end_headers :: "bool \<Rightarrow> stream_ref option \<Rightarrow> 'w h3_st \<Rightarrow> int \<times> 'w h3_st" where
  "on_end_headers fin user_data sx =
     (case user_data of
        None \<Rightarrow> (0, sx)
      | Some r \<Rightarrow>
          (0, on_session (upd_stream r (\<lambda>st.
                if st_is_bidi st
                then let st = st\<lparr>st_headers_complete := True\<rparr>
                     in if fin then st\<lparr>st_body_complete := True\<rparr> else st
                else st)) sx))"

section \<open>Request body\<close>

text \<open>
  \<^verbatim>\<open>on_recv_data\<close> on the stream itself. Both copies are checked against the capacity of their
  target.
\<close>

definition grow_body :: "h3_server_conf \<Rightarrow> size_t \<Rightarrow> h3_stream \<Rightarrow> h3_stream option" where
  "grow_body conf needed st =
     (if needed > st_request_body_capacity st
      then do {
        new_cap \<leftarrow> grow_cap (if st_request_body_capacity st \<noteq> 0 then st_request_body_capacity st
                            else H3_BODY_BUF_INIT_CAP) needed;
        let new_cap = (if new_cap > h3_max_request_body_size conf
                       then h3_max_request_body_size conf else new_cap);
        (if st_request_body_len st > new_cap then None
         else Some (st\<lparr>st_request_body_capacity := new_cap\<rparr>))
      }
      else Some st)"

definition append_body :: "byte list \<Rightarrow> h3_stream \<Rightarrow> h3_stream option" where
  "append_body bs st =
     (if unat (st_request_body_len st) + length bs > unat (st_request_body_capacity st) then None
      else Some (st\<lparr>st_request_body := take (unat (st_request_body_len st)) (st_request_body st) @ bs,
                    st_request_body_len := st_request_body_len st + of_nat (length bs)\<rparr>))"

definition recv_data_stream :: "h3_server_conf \<Rightarrow> byte list \<Rightarrow> h3_stream \<Rightarrow> h3_stream option" where
  "recv_data_stream conf bs st =
     (if \<not> st_is_bidi st \<or> bs = [] then Some st
      else if st_request_body_overflow st then Some st
      else
        let needed = st_request_body_len st + of_nat (length bs)
        in if needed > h3_max_request_body_size conf
           then Some (st\<lparr>st_request_body_overflow := True\<rparr>)
           else do { st \<leftarrow> grow_body conf needed st; append_body bs st })"

definition on_recv_data ::
  "byte list \<Rightarrow> stream_ref option \<Rightarrow> 'w h3_st \<Rightarrow> (int \<times> 'w h3_st) option" where
  "on_recv_data bs user_data sx =
     (case user_data of
        None \<Rightarrow> Some (0, sx)
      | Some r \<Rightarrow> do {
          st \<leftarrow> recv_data_stream (se_conf (sx_session sx)) bs (stream_of r sx);
          Some (0, on_session (upd_stream r (\<lambda>_. st)) sx)
        })"

section \<open>Stream life cycle callbacks\<close>

definition on_acked_stream_data ::
  "'w h3_env \<Rightarrow> uint64_t \<Rightarrow> stream_ref option \<Rightarrow> 'w h3_st \<Rightarrow> (int \<times> 'w h3_st) option" where
  "on_acked_stream_data env datalen user_data sx =
     (case user_data of
        None \<Rightarrow> Some (0, sx)
      | Some r \<Rightarrow>
          (case apr_time_now env (sx_world sx) of
             (now, w) \<Rightarrow> do {
               st \<leftarrow> h3_stream_response_ack_locked now datalen (stream_of r sx);
               Some (0, on_session (upd_stream r (\<lambda>_. st)) (sx\<lparr>sx_world := w\<rparr>))
             }))"

definition h3_session_queue_free :: "qptr option \<Rightarrow> h3_session \<Rightarrow> h3_session" where
  "h3_session_queue_free st se =
     (case st of None \<Rightarrow> se | Some q \<Rightarrow> se\<lparr>se_pending_free := se_pending_free se @ [q]\<rparr>)"

definition release_qstream :: "stream_ref \<Rightarrow> h3_session \<Rightarrow> h3_session" where
  "release_qstream r se =
     (if st_qstream (se_store se r) \<noteq> None
      then upd_stream r (\<lambda>st. st\<lparr>st_qstream := None\<rparr>)
             (h3_session_queue_free (st_qstream (se_store se r)) se)
      else se)"

definition on_stop_sending :: "stream_ref option \<Rightarrow> 'w h3_st \<Rightarrow> int \<times> 'w h3_st" where
  "on_stop_sending user_data sx =
     (case user_data of
        None \<Rightarrow> (0, sx)
      | Some r \<Rightarrow>
          (0, on_session (\<lambda>se.
                upd_stream r (\<lambda>st. st\<lparr>st_done := True, st_body_complete := True, st_body_truncated := True\<rparr>)
                  (release_qstream r (upd_stream r h3_stream_response_cancel_locked se))) sx))"

definition on_reset_stream ::
  "'w h3_env \<Rightarrow> uint64_t \<Rightarrow> stream_ref option \<Rightarrow> 'w h3_st \<Rightarrow> int \<times> 'w h3_st" where
  "on_reset_stream env app_error_code user_data sx =
     (case user_data of
        None \<Rightarrow> (0, sx)
      | Some r \<Rightarrow>
          let sx = on_session (upd_stream r h3_stream_response_cancel_locked) sx;
              sx = on_world (h3q_stream_reset (env_ssl env) (st_qstream (stream_of r sx)) app_error_code) sx
          in (0, on_session (upd_stream r (\<lambda>st. st\<lparr>st_done := True\<rparr>)) sx))"

definition on_stream_close :: "stream_ref option \<Rightarrow> 'w h3_st \<Rightarrow> int \<times> 'w h3_st" where
  "on_stream_close user_data sx =
     (case user_data of
        None \<Rightarrow> (0, sx)
      | Some r \<Rightarrow>
          (0, on_session (\<lambda>se.
                release_qstream r
                  (upd_stream r (\<lambda>st. (h3_stream_response_cancel_locked st)\<lparr>st_done := True\<rparr>) se)) sx))"

text \<open>\<^verbatim>\<open>h3_session_read_data\<close> as a callback: NULL user data is a failure.\<close>

definition on_read_data ::
  "nat \<Rightarrow> stream_ref option \<Rightarrow> 'w h3_st \<Rightarrow> (read_data_result \<times> 'w h3_st) option" where
  "on_read_data veccnt user_data sx =
     (case user_data of
        None \<Rightarrow> Some (RD_CALLBACK_FAILURE, sx)
      | Some r \<Rightarrow> do {
          (st, res) \<leftarrow> h3_session_read_data veccnt (stream_of r sx);
          Some (res, on_session (upd_stream r (\<lambda>_. st)) sx)
        })"

section \<open>Running a call of nghttp3\<close>

definition cb_int :: "int \<times> 'w h3_st \<Rightarrow> (cb_result \<times> 'w h3_st) option" where
  "cb_int x = Some (CbInt (fst x), snd x)"

fun h3_callback ::
  "'w h3_env \<Rightarrow> ngh3_callback \<Rightarrow> 'w h3_st \<Rightarrow> (cb_result \<times> 'w h3_st) option" where
  "h3_callback env (CbBeginHeaders sid ud) sx = cb_int (on_begin_headers env sid ud sx)"
| "h3_callback env (CbRecvHeader sid token nk nv ud) sx = cb_int (on_recv_header env token nk nv ud sx)"
| "h3_callback env (CbEndHeaders sid fin ud) sx = cb_int (on_end_headers fin ud sx)"
| "h3_callback env (CbRecvData sid bs ud) sx = Option.bind (on_recv_data bs ud sx) cb_int"
| "h3_callback env (CbAckedStreamData sid n ud) sx =
     Option.bind (on_acked_stream_data env n ud sx) cb_int"
| "h3_callback env (CbStopSending sid e ud) sx = cb_int (on_stop_sending ud sx)"
| "h3_callback env (CbResetStream sid e ud) sx = cb_int (on_reset_stream env e ud sx)"
| "h3_callback env (CbStreamClose sid e ud) sx = cb_int (on_stream_close ud sx)"
| "h3_callback env (CbReadData sid n ud) sx =
     map_option (\<lambda>(x, sx). (CbRead x, sx)) (on_read_data n ud sx)"

primrec run_ng :: "'w h3_env \<Rightarrow> ('w, 'r) ngh3_prog \<Rightarrow> 'w h3_st \<Rightarrow> ('r \<times> 'w h3_st) option" where
  "run_ng env (NgDone w r) sx = Some (r, sx\<lparr>sx_world := w\<rparr>)"
| "run_ng env (NgCallback w cb k) sx =
     (case h3_callback env cb (sx\<lparr>sx_world := w\<rparr>) of
        None \<Rightarrow> None
      | Some (x, sx) \<Rightarrow> run_ng env (k x (sx_world sx)) sx)"

text \<open>A call of nghttp3 from the module, on the current world.\<close>

definition call_ng ::
  "'w h3_env \<Rightarrow> ('w \<Rightarrow> ('w, 'r) ngh3_prog) \<Rightarrow> 'w h3_st \<Rightarrow> ('r \<times> 'w h3_st) option" where
  "call_ng env f sx = run_ng env (f (sx_world sx)) sx"

text \<open>
  What nghttp3 promises about the callbacks it issues: it acknowledges only response bytes the
  module handed to it and the peer has not acknowledged yet, and a body fragment is a fragment of
  memory.
\<close>

definition ack_covered :: "h3_stream \<Rightarrow> uint64_t \<Rightarrow> bool" where
  "ack_covered st n \<longleftrightarrow> (\<exists>a. queue_refines st a \<and> spec_acked a + unat n \<le> spec_submitted a)"

definition cb_contract :: "ngh3_callback \<Rightarrow> h3_session \<Rightarrow> bool" where
  "cb_contract cb se =
     (case cb of
        CbAckedStreamData sid n (Some r) \<Rightarrow> ack_covered (se_store se r) n
      | CbRecvData sid bs ud \<Rightarrow> length bs < 2 ^ 63
      | _ \<Rightarrow> True)"

primrec ng_contract :: "'w h3_env \<Rightarrow> ('w, 'r) ngh3_prog \<Rightarrow> 'w h3_st \<Rightarrow> bool" where
  "ng_contract env (NgDone w r) sx = True"
| "ng_contract env (NgCallback w cb k) sx =
     (cb_contract cb (sx_session sx) \<and>
      (case h3_callback env cb (sx\<lparr>sx_world := w\<rparr>) of
         None \<Rightarrow> True
       | Some (x, sx) \<Rightarrow> ng_contract env (k x (sx_world sx)) sx))"

text \<open>A request body and a header section, fragment by fragment and field by field.\<close>

fun recv_body :: "h3_server_conf \<Rightarrow> byte list list \<Rightarrow> h3_stream \<Rightarrow> h3_stream option" where
  "recv_body conf [] st = Some st"
| "recv_body conf (bs # bss) st = Option.bind (recv_data_stream conf bs st) (recv_body conf bss)"

fun recv_fields ::
  "'w ngh3_api \<Rightarrow> server_rec \<Rightarrow> (int \<times> byte list \<times> byte list) list \<Rightarrow> h3_stream \<Rightarrow> h3_stream" where
  "recv_fields ng s [] st = st"
| "recv_fields ng s ((token, nk, nv) # fs) st =
     recv_fields ng s fs (recv_header_stream ng s token nk nv st)"

section \<open>Invariants\<close>

text \<open>
  Per stream: the request body buffer holds what its length says and stays within the configured
  maximum; the header table respects \<^verbatim>\<open>LimitRequestFields\<close> and \<^verbatim>\<open>LimitRequestFieldSize\<close>.
\<close>

definition body_ok :: "h3_server_conf \<Rightarrow> h3_stream \<Rightarrow> bool" where
  "body_ok conf st \<longleftrightarrow>
     unat (st_request_body_len st) = length (st_request_body st) \<and>
     st_request_body_len st \<le> st_request_body_capacity st \<and>
     st_request_body_capacity st \<le> h3_max_request_body_size conf"

definition field_fits :: "server_rec \<Rightarrow> byte list \<times> byte list \<Rightarrow> bool" where
  "field_fits s kv \<longleftrightarrow>
     limit_req_fieldsize s > 0 \<longrightarrow> int (length (fst kv)) + int (length (snd kv)) + 2 \<le> limit_req_fieldsize s"

definition headers_ok :: "server_rec \<Rightarrow> h3_stream \<Rightarrow> bool" where
  "headers_ok s st \<longleftrightarrow>
     (limit_req_fields s > 0 \<longrightarrow>
        (\<forall>h. st_headers st = Some h \<longrightarrow> int (length h) \<le> st_header_count st) \<and> 0 \<le> st_header_count st \<and>
        (\<not> st_headers_too_large st \<longrightarrow> st_header_count st \<le> limit_req_fields s) \<and>
        (\<forall>h. st_headers st = Some h \<longrightarrow> int (length h) \<le> limit_req_fields s))"

definition stream_ok :: "server_rec \<Rightarrow> h3_stream \<Rightarrow> bool" where
  "stream_ok s st \<longleftrightarrow> body_ok (module_config s) st \<and> headers_ok s st"

definition streams_ok :: "h3_session \<Rightarrow> bool" where
  "streams_ok se \<longleftrightarrow> (\<forall>r. stream_ok (se_server se) (se_store se r))"

text \<open>
  The hash: one entry per id and per stream structure, each under the id its structure records;
  and \<^verbatim>\<open>blocked_streams\<close> counts the entries whose stream is write-blocked.
\<close>

definition hash_ok :: "h3_session \<Rightarrow> bool" where
  "hash_ok se \<longleftrightarrow>
     distinct (map fst (se_streams se)) \<and> distinct (map snd (se_streams se)) \<and>
     (\<forall>(sid, r) \<in> set (se_streams se). r < se_next se \<and> st_id (se_store se r) = sid)"

definition blocked_count :: "h3_session \<Rightarrow> nat" where
  "blocked_count se = length (filter (\<lambda>e. st_write_blocked (se_store se (snd e))) (se_streams se))"

definition hash_inv :: "h3_session \<Rightarrow> bool" where
  "hash_inv se \<longleftrightarrow> hash_ok se \<and> se_blocked_streams se = int (blocked_count se)"

text \<open>
  Ownership of QUIC stream objects: no object hangs on two streams, none is queued for release
  twice, and none is both in use and queued.
\<close>

definition owned_ok :: "h3_session \<Rightarrow> bool" where
  "owned_ok se \<longleftrightarrow>
     (\<forall>r r' q. st_qstream (se_store se r) = Some q \<longrightarrow> st_qstream (se_store se r') = Some q \<longrightarrow> r = r') \<and>
     distinct (se_pending_free se) \<and>
     (\<forall>r q. st_qstream (se_store se r) = Some q \<longrightarrow> q \<notin> set (se_pending_free se))"

section \<open>Response operations leave the rest of a stream alone\<close>

lemma more_fields:
  fixes a b :: h3_stream
  assumes "h3_response.more a = h3_response.more b"
  shows "st_id a = st_id b" "st_qstream a = st_qstream b" "st_done a = st_done b"
    "st_write_blocked a = st_write_blocked b" "st_is_bidi a = st_is_bidi b"
    "st_dispatched a = st_dispatched b" "st_worker_done a = st_worker_done b"
    "st_request_body a = st_request_body b" "st_request_body_len a = st_request_body_len b"
    "st_request_body_capacity a = st_request_body_capacity b" "st_headers a = st_headers b"
    "st_header_count a = st_header_count b" "st_headers_too_large a = st_headers_too_large b"
    "st_headers_complete a = st_headers_complete b" "st_body_complete a = st_body_complete b"
    "st_malformed a = st_malformed b" "st_request_body_overflow a = st_request_body_overflow b"
  using assms by (cases a; cases b; simp)+

lemma ack_chunk_more: "h3_response.more (ack_chunk now n p c q) = h3_response.more q"
  by (simp add: ack_chunk_def Let_def)

lemma ack_loop_more:
  assumes "ack_loop now k rel q = Some x"
  shows "h3_response.more (fst x) = h3_response.more q"
  by (rule ack_loop.raw_induct
      [where P = "\<lambda>now k rel q x. h3_response.more (fst x) = h3_response.more q", OF _ assms])
    (fastforce simp: ack_chunk_more Let_def split: if_splits option.splits)

lemma cond_broadcast_more [frame_simps]: "h3_response.more (cond_broadcast q) = h3_response.more q"
  by (simp add: cond_broadcast_def)

lemma ack_more [frame_simps]:
  "h3_stream_response_ack_locked now k q = Some q' \<Longrightarrow> h3_response.more q' = h3_response.more q"
  by (auto simp: h3_stream_response_ack_locked_def frame_simps dest: ack_loop_more)

lemma cancel_more [frame_simps]:
  "h3_response.more (h3_stream_response_cancel_locked q) = h3_response.more q"
  by (simp add: h3_stream_response_cancel_locked_def Let_def frame_simps)

lemma read_loop_more: "read_loop n q = Some (q', vs) \<Longrightarrow> h3_response.more q' = h3_response.more q"
  by (induction n arbitrary: q q' vs) (fastforce simp: Let_def split: option.splits)+

lemma read_data_more [frame_simps]:
  "h3_session_read_data n q = Some (q', x) \<Longrightarrow> h3_response.more q' = h3_response.more q"
  by (auto simp: h3_session_read_data_def dest: read_loop_more split: if_splits)

lemma stream_ok_more:
  fixes a b :: h3_stream
  assumes "h3_response.more a = h3_response.more b"
  shows "stream_ok s a = stream_ok s b"
  by (simp add: stream_ok_def body_ok_def headers_ok_def more_fields [OF assms])

section \<open>What a callback may change\<close>

definition cb_frame :: "h3_session \<Rightarrow> h3_session \<Rightarrow> bool" where
  "cb_frame se se' \<longleftrightarrow>
     se_streams se' = se_streams se \<and> se_next se' = se_next se \<and> se_server se' = se_server se \<and>
     se_blocked_streams se' = se_blocked_streams se \<and> se_ngh3_dead se' = se_ngh3_dead se \<and>
     se_stream_errors se' = se_stream_errors se \<and> se_active_tasks se' = se_active_tasks se \<and>
     se_aborted se' = se_aborted se \<and> se_ngh3 se' = se_ngh3 se \<and> se_pending se' = se_pending se \<and>
     se_c se' = se_c se \<and> se_qconn se' = se_qconn se \<and> se_goaway_deadline se' = se_goaway_deadline se \<and>
     (\<forall>r. st_id (se_store se' r) = st_id (se_store se r) \<and>
          st_write_blocked (se_store se' r) = st_write_blocked (se_store se r) \<and>
          st_is_bidi (se_store se' r) = st_is_bidi (se_store se r) \<and>
          st_dispatched (se_store se' r) = st_dispatched (se_store se r) \<and>
          st_worker_done (se_store se' r) = st_worker_done (se_store se r))"

lemma cb_frame_refl [simp]: "cb_frame se se"
  by (simp add: cb_frame_def)

lemma cb_frame_trans: "cb_frame a b \<Longrightarrow> cb_frame b c \<Longrightarrow> cb_frame a c"
  by (simp add: cb_frame_def)

definition keeps :: "(h3_stream \<Rightarrow> h3_stream) \<Rightarrow> h3_stream \<Rightarrow> bool" where
  "keeps f st \<longleftrightarrow>
     st_id (f st) = st_id st \<and> st_write_blocked (f st) = st_write_blocked st \<and>
     st_is_bidi (f st) = st_is_bidi st \<and> st_dispatched (f st) = st_dispatched st \<and>
     st_worker_done (f st) = st_worker_done st"

lemma keeps_more: "h3_response.more (f st) = h3_response.more st \<Longrightarrow> keeps f st"
  using more_fields [of "f st" st] by (simp add: keeps_def)

lemma keeps_cancel [simp]: "keeps h3_stream_response_cancel_locked st"
  by (rule keeps_more) (simp add: frame_simps)

lemma keeps_close [simp]: "keeps (\<lambda>st. (h3_stream_response_cancel_locked st)\<lparr>st_done := True\<rparr>) st"
  using keeps_cancel [of st] by (simp add: keeps_def)

lemma keeps_flags [simp]:
  "keeps (\<lambda>st. st\<lparr>st_done := True\<rparr>) st"
  "keeps (\<lambda>st. st\<lparr>st_body_complete := True\<rparr>) st"
  "keeps (\<lambda>st. st\<lparr>st_done := True, st_body_complete := True\<rparr>) st"
  "keeps (\<lambda>st. st\<lparr>st_done := True, st_body_complete := True, st_body_truncated := True\<rparr>) st"
  by (simp_all add: keeps_def)

lemma cb_frame_upd: "keeps f (se_store se r) \<Longrightarrow> cb_frame se (upd_stream r f se)"
  by (simp add: cb_frame_def keeps_def)

lemma queue_free_fields [simp]:
  "se_store (h3_session_queue_free q se) = se_store se"
  "se_streams (h3_session_queue_free q se) = se_streams se"
  "se_next (h3_session_queue_free q se) = se_next se"
  "se_server (h3_session_queue_free q se) = se_server se"
  by (simp_all add: h3_session_queue_free_def split: option.split)

lemma cb_frame_release: "cb_frame se (release_qstream r se)"
  by (auto simp: cb_frame_def release_qstream_def upd_stream_def h3_session_queue_free_def)

lemma recv_header_keeps: "keeps (recv_header_stream ng s token nk nv) st"
  by (simp add: keeps_def recv_header_stream_def set_pseudo_def Let_def)

lemma recv_data_keeps: "recv_data_stream conf bs st = Some st' \<Longrightarrow> keeps (\<lambda>_. st') st"
  by (auto simp: keeps_def recv_data_stream_def grow_body_def append_body_def Let_def
      split: if_splits bind_splits)

lemma callback_frame:
  assumes "h3_callback env cb sx = Some (x, sx')"
  shows "cb_frame (sx_session sx) (sx_session sx')"
proof (cases cb)
  case (CbBeginHeaders sid ud)
  then show ?thesis
    using assms by (auto simp: cb_int_def on_begin_headers_def Let_def keeps_def intro!: cb_frame_upd
        split: option.splits)
next
  case (CbRecvHeader sid token nk nv ud)
  then show ?thesis
    using assms by (auto simp: cb_int_def on_recv_header_def intro!: cb_frame_upd recv_header_keeps
        split: option.splits)
next
  case (CbEndHeaders sid fin ud)
  then show ?thesis
    using assms by (auto simp: cb_int_def on_end_headers_def keeps_def Let_def intro!: cb_frame_upd
        split: option.splits)
next
  case (CbRecvData sid bs ud)
  then show ?thesis
    using assms by (auto simp: cb_int_def on_recv_data_def stream_of_def intro!: cb_frame_upd
        dest: recv_data_keeps split: option.splits bind_splits)
next
  case (CbAckedStreamData sid n ud)
  then show ?thesis
    using assms by (auto simp: cb_int_def on_acked_stream_data_def stream_of_def
        intro!: cb_frame_upd keeps_more dest: ack_more split: option.splits bind_splits prod.splits)
next
  case (CbStopSending sid e ud)
  then show ?thesis
    using assms by (auto simp: cb_int_def on_stop_sending_def
        intro!: cb_frame_trans [OF cb_frame_upd cb_frame_trans [OF cb_frame_release cb_frame_upd]]
        split: option.splits)
next
  case (CbResetStream sid e ud)
  then show ?thesis
    using assms by (auto simp: cb_int_def on_reset_stream_def Let_def
        intro!: cb_frame_trans [OF cb_frame_upd cb_frame_upd] split: option.splits)
next
  case (CbStreamClose sid e ud)
  then show ?thesis
    using assms by (auto simp: cb_int_def on_stream_close_def
        intro!: cb_frame_trans [OF cb_frame_upd cb_frame_release] split: option.splits)
next
  case (CbReadData sid n ud)
  then show ?thesis
    using assms by (auto simp: on_read_data_def stream_of_def intro!: cb_frame_upd keeps_more
        dest: read_data_more split: option.splits bind_splits)
qed

section \<open>Invariants of every call of nghttp3\<close>

text \<open>
  A property of the session that each callback keeps holds after any call of nghttp3, whatever
  callbacks it issues.
\<close>

locale callback_invariant =
  fixes env :: "'w h3_env" and I :: "h3_session \<Rightarrow> bool"
  assumes callback_law: "I (sx_session sx) \<Longrightarrow> h3_callback env cb sx = Some (x, sx') \<Longrightarrow>
      I (sx_session sx')"
begin

lemma run_ng_keeps: "I (sx_session sx) \<Longrightarrow> run_ng env p sx = Some (x, sx') \<Longrightarrow> I (sx_session sx')"
proof (induction p arbitrary: sx)
  case (NgCallback w cb k)
  then obtain y sx1 where cb: "h3_callback env cb (sx\<lparr>sx_world := w\<rparr>) = Some (y, sx1)"
    and run: "run_ng env (k y (sx_world sx1)) sx1 = Some (x, sx')"
    by (auto split: option.splits)
  have "I (sx_session sx1)" using NgCallback.prems(1) callback_law [OF _ cb] by simp
  then show ?case using NgCallback.IH [of "k y" "k y (sx_world sx1)" sx1] run by simp
qed auto

lemma call_ng_keeps: "I (sx_session sx) \<Longrightarrow> call_ng env f sx = Some (x, sx') \<Longrightarrow> I (sx_session sx')"
  by (simp add: call_ng_def run_ng_keeps)

end

lemma hash_inv_frame: "cb_frame se se' \<Longrightarrow> hash_inv se' = hash_inv se"
  by (simp add: cb_frame_def hash_inv_def hash_ok_def blocked_count_def)

interpretation hash_cb: callback_invariant env hash_inv
  by unfold_locales (metis hash_inv_frame callback_frame)

interpretation frame_cb: callback_invariant env "cb_frame se"
  by unfold_locales (blast intro: cb_frame_trans callback_frame)

definition same_qstreams :: "h3_session \<Rightarrow> h3_session \<Rightarrow> bool" where
  "same_qstreams se se' \<longleftrightarrow>
     se_pending_free se' = se_pending_free se \<and>
     (\<forall>r. st_qstream (se_store se' r) = st_qstream (se_store se r))"

lemma owned_same: "same_qstreams se se' \<Longrightarrow> owned_ok se' = owned_ok se"
  by (simp add: same_qstreams_def owned_ok_def)

lemma owned_upd:
  "st_qstream (f (se_store se r)) = st_qstream (se_store se r) \<Longrightarrow> owned_ok (upd_stream r f se) = owned_ok se"
  by (rule owned_same) (simp add: same_qstreams_def)

lemma owned_upd_more:
  "h3_response.more (f (se_store se r)) = h3_response.more (se_store se r) \<Longrightarrow>
   owned_ok (upd_stream r f se) = owned_ok se"
  by (rule owned_upd) (rule more_fields)

lemma owned_release: "owned_ok se \<Longrightarrow> owned_ok (release_qstream r se)"
proof (cases "st_qstream (se_store se r)")
  case (Some q)
  assume "owned_ok se"
  then show ?thesis
    using Some by (auto simp: owned_ok_def release_qstream_def h3_session_queue_free_def upd_stream_def)
qed (simp add: release_qstream_def)

lemma recv_header_qstream: "st_qstream (recv_header_stream ng s token nk nv st) = st_qstream st"
  by (simp add: recv_header_stream_def set_pseudo_def Let_def)

lemma recv_data_qstream: "recv_data_stream conf bs st = Some st' \<Longrightarrow> st_qstream st' = st_qstream st"
  by (auto simp: recv_data_stream_def grow_body_def append_body_def Let_def split: if_splits bind_splits)

lemma close_qstream:
  fixes st :: h3_stream
  shows "st_qstream ((h3_stream_response_cancel_locked st)\<lparr>st_done := True\<rparr>) = st_qstream st"
  using more_fields(2) [OF cancel_more] by simp

lemma owned_done: "owned_ok (upd_stream r (st_done_update (\<lambda>_. True)) se) = owned_ok se"
  by (rule owned_upd) simp

interpretation owned_cb: callback_invariant env owned_ok
proof
  fix sx :: "'a h3_st" and cb x sx'
  assume I: "owned_ok (sx_session sx)" and cb: "h3_callback env cb sx = Some (x, sx')"
  show "owned_ok (sx_session sx')"
  proof (cases cb)
    case (CbRecvData sid bs ud)
    then show ?thesis using I cb
      by (auto simp: cb_int_def on_recv_data_def stream_of_def owned_upd recv_data_qstream
          split: option.splits bind_splits)
  next
    case (CbAckedStreamData sid n ud)
    then show ?thesis using I cb
      by (auto simp: cb_int_def on_acked_stream_data_def stream_of_def owned_upd_more ack_more
          split: option.splits bind_splits prod.splits)
  next
    case (CbReadData sid n ud)
    then show ?thesis using I cb
      by (auto simp: on_read_data_def stream_of_def owned_upd_more read_data_more
          split: option.splits bind_splits)
  qed (use I cb in \<open>auto simp: cb_int_def on_begin_headers_def on_recv_header_def on_end_headers_def
        on_stop_sending_def on_reset_stream_def on_stream_close_def Let_def owned_upd owned_upd_more
        cancel_more owned_release owned_done recv_header_qstream close_qstream split: option.splits\<close>)
qed

lemma stream_ok_flags [simp]:
  "stream_ok s (st\<lparr>st_done := b\<rparr>) = stream_ok s st"
  "stream_ok s (st\<lparr>st_body_complete := b\<rparr>) = stream_ok s st"
  "stream_ok s (st\<lparr>st_body_truncated := b\<rparr>) = stream_ok s st"
  "stream_ok s (st\<lparr>st_headers_complete := b\<rparr>) = stream_ok s st"
  "stream_ok s (st\<lparr>st_malformed := b\<rparr>) = stream_ok s st"
  "stream_ok s (st\<lparr>st_qstream := q\<rparr>) = stream_ok s st"
  "stream_ok s (st\<lparr>st_write_blocked := b\<rparr>) = stream_ok s st"
  "stream_ok s (st\<lparr>st_dispatched := b\<rparr>) = stream_ok s st"
  "stream_ok s (st\<lparr>st_worker_done := b\<rparr>) = stream_ok s st"
  "stream_ok s (st\<lparr>st_request_body_overflow := b\<rparr>) = stream_ok s st"
  "stream_ok s (st\<lparr>st_method := m\<rparr>) = stream_ok s st"
  "stream_ok s (st\<lparr>st_scheme := m\<rparr>) = stream_ok s st"
  "stream_ok s (st\<lparr>st_path := m\<rparr>) = stream_ok s st"
  "stream_ok s (st\<lparr>st_authority := m\<rparr>) = stream_ok s st"
  by (simp_all add: stream_ok_def body_ok_def headers_ok_def)

lemma stream_ok_begin: "stream_ok s st \<Longrightarrow> st_headers st = None \<Longrightarrow> stream_ok s (st\<lparr>st_headers := Some []\<rparr>)"
  by (auto simp: stream_ok_def body_ok_def headers_ok_def)

lemma stream_ok_pseudo: "stream_ok s st \<Longrightarrow> stream_ok s (set_pseudo ng token v st)"
  by (simp add: set_pseudo_def Let_def)

lemma stream_ok_recv_header:
  assumes "stream_ok s st"
  shows "stream_ok s (recv_header_stream ng s token nk nv st)"
proof (cases "IS_PSEUDO_TOKEN ng token \<or> st_headers st = None \<or> st_headers_too_large st")
  case True
  then show ?thesis using assms by (auto simp: recv_header_stream_def stream_ok_pseudo)
next
  case False
  then show ?thesis
    using assms by (auto simp: recv_header_stream_def Let_def stream_ok_def body_ok_def headers_ok_def)
qed

lemma grow_body_ok:
  assumes "body_ok conf st" and "grow_body conf needed st = Some st'"
  shows "body_ok conf st' \<and> st_request_body st' = st_request_body st \<and>
    st_request_body_len st' = st_request_body_len st \<and> headers_ok s st' = headers_ok s st"
  using assms by (auto simp: grow_body_def body_ok_def headers_ok_def Let_def not_less
      split: if_splits bind_splits)

lemma append_body_ok:
  assumes "body_ok conf st" and "append_body bs st = Some st'"
  shows "body_ok conf st' \<and> st_request_body st' = st_request_body st @ bs \<and> headers_ok s st' = headers_ok s st"
proof -
  have le: "unat (st_request_body_len st) + length bs \<le> unat (st_request_body_capacity st)"
    using assms(2) by (auto simp: append_body_def split: if_splits)
  have b: "unat (of_nat (length bs) :: size_t) = length bs"
    using le unat_size_t_bound [of "st_request_body_capacity st"]
    by (intro unat_of_nat_id) (simp del: unat_size_t_bound)
  have "unat (st_request_body_len st + of_nat (length bs)) = unat (st_request_body_len st) + length bs"
    using le b unat_size_t_bound [of "st_request_body_capacity st"]
    by (subst unat_plus_no_overflow) (simp_all del: unat_size_t_bound)
  then show ?thesis
    using assms le by (auto simp: append_body_def body_ok_def headers_ok_def word_le_nat_alt)
qed

lemma stream_ok_recv_data:
  assumes "stream_ok s st" and "recv_data_stream (module_config s) bs st = Some st'"
  shows "stream_ok s st'"
proof (cases "\<exists>st1. grow_body (module_config s) (st_request_body_len st + of_nat (length bs)) st = Some st1 \<and>
    append_body bs st1 = Some st'")
  case True
  then obtain st1 where g: "grow_body (module_config s) (st_request_body_len st + of_nat (length bs)) st = Some st1"
    and a: "append_body bs st1 = Some st'" by blast
  have ok: "body_ok (module_config s) st" "headers_ok s st" using assms(1) by (simp_all add: stream_ok_def)
  from grow_body_ok [OF ok(1) g, of s] append_body_ok [OF _ a, of _ s] ok(2)
  show ?thesis unfolding stream_ok_def by blast
next
  case False
  then show ?thesis
    using assms by (auto simp: recv_data_stream_def Let_def split: if_splits bind_splits)
qed

lemma streams_ok_upd:
  "streams_ok se \<Longrightarrow> stream_ok (se_server se) (f (se_store se r)) \<Longrightarrow> streams_ok (upd_stream r f se)"
  by (simp add: streams_ok_def)

lemma streams_ok_more:
  "streams_ok se \<Longrightarrow> h3_response.more (f (se_store se r)) = h3_response.more (se_store se r) \<Longrightarrow>
   streams_ok (upd_stream r f se)"
  by (rule streams_ok_upd) (auto simp: streams_ok_def stream_ok_more [of "f (se_store se r)"])

lemma streams_ok_recv_data:
  "streams_ok se \<Longrightarrow> recv_data_stream (se_conf se) bs (se_store se r) = Some st' \<Longrightarrow>
   streams_ok (upd_stream r (\<lambda>_. st') se)"
  using stream_ok_recv_data [of "se_server se" "se_store se r" bs st']
  by (simp add: streams_ok_def se_conf_def)

lemma streams_ok_cancel: "streams_ok se \<Longrightarrow> streams_ok (upd_stream r h3_stream_response_cancel_locked se)"
  by (simp add: streams_ok_more cancel_more)

lemma streams_ok_done:
  "streams_ok se \<Longrightarrow> streams_ok (upd_stream r (st_done_update (\<lambda>_. b)) se)"
  "streams_ok se \<Longrightarrow> streams_ok (upd_stream r (\<lambda>st. st\<lparr>st_done := b, st_body_complete := c, st_body_truncated := d\<rparr>) se)"
  by (simp_all add: streams_ok_def)

lemma streams_ok_release: "streams_ok se \<Longrightarrow> streams_ok (release_qstream r se)"
  by (auto simp: streams_ok_def release_qstream_def upd_stream_def h3_session_queue_free_def)

interpretation streams_cb: callback_invariant env streams_ok
proof
  fix sx :: "'a h3_st" and cb x sx'
  assume I: "streams_ok (sx_session sx)" and cb: "h3_callback env cb sx = Some (x, sx')"
  note each = I [unfolded streams_ok_def, rule_format]
  show "streams_ok (sx_session sx')"
  proof (cases cb)
    case (CbBeginHeaders sid ud)
    then show ?thesis using I cb
      by (auto simp: cb_int_def on_begin_headers_def Let_def each intro!: streams_ok_upd stream_ok_begin
          split: option.splits)
  next
    case (CbRecvHeader sid token nk nv ud)
    then show ?thesis using I cb
      by (auto simp: cb_int_def on_recv_header_def each intro!: streams_ok_upd stream_ok_recv_header
          split: option.splits)
  next
    case (CbEndHeaders sid fin ud)
    then show ?thesis using I cb
      by (auto simp: cb_int_def on_end_headers_def each Let_def intro!: streams_ok_upd split: option.splits)
  next
    case (CbRecvData sid bs ud)
    then show ?thesis using I cb
      by (auto simp: cb_int_def on_recv_data_def stream_of_def
          dest: streams_ok_recv_data split: option.splits bind_splits)
  next
    case (CbAckedStreamData sid n ud)
    then show ?thesis using I cb
      by (auto simp: cb_int_def on_acked_stream_data_def stream_of_def ack_more intro!: streams_ok_more
          split: option.splits bind_splits prod.splits)
  next
    case (CbStopSending sid e ud)
    then show ?thesis using I cb
      by (auto simp: cb_int_def on_stop_sending_def
          intro!: streams_ok_done streams_ok_release streams_ok_cancel split: option.splits)
  next
    case (CbResetStream sid e ud)
    then show ?thesis using I cb
      by (auto simp: cb_int_def on_reset_stream_def Let_def
          intro!: streams_ok_done streams_ok_cancel split: option.splits)
  next
    case (CbStreamClose sid e ud)
    then show ?thesis using I cb
      by (auto simp: cb_int_def on_stream_close_def each stream_ok_more [OF cancel_more]
          intro!: streams_ok_release streams_ok_upd split: option.splits)
  next
    case (CbReadData sid n ud)
    then show ?thesis using I cb
      by (auto simp: on_read_data_def stream_of_def read_data_more intro!: streams_ok_more
          split: option.splits bind_splits)
  qed
qed

section \<open>The request body\<close>

lemma grow_body_total:
  assumes ok: "body_ok conf st" and needed: "needed \<le> h3_max_request_body_size conf"
    and max: "unat (h3_max_request_body_size conf) \<le> 2 ^ 62" and len: "st_request_body_len st \<le> needed"
  shows "\<exists>st'. grow_body conf needed st = Some st' \<and> needed \<le> st_request_body_capacity st'"
proof (cases "needed > st_request_body_capacity st")
  case True
  let ?c = "if st_request_body_capacity st \<noteq> 0 then st_request_body_capacity st else H3_BODY_BUF_INIT_CAP"
  have "unat needed \<le> 2 ^ 63" using needed max by (simp add: word_le_nat_alt)
  moreover have "0 < ?c" by (simp add: H3_BODY_BUF_INIT_CAP_def word_neq_0_conv)
  ultimately obtain c where c: "grow_cap ?c needed = Some c" "needed \<le> c"
    using grow_cap_total [of ?c needed] by blast
  let ?n = "if c > h3_max_request_body_size conf then h3_max_request_body_size conf else c"
  have "needed \<le> ?n" using c(2) needed by simp
  moreover have "\<not> st_request_body_len st > ?n" using len \<open>needed \<le> ?n\<close> by auto
  ultimately show ?thesis using True c(1) by (simp add: grow_body_def Let_def)
qed (auto simp: grow_body_def)

lemma recv_data_total:
  assumes ok: "body_ok conf st" and max: "unat (h3_max_request_body_size conf) \<le> 2 ^ 62"
    and bs: "length bs < 2 ^ 63" and bidi: "st_is_bidi st" and live: "\<not> st_request_body_overflow st"
  shows "\<exists>st'. recv_data_stream conf bs st = Some st' \<and> body_ok conf st' \<and> st_is_bidi st' \<and>
     (if length (st_request_body st) + length bs \<le> unat (h3_max_request_body_size conf)
      then st_request_body st' = st_request_body st @ bs \<and> \<not> st_request_body_overflow st'
      else st_request_body st' = st_request_body st \<and> st_request_body_overflow st')"
proof -
  let ?n = "st_request_body_len st + of_nat (length bs)"
  have l: "unat (st_request_body_len st) = length (st_request_body st)" "unat (st_request_body_len st) \<le> 2 ^ 62"
    using ok max by (auto simp: body_ok_def word_le_nat_alt)
  have b: "unat (of_nat (length bs) :: size_t) = length bs" using bs by (intro unat_of_nat_id) simp
  have n: "unat ?n = length (st_request_body st) + length bs"
    using l b bs by (subst unat_plus_no_overflow) simp_all
  show ?thesis
  proof (cases "bs = [] \<or> ?n > h3_max_request_body_size conf")
    case True
    then show ?thesis
      using ok bidi live n l
      by (auto simp: recv_data_stream_def Let_def body_ok_def word_less_nat_alt word_le_nat_alt)
  next
    case False
    then have "?n \<le> h3_max_request_body_size conf" "st_request_body_len st \<le> ?n"
      using n l by (auto simp: word_le_nat_alt word_less_nat_alt)
    then obtain st1 where g: "grow_body conf ?n st = Some st1" and c: "?n \<le> st_request_body_capacity st1"
      using grow_body_total [OF ok _ max] by blast
    have g1: "body_ok conf st1" "st_request_body st1 = st_request_body st"
      "st_request_body_len st1 = st_request_body_len st"
      using grow_body_ok [OF ok g] by auto
    have flags: "st_is_bidi st1 = st_is_bidi st" "st_request_body_overflow st1 = st_request_body_overflow st"
      using g by (auto simp: grow_body_def Let_def split: if_splits bind_splits)
    have fits: "\<not> unat (st_request_body_len st1) + length bs > unat (st_request_body_capacity st1)"
      using c n g1 l by (simp add: word_le_nat_alt)
    then obtain st2 where a: "append_body bs st1 = Some st2" by (simp add: append_body_def)
    have "st_is_bidi st2 = st_is_bidi st1" "st_request_body_overflow st2 = st_request_body_overflow st1"
      using a by (auto simp: append_body_def split: if_splits)
    then show ?thesis
      using append_body_ok [OF g1(1) a] g a False bidi live flags g1 n
      by (auto simp: recv_data_stream_def Let_def word_less_nat_alt)
  qed
qed

lemma recv_data_overflowed:
  "st_request_body_overflow st \<Longrightarrow> recv_data_stream conf bs st = Some st"
  by (simp add: recv_data_stream_def)

lemma recv_body_overflowed: "st_request_body_overflow st \<Longrightarrow> recv_body conf bss st = Some st"
  by (induction bss) (simp_all add: recv_data_overflowed)

lemma body_ok_bound: "body_ok conf st \<Longrightarrow> length (st_request_body st) \<le> unat (h3_max_request_body_size conf)"
  unfolding body_ok_def word_le_nat_alt by linarith

lemma recv_body_total:
  assumes "body_ok conf st" and "unat (h3_max_request_body_size conf) \<le> 2 ^ 62"
    and "list_all (\<lambda>bs. length bs < 2 ^ 63) bss" and "st_is_bidi st" and "\<not> st_request_body_overflow st"
  shows "\<exists>st' k. recv_body conf bss st = Some st' \<and> body_ok conf st' \<and>
     st_request_body st' = st_request_body st @ concat (take k bss) \<and>
     (st_request_body_overflow st' \<longleftrightarrow>
        length (st_request_body st) + length (concat bss) > unat (h3_max_request_body_size conf)) \<and>
     (\<not> st_request_body_overflow st' \<longrightarrow> concat (take k bss) = concat bss)"
  using assms
proof (induction bss arbitrary: st)
  case (Cons bs bss)
  have len: "length bs < 2 ^ 63" "list_all (\<lambda>bs. length bs < 2 ^ 63) bss" using Cons.prems(3) by auto
  obtain st1 where st1: "recv_data_stream conf bs st = Some st1" "body_ok conf st1" "st_is_bidi st1"
    and r: "if length (st_request_body st) + length bs \<le> unat (h3_max_request_body_size conf)
      then st_request_body st1 = st_request_body st @ bs \<and> \<not> st_request_body_overflow st1
      else st_request_body st1 = st_request_body st \<and> st_request_body_overflow st1"
    using recv_data_total [OF Cons.prems(1,2) len(1) Cons.prems(4,5)] by blast
  show ?case
  proof (cases "length (st_request_body st) + length bs \<le> unat (h3_max_request_body_size conf)")
    case True
    then have s: "st_request_body st1 = st_request_body st @ bs" "\<not> st_request_body_overflow st1"
      using r by auto
    obtain st' k where "recv_body conf bss st1 = Some st'" "body_ok conf st'"
      "st_request_body st' = st_request_body st1 @ concat (take k bss)"
      "st_request_body_overflow st' \<longleftrightarrow>
        length (st_request_body st1) + length (concat bss) > unat (h3_max_request_body_size conf)"
      "\<not> st_request_body_overflow st' \<longrightarrow> concat (take k bss) = concat bss"
      using Cons.IH [OF st1(2) Cons.prems(2) len(2) st1(3) s(2)] by blast
    then show ?thesis using st1(1) s(1)
      by (intro exI [of _ st'] exI [of _ "Suc k"]) (simp add: add.assoc)
  next
    case False
    then have s: "st_request_body st1 = st_request_body st" "st_request_body_overflow st1"
      using r by auto
    show ?thesis
      using False st1 s recv_body_overflowed [OF s(2), of conf bss]
      by (intro exI [of _ st1] exI [of _ 0]) simp
  qed
qed (simp add: body_ok_bound not_less)

lemma recv_data_offset: "recv_data_stream conf bs st = Some st' \<Longrightarrow> st_request_body_offset st' = st_request_body_offset st"
  by (auto simp: recv_data_stream_def grow_body_def append_body_def Let_def split: if_splits bind_splits)

lemma recv_body_offset: "recv_body conf bss st = Some st' \<Longrightarrow> st_request_body_offset st' = st_request_body_offset st"
  by (induction bss arbitrary: st) (auto split: bind_splits dest: recv_data_offset)

text \<open>
  C8: The request body a worker sees is the concatenation of the DATA fragments the client sent,
  whatever their sizes, as long as it fits \<^verbatim>\<open>H3MaxRequestBodySize\<close>; a longer one sets the overflow
  flag and keeps only whole fragments within the limit. No copy leaves its buffer and the doubling
  loop always ends.
\<close>

theorem request_body_reassembled:
  assumes "body_ok conf st" and "unat (h3_max_request_body_size conf) \<le> 2 ^ 62"
    and "list_all (\<lambda>bs. length bs < 2 ^ 63) bss" and "st_is_bidi st" and "\<not> st_request_body_overflow st"
  shows "\<exists>st' k. recv_body conf bss st = Some st' \<and> body_ok conf st' \<and>
     st_request_body st' = st_request_body st @ concat (take k bss) \<and>
     (st_request_body_overflow st' \<longleftrightarrow>
        length (st_request_body st) + length (concat bss) > unat (h3_max_request_body_size conf)) \<and>
     (\<not> st_request_body_overflow st' \<longrightarrow> concat (take k bss) = concat bss)"
  by (rule recv_body_total [OF assms])

text \<open>A stream as \<open>track_stream\<close> makes it.\<close>

definition blank_stream :: "stream_id_t \<Rightarrow> size_t \<Rightarrow> h3_stream" where
  "blank_stream sid limit = h3_response.extend (fresh_response limit)
     \<lparr>st_id = sid, st_qstream = None, st_done = False, st_write_blocked = False,
      st_is_bidi = H3_SID_IS_BIDI sid, st_headers_complete = False, st_dispatched = False,
      st_worker_done = False, st_body_complete = False, st_body_truncated = False,
      st_request_body = [], st_request_body_len = 0, st_request_body_offset = 0,
      st_request_body_capacity = 0, st_request_body_overflow = False, st_malformed = False,
      st_header_count = 0, st_headers_too_large = False, st_method = None, st_scheme = None,
      st_authority = None, st_path = None, st_headers = None\<rparr>"

lemma blank_stream_ok: "stream_ok s (blank_stream sid limit)"
  by (simp add: blank_stream_def stream_ok_def body_ok_def headers_ok_def h3_response.defs fresh_response_def
      h3_stream.defs)

definition small_conf :: h3_server_conf where
  "small_conf = h3_create_server_config\<lparr>h3_max_request_body_size := 5\<rparr>"

theorem request_body_reassembled_witness:
  "(\<exists>st'. recv_body small_conf [[1, 2], [3]] (blank_stream 0 8) = Some st' \<and>
      st_request_body st' = [1, 2, 3] \<and> \<not> st_request_body_overflow st') \<and>
   (\<exists>st' k. recv_body small_conf [[1, 2], [3, 4, 5, 6]] (blank_stream 0 8) = Some st' \<and>
      st_request_body st' = concat (take k [[1, 2], [3, 4, 5, 6]]) \<and> st_request_body_overflow st')"
proof -
  let ?st = "blank_stream 0 8"
  have st: "body_ok small_conf ?st" "st_is_bidi ?st" "\<not> st_request_body_overflow ?st" "st_request_body ?st = []"
    "unat (h3_max_request_body_size small_conf) = 5"
    by (simp_all add: blank_stream_def body_ok_def h3_response.defs h3_stream.defs fresh_response_def
        H3_SID_IS_BIDI_def small_conf_def)
  note use_it = request_body_reassembled [OF st(1) _ _ st(2,3), unfolded st]
  from use_it [of "[[1, 2], [3]]"] use_it [of "[[1, 2], [3, 4, 5, 6]]"] show ?thesis by auto
qed

section \<open>Header limits\<close>

lemma recv_fields_too_large:
  assumes "list_all (\<lambda>(token, nk, nv). \<not> IS_PSEUDO_TOKEN ng token) fs" and "st_headers_too_large st"
  shows "recv_fields ng s fs st = st"
  using assms by (induction fs) (auto simp: recv_header_stream_def)

text \<open>
  With \<^verbatim>\<open>LimitRequestFields\<close> set to \<open>n\<close> and no oversized field, the header table holds exactly
  the first \<open>n\<close> fields the client sent, in order, and the stream is marked for a 431 answer exactly
  when it sent more.
\<close>

theorem header_count_limit:
  assumes "limit_req_fields s > 0" and "st_headers st = Some h" and "\<not> st_headers_too_large st"
    and "st_header_count st = int (length h)" and "int (length h) \<le> limit_req_fields s"
    and "list_all (\<lambda>(token, nk, nv). \<not> IS_PSEUDO_TOKEN ng token \<and> \<not> field_oversized s nk nv) fs"
  shows "st_headers (recv_fields ng s fs st) =
       Some (h @ map (\<lambda>(token, nk, nv). (apr_pstrndup nk, apr_pstrndup nv))
         (take (nat (limit_req_fields s) - length h) fs)) \<and>
     (st_headers_too_large (recv_fields ng s fs st) \<longleftrightarrow>
        int (length h) + int (length fs) > limit_req_fields s)"
  using assms
proof (induction fs arbitrary: st h)
  case (Cons f fs)
  obtain token nk nv where f: "f = (token, nk, nv)" by (cases f)
  have np: "list_all (\<lambda>(token, nk, nv). \<not> IS_PSEUDO_TOKEN ng token) fs"
    using Cons.prems(6) by (auto simp: list_all_iff)
  let ?kv = "(apr_pstrndup nk, apr_pstrndup nv)"
  let ?st = "recv_header_stream ng s token nk nv st"
  show ?case
  proof (cases "int (length h) < limit_req_fields s")
    case True
    have st: "?st = st\<lparr>st_header_count := int (length (h @ [?kv])), st_headers := Some (h @ [?kv])\<rparr>"
      using Cons.prems True by (simp add: f recv_header_stream_def Let_def)
    have "nat (limit_req_fields s) - length h = Suc (nat (limit_req_fields s) - length (h @ [?kv]))"
      using True by simp
    then show ?thesis
      using Cons.IH [of ?st "h @ [?kv]"] Cons.prems True by (auto simp: f st)
  next
    case False
    then have "st_headers_too_large ?st" "st_headers ?st = Some h"
      using Cons.prems by (simp_all add: f recv_header_stream_def Let_def)
    then show ?thesis
      using recv_fields_too_large [OF np] False Cons.prems by (simp add: f)
  qed
qed simp

text \<open>A concrete nghttp3 that accepts everything and issues no callback, over a clock.\<close>

definition quiet_ng :: "nat ngh3_api" where
  "quiet_ng =
     \<lparr>nghttp3_conn_read_stream = (\<lambda>sid bs fin w. NgDone w (int (length bs))),
      nghttp3_conn_writev_stream = (\<lambda>w. NgDone w (WritevOk (- 1) False [])),
      nghttp3_conn_add_write_offset = (\<lambda>sid n w. NgDone w ()),
      nghttp3_conn_add_ack_offset = (\<lambda>sid n w. NgDone w ()),
      nghttp3_conn_block_stream = (\<lambda>sid w. w), nghttp3_conn_unblock_stream = (\<lambda>sid w. w),
      nghttp3_conn_resume_stream = (\<lambda>sid w. w),
      nghttp3_conn_close_stream = (\<lambda>sid e w. NgDone w ()),
      nghttp3_conn_shutdown_stream_read = (\<lambda>sid w. NgDone w ()),
      nghttp3_conn_set_stream_user_data = (\<lambda>sid r w. w),
      nghttp3_conn_submit_response = (\<lambda>sid nva w. NgDone w 0),
      nghttp3_conn_submit_shutdown_notice = (\<lambda>w. NgDone w ()),
      nghttp3_conn_shutdown = (\<lambda>w. NgDone w ()), nghttp3_conn_is_drained2 = (\<lambda>w. True),
      nghttp3_conn_bind_control_stream = (\<lambda>sid w. (0, w)),
      nghttp3_conn_bind_qpack_streams = (\<lambda>e d w. (0, w)), nghttp3_conn_del = (\<lambda>w. w),
      nghttp3_err_infer_quic_app_error_code = (\<lambda>e. 258), nghttp3_strerror = (\<lambda>e. []),
      NGHTTP3_ERR_MALFORMED_HTTP_HEADER = - 2, NGHTTP3_ERR_MALFORMED_HTTP_MESSAGING = - 3,
      NGHTTP3_ERR_CALLBACK_FAILURE = - 1, NGHTTP3_H3_NO_ERROR = 256, NGHTTP3_H3_EXCESSIVE_LOAD = 263,
      NGHTTP3_QPACK_TOKEN__METHOD = 1, NGHTTP3_QPACK_TOKEN__SCHEME = 2, NGHTTP3_QPACK_TOKEN__PATH = 3,
      NGHTTP3_QPACK_TOKEN__AUTHORITY = 4,
      nghttp3_settings_default = \<lparr>max_field_section_size = 4611686018427387903, qpack_max_dtable_capacity = 0,
        qpack_blocked_streams = 0\<rparr>,
      nghttp3_conn_server_new = (\<lambda>s w. (0, w)), nghttp3_conn_set_max_concurrent_streams = (\<lambda>n w. w),
      nghttp3_conn_set_max_client_streams_bidi = (\<lambda>n w. w)\<rparr>"

definition small_server :: server_rec where
  "small_server = \<lparr>addrs = [], module_config = small_conf, limit_req_fields = 1,
     limit_req_fieldsize = 0, s_timeout = 0\<rparr>"

theorem header_count_limit_witness:
  "st_headers (recv_fields quiet_ng small_server [(9, [97], [98]), (9, [99], [100])]
       ((blank_stream 0 8)\<lparr>st_headers := Some []\<rparr>)) = Some [([97], [98])] \<and>
   st_headers_too_large (recv_fields quiet_ng small_server [(9, [97], [98]), (9, [99], [100])]
       ((blank_stream 0 8)\<lparr>st_headers := Some []\<rparr>))"
  using header_count_limit [of small_server "(blank_stream 0 8)\<lparr>st_headers := Some []\<rparr>" "[]" quiet_ng
      "[(9, [97], [98]), (9, [99], [100])]"]
  by (simp add: small_server_def blank_stream_def h3_response.defs h3_stream.defs fresh_response_def
      IS_PSEUDO_TOKEN_def quiet_ng_def field_oversized_def apr_pstrndup_def)

section \<open>Every call of nghttp3 is safe\<close>

definition responses_wf :: "h3_session \<Rightarrow> bool" where
  "responses_wf se \<longleftrightarrow> (\<forall>r. response_wf (se_store se r))"

lemma response_wf_flags [simp]:
  "response_wf (st\<lparr>st_done := b\<rparr>) = response_wf st"
  "response_wf (st\<lparr>st_body_complete := b\<rparr>) = response_wf st"
  "response_wf (st\<lparr>st_body_truncated := b\<rparr>) = response_wf st"
  "response_wf (st\<lparr>st_headers_complete := b\<rparr>) = response_wf st"
  "response_wf (st\<lparr>st_malformed := b\<rparr>) = response_wf st"
  "response_wf (st\<lparr>st_qstream := q\<rparr>) = response_wf st"
  "response_wf (st\<lparr>st_headers := h\<rparr>) = response_wf st"
  "response_wf (st\<lparr>st_header_count := i\<rparr>) = response_wf st"
  "response_wf (st\<lparr>st_headers_too_large := b\<rparr>) = response_wf st"
  "response_wf (st\<lparr>st_request_body_overflow := b\<rparr>) = response_wf st"
  "response_wf (st\<lparr>st_request_body_capacity := n\<rparr>) = response_wf st"
  "response_wf (st\<lparr>st_request_body := bs\<rparr>) = response_wf st"
  "response_wf (st\<lparr>st_request_body_len := n\<rparr>) = response_wf st"
  "response_wf (st\<lparr>st_method := m\<rparr>) = response_wf st"
  "response_wf (st\<lparr>st_scheme := m\<rparr>) = response_wf st"
  "response_wf (st\<lparr>st_path := m\<rparr>) = response_wf st"
  "response_wf (st\<lparr>st_authority := m\<rparr>) = response_wf st"
  "response_wf (h3_stream_response_cancel_locked st) = response_wf st"
  by (simp_all add: response_wf_def queue_simps) (simp_all add: queue_refines_def queue_rep_def)

lemma response_wf_recv_header: "response_wf (recv_header_stream ng s token nk nv st) = response_wf st"
  by (simp add: recv_header_stream_def set_pseudo_def Let_def)

lemma response_wf_recv_data: "recv_data_stream conf bs st = Some st' \<Longrightarrow> response_wf st' = response_wf st"
  by (auto simp: recv_data_stream_def grow_body_def append_body_def Let_def split: if_splits bind_splits)

lemma responses_wf_upd:
  "responses_wf se \<Longrightarrow> response_wf (f (se_store se r)) \<Longrightarrow> responses_wf (upd_stream r f se)"
  by (simp add: responses_wf_def)

lemma responses_wf_release: "responses_wf se \<Longrightarrow> responses_wf (release_qstream r se)"
  by (auto simp: responses_wf_def release_qstream_def upd_stream_def h3_session_queue_free_def)

lemma recv_data_returns:
  assumes "body_ok conf st" and "unat (h3_max_request_body_size conf) \<le> 2 ^ 62" and "length bs < 2 ^ 63"
  shows "\<exists>st'. recv_data_stream conf bs st = Some st'"
proof (cases "st_is_bidi st \<and> \<not> st_request_body_overflow st")
  case True
  then show ?thesis using recv_data_total [OF assms] by blast
next
  case False
  then show ?thesis by (auto simp: recv_data_stream_def)
qed

lemma read_data_returns:
  assumes "response_wf st"
  shows "\<exists>st' x. h3_session_read_data n st = Some (st', x) \<and> response_wf st'"
proof (cases "n > 0 \<and> \<not> response_cancelled st")
  case True
  obtain a where "queue_refines st a" using assms by (auto simp: response_wf_def)
  then obtain st' x where "h3_session_read_data n st = Some (st', x)" "read_post n a st st' x"
    using read_refines True by blast
  then show ?thesis by (auto simp: response_wf_def read_post_def split: read_data_result.splits)
next
  case False
  then show ?thesis using assms by (auto simp: h3_session_read_data_def)
qed

lemma ack_returns:
  assumes "ack_covered st n"
  shows "\<exists>st'. h3_stream_response_ack_locked now n st = Some st' \<and> response_wf st'"
  using assms ack_refines by (fastforce simp: ack_covered_def response_wf_def)

definition session_safe :: "h3_session \<Rightarrow> bool" where
  "session_safe se \<longleftrightarrow> streams_ok se \<and> responses_wf se \<and> hash_inv se \<and> owned_ok se"

lemma callback_returns:
  assumes ok: "streams_ok (sx_session sx)" "responses_wf (sx_session sx)"
    and max: "unat (h3_max_request_body_size (se_conf (sx_session sx))) \<le> 2 ^ 62"
    and con: "cb_contract cb (sx_session sx)"
  shows "\<exists>x sx'. h3_callback env cb sx = Some (x, sx') \<and> responses_wf (sx_session sx')"
proof -
  let ?se = "sx_session sx"
  have wf: "response_wf (se_store ?se r)" for r using ok(2) by (simp add: responses_wf_def)
  have body: "body_ok (se_conf ?se) (se_store ?se r)" for r
    using ok(1) by (simp add: streams_ok_def stream_ok_def se_conf_def)
  show ?thesis
  proof (cases cb)
    case (CbRecvData sid bs ud)
    show ?thesis
    proof (cases ud)
      case (Some r)
      have "length bs < 2 ^ 63" using con CbRecvData by (simp add: cb_contract_def)
      then obtain st where "recv_data_stream (se_conf ?se) bs (se_store ?se r) = Some st" "response_wf st"
        using recv_data_returns [OF body max] response_wf_recv_data wf by blast
      then show ?thesis
        using ok by (simp add: CbRecvData Some on_recv_data_def cb_int_def stream_of_def responses_wf_upd)
    qed (use ok in \<open>simp add: CbRecvData on_recv_data_def cb_int_def\<close>)
  next
    case (CbAckedStreamData sid n ud)
    show ?thesis
    proof (cases ud)
      case (Some r)
      obtain now w where t: "apr_time_now env (sx_world sx) = (now, w)" by force
      from con have "ack_covered (se_store ?se r) n" by (simp add: cb_contract_def CbAckedStreamData Some)
      then obtain st where "h3_stream_response_ack_locked now n (se_store ?se r) = Some st" "response_wf st"
        using ack_returns by blast
      then show ?thesis
        using ok by (simp add: CbAckedStreamData Some on_acked_stream_data_def cb_int_def stream_of_def t
            responses_wf_upd)
    qed (use ok in \<open>simp add: CbAckedStreamData on_acked_stream_data_def cb_int_def\<close>)
  next
    case (CbReadData sid n ud)
    show ?thesis
    proof (cases ud)
      case (Some r)
      obtain st x where "h3_session_read_data n (se_store ?se r) = Some (st, x)" "response_wf st"
        using read_data_returns [OF wf] by blast
      then show ?thesis
        using ok by (simp add: CbReadData Some on_read_data_def stream_of_def responses_wf_upd)
    qed (use ok in \<open>simp add: CbReadData on_read_data_def\<close>)
  qed (use ok wf in \<open>auto simp: cb_int_def on_begin_headers_def on_recv_header_def on_end_headers_def
        on_stop_sending_def on_reset_stream_def on_stream_close_def Let_def response_wf_recv_header
        responses_wf_def release_qstream_def split: option.splits\<close>)
qed

lemma run_ng_returns:
  assumes "session_safe (sx_session sx)" and "ng_contract env p sx"
    and "unat (h3_max_request_body_size (se_conf (sx_session sx))) \<le> 2 ^ 62"
  shows "\<exists>x sx'. run_ng env p sx = Some (x, sx') \<and> session_safe (sx_session sx')"
  using assms
proof (induction p arbitrary: sx)
  case (NgCallback w cb k)
  let ?sx = "sx\<lparr>sx_world := w\<rparr>"
  have safe: "streams_ok (sx_session sx)" "responses_wf (sx_session sx)" "hash_inv (sx_session sx)"
    "owned_ok (sx_session sx)" using NgCallback.prems(1) by (simp_all add: session_safe_def)
  obtain x sx1 where cb: "h3_callback env cb ?sx = Some (x, sx1)" and wf: "responses_wf (sx_session sx1)"
    using callback_returns [of ?sx cb env] safe NgCallback.prems(2,3) by auto
  have "session_safe (sx_session sx1)"
    using wf streams_cb.callback_law [OF _ cb] hash_cb.callback_law [OF _ cb] owned_cb.callback_law [OF _ cb] safe
    by (simp add: session_safe_def)
  moreover have "se_conf (sx_session sx1) = se_conf (sx_session sx)"
    using callback_frame [OF cb] by (simp add: cb_frame_def se_conf_def)
  ultimately show ?case
    using NgCallback.IH [of "k x" "k x (sx_world sx1)" sx1] cb NgCallback.prems(2,3) by simp
qed (simp add: session_safe_def)

text \<open>
  C5: Any call of nghttp3 that keeps nghttp3's promises about acknowledgements returns, whatever
  callbacks it issues and in whatever order: no callback reads or writes outside its memory or
  loops. Afterwards every request body and header table is within its limit, every response queue
  is intact, the hash and the count of write-blocked streams are consistent, and no QUIC stream
  object can be released twice.
\<close>

theorem nghttp3_call_safe:
  assumes "session_safe (sx_session sx)" and "ng_contract env (f (sx_world sx)) sx"
    and "unat (h3_max_request_body_size (se_conf (sx_session sx))) \<le> 2 ^ 62"
  shows "\<exists>x sx'. call_ng env f sx = Some (x, sx') \<and>
     streams_ok (sx_session sx') \<and> responses_wf (sx_session sx') \<and> hash_inv (sx_session sx') \<and>
     owned_ok (sx_session sx') \<and> cb_frame (sx_session sx) (sx_session sx')"
proof -
  obtain x sx' where r: "run_ng env (f (sx_world sx)) sx = Some (x, sx')" "session_safe (sx_session sx')"
    using run_ng_returns [OF assms] by blast
  then show ?thesis
    using frame_cb.run_ng_keeps [OF cb_frame_refl r(1)] by (simp add: call_ng_def session_safe_def)
qed

text \<open>A concrete environment: an idle QUIC library, the nghttp3 above, and a ticking clock.\<close>

definition quiet_ssl :: "nat ssl_api" where
  "quiet_ssl =
     \<lparr>SSL_write_ex = (\<lambda>q bs w. ((1, of_nat (length bs)), w)), SSL_get_error = (\<lambda>q rv w. SSL_ERROR_WANT_READ),
      SSL_stream_conclude = (\<lambda>q w. w), SSL_stream_write_buf_avail = (\<lambda>q w. Some 1),
      SSL_read_ex = (\<lambda>q n w. ((0, []), w)), SSL_get_stream_read_state = (\<lambda>q w. SSL_STREAM_STATE_OK),
      SSL_get_stream_write_state = (\<lambda>q w. SSL_STREAM_STATE_OK), SSL_stream_reset = (\<lambda>q e w. w),
      SSL_free = (\<lambda>q w. w), SSL_get_stream_id = (\<lambda>q w. of_nat q),
      SSL_set_blocking_mode = (\<lambda>c b w. (True, w)), SSL_set_default_stream_mode_none = (\<lambda>c w. w),
      SSL_set_incoming_stream_policy_accept = (\<lambda>c w. w), SSL_set_idle_timeout = (\<lambda>c t w. w),
      SSL_new_uni_stream = (\<lambda>c w. (Some (100 + w), Suc w)), SSL_accept_stream = (\<lambda>c w. (None, w)),
      SSL_is_init_finished = (\<lambda>c w. True), SSL_get_shutdown = (\<lambda>c w. 0),
      SSL_shutdown_ex = (\<lambda>c r e m w. (1, w)), SSL_shutdown = (\<lambda>c w. (1, w)),
      SSL_get_current_cipher = (\<lambda>c w. Some (128, 128, Some ''TLS_AES_128_GCM_SHA256'')),
      SSL_get_version = (\<lambda>c w. Some ''QUICv1''), SSL_session_reused = (\<lambda>c w. False),
      SSL_get_conn_close_info = (\<lambda>c w. None), ERR_last_error_string = (\<lambda>n w. take (n - 1) ''no error'')\<rparr>"

definition quiet_env :: "nat h3_env" where
  "quiet_env = \<lparr>env_ssl = quiet_ssl, env_ng = quiet_ng, apr_time_now = (\<lambda>w. (int w, Suc w)),
     apr_pool_create = (\<lambda>w. (True, w)), apr_thread_cond_create = (\<lambda>w. (True, w)),
     apr_hash_order = (\<lambda>h. h), apr_thread_mutex_create = (\<lambda>w. (APR_SUCCESS, w)),
     apr_allocator_create = (\<lambda>w. (True, w)), apr_pool_create_ex = (\<lambda>w. (True, w))\<rparr>"

definition sample_session :: h3_session where
  "sample_session =
     \<lparr>se_server = small_server, se_qconn = Some 50, se_ngh3 = True, se_streams = [(0, 0)],
      se_store = (\<lambda>r. blank_stream 0 8)(0 := (blank_stream 0 8)\<lparr>st_qstream := Some 7\<rparr>), se_next = 1,
      se_aborted = False, se_blocked_streams = 0, se_ngh3_dead = False, se_abort_quic_error_code = 0,
      se_abort_reason = None, se_pending_free = [], se_stream_read_buf_size = 0,
      se_stream_drain_cursor = 0, se_control_streams_created = True, se_goaway_sent = False,
      se_goaway_deadline = 0, se_last_activity = 0, se_stream_errors = 0, se_active_tasks = 0,
      se_pending = (0, Some 0), se_tls_env = h3_tls_env_zero, se_c = None\<rparr>"

definition sample_st :: "nat h3_st" where
  "sample_st = \<lparr>sx_world = 0, sx_session = sample_session, sx_counters = Some (0, 0)\<rparr>"

lemma blank_stream_fields [simp]:
  "st_id (blank_stream sid l) = sid" "st_qstream (blank_stream sid l) = None"
  "st_write_blocked (blank_stream sid l) = False" "st_done (blank_stream sid l) = False"
  "st_is_bidi (blank_stream sid l) = H3_SID_IS_BIDI sid" "st_headers (blank_stream sid l) = None"
  "st_dispatched (blank_stream sid l) = False" "st_worker_done (blank_stream sid l) = False"
  "st_headers_complete (blank_stream sid l) = False" "st_body_complete (blank_stream sid l) = False"
  "st_malformed (blank_stream sid l) = False" "st_headers_too_large (blank_stream sid l) = False"
  "st_request_body (blank_stream sid l) = []" "st_request_body_len (blank_stream sid l) = 0"
  "st_request_body_offset (blank_stream sid l) = 0" "st_request_body_overflow (blank_stream sid l) = False"
  "response_submitted (blank_stream sid l) = False" "response_cancelled (blank_stream sid l) = False"
  "response_complete (blank_stream sid l) = False" "response_buffered (blank_stream sid l) = 0"
  "response_buffer_limit (blank_stream sid l) = l"
  by (simp_all add: blank_stream_def h3_response.defs h3_stream.defs fresh_response_def)

lemma blank_stream_wf [simp]: "response_wf (blank_stream sid l)"
proof -
  have "queue_refines (blank_stream sid l) spec_empty"
    by (simp add: queue_refines_def queue_rep_def blank_stream_def h3_response.defs fresh_response_def
        spec_empty_def)
  then show ?thesis by (auto simp: response_wf_def)
qed

lemma sample_session_safe: "session_safe sample_session"
  by (auto simp: session_safe_def sample_session_def streams_ok_def responses_wf_def hash_inv_def
      hash_ok_def blocked_count_def owned_ok_def blank_stream_ok)

definition sample_call :: "nat \<Rightarrow> (nat, int) ngh3_prog" where
  "sample_call w =
     NgCallback w (CbBeginHeaders 0 None) (\<lambda>x w.
       NgCallback w (CbRecvHeader 0 1 [] [71, 69, 84] (Some 0)) (\<lambda>x w.
         NgCallback w (CbRecvData 0 [1, 2, 3] (Some 0)) (\<lambda>x w.
           NgCallback w (CbReadData 0 4 (Some 0)) (\<lambda>x w.
             NgCallback w (CbStreamClose 0 0 (Some 0)) (\<lambda>x w. NgDone w 3)))))"

lemma sample_call_contract: "ng_contract quiet_env (sample_call 0) sample_st"
  by (simp add: sample_call_def cb_contract_def split: option.split)

theorem nghttp3_call_safe_witness:
  "\<exists>sx'. call_ng quiet_env sample_call sample_st = Some (3, sx') \<and> owned_ok (sx_session sx') \<and>
     hash_inv (sx_session sx')"
proof -
  have max: "unat (h3_max_request_body_size (se_conf (sx_session sample_st))) \<le> 2 ^ 62"
    by (simp add: sample_st_def sample_session_def se_conf_def small_server_def small_conf_def)
  have res: "run_ng quiet_env (sample_call w) sx = Some (x, sx') \<Longrightarrow> x = 3" for w sx x sx'
    by (auto simp: sample_call_def split: option.splits)
  have "session_safe (sx_session sample_st)" "sx_world sample_st = 0"
    by (simp_all add: sample_st_def sample_session_safe)
  with nghttp3_call_safe [of sample_st quiet_env sample_call] sample_call_contract max res
  show ?thesis by (fastforce simp: call_ng_def)
qed

end
