(* ===== verification/H3_Stream.thy ===== *)
theory H3_Stream
  imports H3_Callbacks
begin

text \<open>
  Moving bytes between QUIC streams and nghttp3 (\<^verbatim>\<open>h3_stream.c\<close>): flushing nghttp3's output with
  back-pressure, tracking new streams, feeding received bytes with a read budget per pass,
  rejecting malformed requests, and reclaiming finished streams. All of it runs on the event
  thread under the session lock. \<^const>\<open>None\<close> stands for undefined behaviour, \<^verbatim>\<open>abort()\<close>, or a loop
  that does not end.
\<close>

section \<open>Flushing\<close>

definition H3_STREAM_DRAIN_READ_BUDGET :: nat where
  "H3_STREAM_DRAIN_READ_BUDGET = 256"

definition H3_STREAM_DRAIN_BYTE_BUDGET :: size_t where
  "H3_STREAM_DRAIN_BYTE_BUDGET = 1024 * 1024"

definition h3_stream_find :: "h3_session \<Rightarrow> stream_id_t \<Rightarrow> stream_ref option" where
  "h3_stream_find se sid = map_of (se_streams se) sid"

definition note_unblocked :: "stream_ref \<Rightarrow> h3_session \<Rightarrow> h3_session" where
  "note_unblocked r se =
     (upd_stream r (\<lambda>st. st\<lparr>st_write_blocked := False\<rparr>) se)\<lparr>se_blocked_streams := se_blocked_streams se - 1\<rparr>"

definition note_blocked :: "stream_ref \<Rightarrow> h3_session \<Rightarrow> h3_session" where
  "note_blocked r se =
     (upd_stream r (\<lambda>st. st\<lparr>st_write_blocked := True\<rparr>) se)\<lparr>se_blocked_streams := se_blocked_streams se + 1\<rparr>"

fun unblock_each :: "'w h3_env \<Rightarrow> (stream_id_t \<times> stream_ref) list \<Rightarrow> 'w h3_st \<Rightarrow> 'w h3_st" where
  "unblock_each env [] sx = sx"
| "unblock_each env ((sid, r) # es) sx =
     (let h3s = stream_of r sx in
      if \<not> st_write_blocked h3s then unblock_each env es sx
      else if st_qstream h3s \<noteq> None \<and> h3q_stream_is_write_blocked (env_ssl env) (st_qstream h3s) (sx_world sx)
      then unblock_each env es sx
      else unblock_each env es
             (on_world (nghttp3_conn_unblock_stream (env_ng env) (st_id h3s))
               (on_session (note_unblocked r) sx)))"

definition unblock_writable_streams :: "'w h3_env \<Rightarrow> 'w h3_st \<Rightarrow> 'w h3_st" where
  "unblock_writable_streams env sx =
     (if se_blocked_streams (sx_session sx) \<le> 0 then sx
      else unblock_each env (apr_hash_order env (se_streams (sx_session sx))) sx)"

definition mark_ngh3_dead :: "'w h3_env \<Rightarrow> int \<Rightarrow> h3_session \<Rightarrow> h3_session" where
  "mark_ngh3_dead env liberr se =
     se\<lparr>se_ngh3_dead := True,
        se_abort_quic_error_code := nghttp3_err_infer_quic_app_error_code (env_ng env) liberr,
        se_abort_reason := Some (nghttp3_strerror (env_ng env) liberr)\<rparr>"

definition touch_activity :: "'w h3_env \<Rightarrow> 'w h3_st \<Rightarrow> 'w h3_st" where
  "touch_activity env sx =
     (case apr_time_now env (sx_world sx) of
        (now, w) \<Rightarrow> on_session (\<lambda>se. se\<lparr>se_last_activity := now\<rparr>) (sx\<lparr>sx_world := w\<rparr>))"

text \<open>\<^verbatim>\<open>nghttp3_conn_add_write_offset\<close> then \<^verbatim>\<open>nghttp3_conn_add_ack_offset\<close>, results ignored.\<close>

definition add_offsets :: "'w h3_env \<Rightarrow> stream_id_t \<Rightarrow> size_t \<Rightarrow> 'w h3_st \<Rightarrow> 'w h3_st option" where
  "add_offsets env sid n sx = do {
     (_, sx) \<leftarrow> call_ng env (nghttp3_conn_add_write_offset (env_ng env) sid n) sx;
     (_, sx) \<leftarrow> call_ng env (nghttp3_conn_add_ack_offset (env_ng env) sid n) sx;
     Some sx
   }"

definition flush_one ::
  "'w h3_env \<Rightarrow> stream_id_t \<Rightarrow> bool \<Rightarrow> byte list list \<Rightarrow> 'w h3_st \<Rightarrow> 'w h3_st option" where
  "flush_one env sid fin vec sx =
     (let expected = vec_total vec in
      case h3_stream_find (sx_session sx) sid of
        None \<Rightarrow> add_offsets env sid expected sx
      | Some r \<Rightarrow>
          (case st_qstream (stream_of r sx) of
             None \<Rightarrow> add_offsets env sid expected sx
           | Some q \<Rightarrow>
               let (res, w) = h3q_stream_write (env_ssl env) q vec fin (sx_world sx);
                   sx = sx\<lparr>sx_world := w\<rparr>;
                   sx = (if wr_accepted res > 0
                         then count_written (wr_accepted res) (touch_activity env sx) else sx)
               in if wr_broken res then add_offsets env sid expected sx
                  else do {
                    sx \<leftarrow> add_offsets env sid (wr_accepted res) sx;
                    Some (if wr_blocked res \<and> \<not> st_write_blocked (stream_of r sx)
                          then on_world (nghttp3_conn_block_stream (env_ng env) sid)
                                 (on_session (note_blocked r) sx)
                          else sx)
                  }))"

partial_function (option) flush_loop :: "'w h3_env \<Rightarrow> 'w h3_st \<Rightarrow> 'w h3_st option" where
  "flush_loop env sx =
     (case call_ng env (nghttp3_conn_writev_stream (env_ng env)) sx of
        None \<Rightarrow> None
      | Some (res, sx) \<Rightarrow>
          (case res of
             WritevError err sid \<Rightarrow> Some (on_session (mark_ngh3_dead env err) sx)
           | WritevOk sid fin vec \<Rightarrow>
               if vec = [] \<and> sid < 0 then Some sx
               else (case flush_one env sid fin vec sx of
                       None \<Rightarrow> None
                     | Some sx \<Rightarrow> flush_loop env sx)))"

text \<open>\<^verbatim>\<open>apr_array_pop\<close> until the array is empty: the last entry first.\<close>

definition free_pending :: "'w h3_env \<Rightarrow> 'w h3_st \<Rightarrow> 'w h3_st" where
  "free_pending env sx =
     on_session (\<lambda>se. se\<lparr>se_pending_free := []\<rparr>)
       (on_world (fold (\<lambda>q. h3q_stream_free (env_ssl env) (Some q)) (rev (se_pending_free (sx_session sx)))) sx)"

definition flush_nghttp3 :: "'w h3_env \<Rightarrow> 'w h3_st \<Rightarrow> 'w h3_st option" where
  "flush_nghttp3 env sx =
     (if se_ngh3_dead (sx_session sx) then Some sx
      else map_option (free_pending env) (flush_loop env (unblock_writable_streams env sx)))"

section \<open>Tracking\<close>

definition h3_zero_stream :: "stream_id_t \<Rightarrow> qptr \<Rightarrow> size_t \<Rightarrow> apr_time_t \<Rightarrow> h3_stream" where
  "h3_zero_stream sid q limit now =
     (blank_stream sid limit)\<lparr>st_qstream := Some q, response_progress_at := now\<rparr>"

definition stream_limit :: "h3_server_conf \<Rightarrow> size_t" where
  "stream_limit conf =
     (if h3_stream_buffer_size conf \<noteq> 0 then h3_stream_buffer_size conf
      else of_nat H3_STREAM_BUFFER_SIZE_DEFAULT)"

definition insert_stream :: "stream_id_t \<Rightarrow> qptr \<Rightarrow> apr_time_t \<Rightarrow> h3_session \<Rightarrow> h3_session" where
  "insert_stream sid q now se =
     se\<lparr>se_store := (se_store se)(se_next se := h3_zero_stream sid q (stream_limit (se_conf se)) now),
        se_next := Suc (se_next se), se_streams := se_streams se @ [(sid, se_next se)]\<rparr>"

text \<open>
  The result is the stream, or NULL when the condition variable cannot be made; a failing pool
  aborts.
\<close>

definition track_stream ::
  "'w h3_env \<Rightarrow> stream_id_t \<Rightarrow> qptr \<Rightarrow> 'w h3_st \<Rightarrow> (stream_ref option \<times> 'w h3_st) option" where
  "track_stream env sid qstream sx =
     (case h3_stream_find (sx_session sx) sid of
        Some r \<Rightarrow> Some (Some r, on_session (upd_stream r (\<lambda>st. st\<lparr>st_qstream := Some qstream\<rparr>)) sx)
      | None \<Rightarrow>
          (case apr_pool_create env (sx_world sx) of
             (False, w) \<Rightarrow> None
           | (True, w) \<Rightarrow>
               let (now, w) = apr_time_now env w;
                   (ok, w) = apr_thread_cond_create env w;
                   sx = sx\<lparr>sx_world := w\<rparr>
               in if \<not> ok then Some (None, sx)
                  else Some (Some (se_next (sx_session sx)), on_session (insert_stream sid qstream now) sx)))"

section \<open>Rejecting and finishing requests\<close>

definition is_malformed_request_error :: "'w h3_env \<Rightarrow> int \<Rightarrow> bool" where
  "is_malformed_request_error env liberr \<longleftrightarrow>
     liberr = NGHTTP3_ERR_MALFORMED_HTTP_HEADER (env_ng env) \<or>
     liberr = NGHTTP3_ERR_MALFORMED_HTTP_MESSAGING (env_ng env)"

definition count_stream_error :: "'w h3_env \<Rightarrow> h3_session \<Rightarrow> h3_session" where
  "count_stream_error env se =
     (let se = se\<lparr>se_stream_errors := se_stream_errors se + 1\<rparr>
      in if se_stream_errors se > h3_max_stream_errors (se_conf se)
         then se\<lparr>se_abort_quic_error_code := NGHTTP3_H3_EXCESSIVE_LOAD (env_ng env),
                 se_abort_reason := Some ''too many malformed requests'',
                 se_ngh3_dead := True\<rparr>
         else se)"

definition reject_malformed_stream :: "'w h3_env \<Rightarrow> stream_ref \<Rightarrow> int \<Rightarrow> 'w h3_st \<Rightarrow> 'w h3_st option" where
  "reject_malformed_stream env r liberr sx =
     (let ng = env_ng env;
          app_error_code = nghttp3_err_infer_quic_app_error_code ng liberr;
          sid = st_id (stream_of r sx);
          sx = on_world (h3q_stream_reset (env_ssl env) (st_qstream (stream_of r sx)) app_error_code) sx
      in do {
        (_, sx) \<leftarrow> call_ng env (nghttp3_conn_shutdown_stream_read ng sid) sx;
        (_, sx) \<leftarrow> call_ng env (nghttp3_conn_close_stream ng sid app_error_code) sx;
        Some (on_session (\<lambda>se. count_stream_error env
                (upd_stream r (\<lambda>st. st\<lparr>st_done := True, st_body_complete := True\<rparr>) se)) sx)
      })"

definition feed_stream_fin :: "'w h3_env \<Rightarrow> stream_ref \<Rightarrow> 'w h3_st \<Rightarrow> 'w h3_st option" where
  "feed_stream_fin env r sx =
     (let ng = env_ng env in
      do {
        (consumed, sx) \<leftarrow> call_ng env (nghttp3_conn_read_stream ng (st_id (stream_of r sx)) [] True) sx;
        sx \<leftarrow> (if consumed < 0
               then if is_malformed_request_error env consumed
                    then reject_malformed_stream env r consumed sx
                    else Some (on_session (mark_ngh3_dead env consumed) sx)
               else if st_malformed (stream_of r sx) \<and> \<not> st_done (stream_of r sx)
               then reject_malformed_stream env r (NGHTTP3_ERR_MALFORMED_HTTP_HEADER ng) sx
               else Some sx);
        Some (on_session (upd_stream r (\<lambda>st. st\<lparr>st_body_complete := True\<rparr>)) sx)
      })"

text \<open>A run of malformed requests on one connection.\<close>

fun reject_all :: "'w h3_env \<Rightarrow> (stream_ref \<times> int) list \<Rightarrow> 'w h3_st \<Rightarrow> 'w h3_st option" where
  "reject_all env [] sx = Some sx"
| "reject_all env ((r, liberr) # es) sx =
     Option.bind (reject_malformed_stream env r liberr sx) (reject_all env es)"

section \<open>Draining\<close>

text \<open>
  The budget of one pass: reads and bytes left, and whether data was read. \<open>drain_loop\<close> is the
  read loop of \<^verbatim>\<open>drain_one_stream\<close>; its flag is true when the function returns 0 at once (a
  rejected request) instead of leaving the loop. Every iteration that continues takes one read off
  the budget, so the recursion is on that count.
\<close>

record drain_budget =
  reads_remaining :: nat
  bytes_remaining :: size_t
  data_read :: bool

definition spend_read :: "size_t \<Rightarrow> drain_budget \<Rightarrow> drain_budget" where
  "spend_read n b =
     b\<lparr>reads_remaining := reads_remaining b - 1, bytes_remaining := bytes_remaining b - n, data_read := True\<rparr>"

definition set_pending :: "stream_id_t \<times> stream_ref option \<Rightarrow> h3_session \<Rightarrow> h3_session" where
  "set_pending p se = se\<lparr>se_pending := p\<rparr>"

text \<open>
  Handing \<open>bs\<close>, just read, to nghttp3. The result says how the loop goes on: \<^const>\<open>None\<close> to
  continue, \<open>Some True\<close> to return 0, \<open>Some False\<close> to break.
\<close>

definition feed_data ::
  "'w h3_env \<Rightarrow> stream_ref \<Rightarrow> byte list \<Rightarrow> 'w h3_st \<Rightarrow> (bool option \<times> 'w h3_st) option" where
  "feed_data env r bs sx =
     (let ng = env_ng env;
          sx = count_read (of_nat (length bs)) sx;
          sx = on_session (set_pending (st_id (stream_of r sx), Some r)) sx
      in do {
        (consumed, sx) \<leftarrow> call_ng env (nghttp3_conn_read_stream ng (st_id (stream_of r sx)) bs False) sx;
        let sx = on_session (set_pending (- 1, None)) sx;
        (if consumed < 0
         then if is_malformed_request_error env consumed
              then do { sx \<leftarrow> reject_malformed_stream env r consumed sx; Some (Some True, sx) }
              else Some (Some False, on_session (\<lambda>se.
                     upd_stream r (\<lambda>st. st\<lparr>st_done := True\<rparr>) (mark_ngh3_dead env consumed se)) sx)
         else if st_malformed (stream_of r sx) \<and> \<not> st_done (stream_of r sx)
         then do {
           sx \<leftarrow> reject_malformed_stream env r (NGHTTP3_ERR_MALFORMED_HTTP_HEADER ng) sx;
           Some (Some True, sx)
         }
         else if st_done (stream_of r sx) then Some (Some False, sx)
         else Some (None, sx))
      })"

fun drain_loop ::
  "'w h3_env \<Rightarrow> stream_ref \<Rightarrow> size_t \<Rightarrow> nat \<Rightarrow> drain_budget \<Rightarrow> 'w h3_st \<Rightarrow>
   ((bool \<times> drain_budget) \<times> 'w h3_st) option" where
  "drain_loop env r buf_size 0 b sx = Some ((False, b), sx)"
| "drain_loop env r buf_size (Suc n) b sx =
     (if \<not> bytes_remaining b > 0 then Some ((False, b), sx)
      else case st_qstream (stream_of r sx) of
        None \<Rightarrow> Some ((False, b), on_session (upd_stream r (\<lambda>st. st\<lparr>st_done := True\<rparr>)) sx)
      | Some q \<Rightarrow>
          let read_size = (if buf_size < bytes_remaining b then buf_size else bytes_remaining b);
              ((ok, bs, fin), w) = h3q_stream_read (env_ssl env) q read_size (sx_world sx);
              sx = sx\<lparr>sx_world := w\<rparr>
          in if ok \<and> bs \<noteq> []
             then do {
               (next, sx) \<leftarrow> feed_data env r bs sx;
               let b = spend_read (of_nat (length bs)) b;
               (case next of
                  None \<Rightarrow> drain_loop env r buf_size n b sx
                | Some ret0 \<Rightarrow> Some ((ret0, b), sx))
             }
             else if fin then do { sx \<leftarrow> feed_stream_fin env r sx; Some ((False, b), sx) }
             else Some ((False, b), sx))"

definition request_ready :: "h3_stream \<Rightarrow> bool" where
  "request_ready st \<longleftrightarrow>
     st_is_bidi st \<and> \<not> st_done st \<and> st_headers_complete st \<and> st_body_complete st \<and> \<not> st_dispatched st"

definition ensure_read_buf :: "h3_session \<Rightarrow> h3_session" where
  "ensure_read_buf se =
     (if se_stream_read_buf_size se = 0 \<or> se_stream_read_buf_size se < h3_stream_buffer_size (se_conf se)
      then se\<lparr>se_stream_read_buf_size := h3_stream_buffer_size (se_conf se)\<rparr> else se)"

text \<open>The branch of \<^verbatim>\<open>drain_one_stream\<close> for a stream whose receiving side is finished.\<close>

definition drain_finished :: "'w h3_env \<Rightarrow> stream_ref \<Rightarrow> bool \<Rightarrow> 'w h3_st \<Rightarrow> 'w h3_st option" where
  "drain_finished env r write_finished sx = do {
     sx \<leftarrow> (if \<not> st_body_complete (stream_of r sx) then feed_stream_fin env r sx else Some sx);
     (if st_qstream (stream_of r sx) \<noteq> None \<and> write_finished
      then map_option snd (call_ng env (nghttp3_conn_close_stream (env_ng env)
             (st_id (stream_of r sx)) (NGHTTP3_H3_NO_ERROR (env_ng env))) sx)
      else Some sx)
   }"

definition drain_one_stream ::
  "'w h3_env \<Rightarrow> stream_ref \<Rightarrow> drain_budget \<Rightarrow> 'w h3_st \<Rightarrow> ((bool \<times> drain_budget) \<times> 'w h3_st) option" where
  "drain_one_stream env r b sx =
     (let buf_size = h3_stream_buffer_size (se_conf (sx_session sx));
          sx = on_session ensure_read_buf sx;
          (read_finished, write_finished) =
            (case st_qstream (stream_of r sx) of
               None \<Rightarrow> (False, False)
             | Some q \<Rightarrow> h3q_stream_is_read_finished (env_ssl env) q (sx_world sx))
      in if read_finished
         then do {
           sx \<leftarrow> drain_finished env r write_finished sx;
           Some ((request_ready (stream_of r sx), b), sx)
         }
         else do {
           ((ret0, b), sx) \<leftarrow> drain_loop env r buf_size (reads_remaining b) b sx;
           Some ((\<not> ret0 \<and> request_ready (stream_of r sx), b), sx)
         })"

text \<open>
  The round-robin loop of \<^verbatim>\<open>drain_ready_streams\<close> over the offsets still to visit; \<open>start\<close> is
  where the cursor points. It gives the streams ready for dispatch.
\<close>

fun drain_pass ::
  "'w h3_env \<Rightarrow> stream_ref list \<Rightarrow> nat \<Rightarrow> nat list \<Rightarrow> drain_budget \<Rightarrow> 'w h3_st \<Rightarrow>
   ((stream_ref list \<times> drain_budget) \<times> 'w h3_st) option" where
  "drain_pass env snapshot start [] b sx = Some (([], b), sx)"
| "drain_pass env snapshot start (offset # offsets) b sx =
     (if se_ngh3_dead (sx_session sx) then Some (([], b), sx)
      else
        let i = (start + offset) mod length snapshot;
            r = snapshot ! i
        in if st_done (stream_of r sx) \<or> st_qstream (stream_of r sx) = None
           then drain_pass env snapshot start offsets b sx
           else if H3_SID_IS_SERVER (st_id (stream_of r sx))
           then drain_pass env snapshot start offsets b sx
           else do {
             ((ready, b), sx) \<leftarrow> drain_one_stream env r b sx;
             let completed = (if ready \<and> \<not> se_ngh3_dead (sx_session sx) then [r] else []);
             (if reads_remaining b = 0 \<or> bytes_remaining b = 0
              then Some ((completed, b), on_session (\<lambda>se.
                     se\<lparr>se_stream_drain_cursor := of_nat ((i + 1) mod length snapshot)\<rparr>) sx)
              else do {
                ((rest, b), sx) \<leftarrow> drain_pass env snapshot start offsets b sx;
                Some ((completed @ rest, b), sx)
              })
           })"

definition reclaimable :: "h3_stream \<Rightarrow> bool" where
  "reclaimable st \<longleftrightarrow>
     st_is_bidi st \<and> \<not> H3_SID_IS_SERVER (st_id st) \<and>
     st_done st \<and> st_qstream st = None \<and> st_dispatched st \<and> st_worker_done st"

definition reclaim_stream :: "stream_ref \<Rightarrow> h3_session \<Rightarrow> h3_session option" where
  "reclaim_stream r se =
     (let se = (if st_write_blocked (se_store se r) then note_unblocked r se else se);
          se = se\<lparr>se_streams := filter (\<lambda>e. fst e \<noteq> st_id (se_store se r)) (se_streams se)\<rparr>
      in map_option (\<lambda>st. upd_stream r (\<lambda>_. st) se)
           (h3_stream_response_cleanup_locked (se_store se r)))"

fun reclaim_pass :: "stream_ref list \<Rightarrow> h3_session \<Rightarrow> h3_session option" where
  "reclaim_pass [] se = Some se"
| "reclaim_pass (r # rs) se =
     (if reclaimable (se_store se r) then Option.bind (reclaim_stream r se) (reclaim_pass rs)
      else reclaim_pass rs se)"

definition full_budget :: drain_budget where
  "full_budget = \<lparr>reads_remaining = H3_STREAM_DRAIN_READ_BUDGET,
     bytes_remaining = H3_STREAM_DRAIN_BYTE_BUDGET, data_read = False\<rparr>"

definition drain_ready_streams ::
  "'w h3_env \<Rightarrow> 'w h3_st \<Rightarrow> ((stream_ref list \<times> bool) \<times> 'w h3_st) option" where
  "drain_ready_streams env sx =
     (let total_streams = length (se_streams (sx_session sx));
          walk = map snd (apr_hash_order env (se_streams (sx_session sx)));
          snapshot = take (total_streams + 100) walk;
          sx = (if length walk > total_streams + 100
                then on_session (\<lambda>se. se\<lparr>se_aborted := True\<rparr>) sx else sx);
          start = (if snapshot \<noteq> []
                   then unat (se_stream_drain_cursor (sx_session sx)) mod length snapshot else 0)
      in do {
        ((completed, b), sx) \<leftarrow> drain_pass env snapshot start [0..<length snapshot] full_budget sx;
        se \<leftarrow> reclaim_pass snapshot (sx_session sx);
        Some ((completed, data_read b), sx\<lparr>sx_session := se\<rparr>)
      })"

section \<open>Invariants of the event thread's passes\<close>

text \<open>
  The updates the code above makes besides callbacks, as laws: a property of the session that
  callbacks keep and these updates keep holds after every flush and every drain.
\<close>

definition aux_eq :: "h3_session \<Rightarrow> h3_session \<Rightarrow> bool" where
  "aux_eq se se' \<longleftrightarrow>
     se_store se' = se_store se \<and> se_streams se' = se_streams se \<and> se_next se' = se_next se \<and>
     se_blocked_streams se' = se_blocked_streams se \<and> se_pending_free se' = se_pending_free se \<and>
     se_server se' = se_server se \<and> se_active_tasks se' = se_active_tasks se \<and> se_c se' = se_c se \<and>
     se_qconn se' = se_qconn se \<and> se_ngh3 se' = se_ngh3 se \<and> se_goaway_deadline se' = se_goaway_deadline se"

locale session_steps = callback_invariant +
  assumes aux_law: "I se \<Longrightarrow> aux_eq se se' \<Longrightarrow> I se'"
    and done_law: "I se \<Longrightarrow> I (upd_stream r (\<lambda>st. st\<lparr>st_done := True\<rparr>) se)"
    and body_law: "I se \<Longrightarrow> I (upd_stream r (\<lambda>st. st\<lparr>st_body_complete := True\<rparr>) se)"
    and both_law: "I se \<Longrightarrow> I (upd_stream r (\<lambda>st. st\<lparr>st_done := True, st_body_complete := True\<rparr>) se)"
    and unblock_law: "I se \<Longrightarrow> (sid, r) \<in> set (se_streams se) \<Longrightarrow> st_write_blocked (se_store se r) \<Longrightarrow>
      I (note_unblocked r se)"
    and block_law: "I se \<Longrightarrow> (sid, r) \<in> set (se_streams se) \<Longrightarrow> \<not> st_write_blocked (se_store se r) \<Longrightarrow>
      I (note_blocked r se)"
    and freed_law: "I se \<Longrightarrow> I (se\<lparr>se_pending_free := []\<rparr>)"
begin

lemma aux_on_session: "I (sx_session sx) \<Longrightarrow> (\<And>se. aux_eq se (f se)) \<Longrightarrow> I (sx_session (on_session f sx))"
  by (simp add: aux_law [of "sx_session sx"])

lemma unblock_each_keeps:
  "I (sx_session sx) \<Longrightarrow> set es \<subseteq> set (se_streams (sx_session sx)) \<Longrightarrow> I (sx_session (unblock_each env es sx))"
proof (induction es arbitrary: sx)
  case (Cons e es)
  obtain sid r where e: "e = (sid, r)" by (cases e)
  have "se_streams (note_unblocked r (sx_session sx)) = se_streams (sx_session sx)"
    by (simp add: note_unblocked_def)
  then show ?case
    using Cons unblock_law [OF Cons.prems(1), of sid r] by (simp add: e Let_def stream_of_def)
qed simp

lemma unblock_writable_keeps:
  assumes "hash_order_ok env" and "I (sx_session sx)"
  shows "I (sx_session (unblock_writable_streams env sx))"
proof -
  have "set (apr_hash_order env (se_streams (sx_session sx))) \<subseteq> set (se_streams (sx_session sx))"
    using assms(1) unfolding hash_order_ok_def by (metis order.refl set_mset_mset)
  then show ?thesis using assms(2) by (simp add: unblock_writable_streams_def unblock_each_keeps)
qed

lemma add_offsets_keeps: "I (sx_session sx) \<Longrightarrow> add_offsets env sid n sx = Some sx' \<Longrightarrow> I (sx_session sx')"
  by (auto simp: add_offsets_def split: bind_splits) (blast intro: call_ng_keeps)

lemma touch_activity_keeps: "I (sx_session sx) \<Longrightarrow> I (sx_session (touch_activity env sx))"
  by (auto simp: touch_activity_def aux_eq_def split: prod.split intro: aux_law)

lemma mark_dead_keeps: "I se \<Longrightarrow> I (mark_ngh3_dead env e se)"
  by (erule aux_law) (simp add: aux_eq_def mark_ngh3_dead_def)

end

lemma call_ng_frame: "call_ng env f sx = Some (x, sx') \<Longrightarrow> cb_frame (sx_session sx) (sx_session sx')"
  by (rule frame_cb.call_ng_keeps [OF cb_frame_refl])

lemma add_offsets_frame: "add_offsets env sid n sx = Some sx' \<Longrightarrow> cb_frame (sx_session sx) (sx_session sx')"
  by (auto simp: add_offsets_def split: bind_splits) (blast intro: call_ng_frame cb_frame_trans)

lemma touch_activity_streams [simp]:
  "se_streams (sx_session (touch_activity env sx)) = se_streams (sx_session sx)"
  "se_store (sx_session (touch_activity env sx)) = se_store (sx_session sx)"
  by (simp_all add: touch_activity_def split: prod.split)

context session_steps
begin

lemma flush_one_keeps:
  assumes I: "I (sx_session sx)" and step: "flush_one env sid fin vec sx = Some sx'"
  shows "I (sx_session sx')"
proof (cases "\<exists>r q. h3_stream_find (sx_session sx) sid = Some r \<and> st_qstream (stream_of r sx) = Some q")
  case False
  then show ?thesis
    using I step by (auto simp: flush_one_def Let_def split: option.splits dest: add_offsets_keeps)
next
  case True
  then obtain r q where r: "h3_stream_find (sx_session sx) sid = Some r" "st_qstream (stream_of r sx) = Some q"
    by blast
  obtain res w where wr: "h3q_stream_write (env_ssl env) q vec fin (sx_world sx) = (res, w)" by force
  define sx1 where "sx1 = (if wr_accepted res > 0
    then count_written (wr_accepted res) (touch_activity env (sx\<lparr>sx_world := w\<rparr>)) else sx\<lparr>sx_world := w\<rparr>)"
  have I1: "I (sx_session sx1)" using I by (simp add: sx1_def touch_activity_keeps)
  have s1: "se_streams (sx_session sx1) = se_streams (sx_session sx)" by (simp add: sx1_def)
  have step1: "(if wr_broken res then add_offsets env sid (vec_total vec) sx1
      else Option.bind (add_offsets env sid (wr_accepted res) sx1) (\<lambda>sx.
        Some (if wr_blocked res \<and> \<not> st_write_blocked (stream_of r sx)
              then on_world (nghttp3_conn_block_stream (env_ng env) sid) (on_session (note_blocked r) sx)
              else sx))) = Some sx'"
    using step r wr unfolding sx1_def by (simp add: flush_one_def Let_def split del: if_split)
  show ?thesis
  proof (cases "wr_broken res")
    case True
    then show ?thesis using step1 add_offsets_keeps [OF I1] by simp
  next
    case False
    then obtain sx2 where a: "add_offsets env sid (wr_accepted res) sx1 = Some sx2"
      and sx': "sx' = (if wr_blocked res \<and> \<not> st_write_blocked (stream_of r sx2)
        then on_world (nghttp3_conn_block_stream (env_ng env) sid) (on_session (note_blocked r) sx2) else sx2)"
      using step1 by (auto split: bind_splits)
    have "(sid, r) \<in> set (se_streams (sx_session sx2))"
      using r(1) s1 add_offsets_frame [OF a] by (auto simp: h3_stream_find_def cb_frame_def dest: map_of_SomeD)
    then show ?thesis
      using add_offsets_keeps [OF I1 a] block_law by (simp add: sx' stream_of_def)
  qed
qed

lemma flush_loop_keeps:
  assumes "flush_loop env sx = Some sx'" and "I (sx_session sx)"
  shows "I (sx_session sx')"
proof -
  have "env = env \<longrightarrow> I (sx_session sx) \<longrightarrow> I (sx_session sx')"
  proof (rule flush_loop.raw_induct
      [where P = "\<lambda>e sx sx'. e = env \<longrightarrow> I (sx_session sx) \<longrightarrow> I (sx_session sx')", OF _ assms(1)], intro impI)
    fix loop e sx sx'
    assume IH: "\<And>e sx sx'. loop e sx = Some sx' \<Longrightarrow> e = env \<longrightarrow> I (sx_session sx) \<longrightarrow> I (sx_session sx')"
      and e: "e = env" and I: "I (sx_session sx)"
      and body: "(case call_ng e (nghttp3_conn_writev_stream (env_ng e)) sx of
        None \<Rightarrow> None
      | Some (res, sx) \<Rightarrow>
          (case res of
             WritevError err sid \<Rightarrow> Some (on_session (mark_ngh3_dead e err) sx)
           | WritevOk sid fin vec \<Rightarrow>
               if vec = [] \<and> sid < 0 then Some sx
               else (case flush_one e sid fin vec sx of None \<Rightarrow> None | Some sx \<Rightarrow> loop e sx))) = Some sx'"
    obtain res sx1 where c: "call_ng env (nghttp3_conn_writev_stream (env_ng env)) sx = Some (res, sx1)"
      using body by (auto simp: e split: option.splits)
    have I1: "I (sx_session sx1)" using call_ng_keeps [OF I c] .
    show "I (sx_session sx')"
      using body c I1 mark_dead_keeps flush_one_keeps [OF I1] IH
      by (cases res) (auto simp: e split: option.splits if_splits)
  qed
  then show ?thesis using assms(2) by blast
qed

lemma flush_keeps:
  assumes "hash_order_ok env" and "I (sx_session sx)" and "flush_nghttp3 env sx = Some sx'"
  shows "I (sx_session sx')"
  using assms flush_loop_keeps [OF _ unblock_writable_keeps]
  by (auto simp: flush_nghttp3_def free_pending_def split: if_splits intro!: freed_law)

end

lemma count_stream_error_aux: "aux_eq se (count_stream_error env se)"
  by (simp add: aux_eq_def count_stream_error_def Let_def)

context session_steps
begin

lemma reject_keeps:
  "I (sx_session sx) \<Longrightarrow> reject_malformed_stream env r e sx = Some sx' \<Longrightarrow> I (sx_session sx')"
  by (auto simp: reject_malformed_stream_def Let_def split: bind_splits)
    (metis (no_types, lifting) aux_law both_law call_ng_keeps count_stream_error_aux on_session_fields(4))

lemma feed_fin_keeps:
  assumes "I (sx_session sx)" and "feed_stream_fin env r sx = Some sx'"
  shows "I (sx_session sx')"
proof -
  obtain n sx1 where c: "call_ng env (nghttp3_conn_read_stream (env_ng env) (st_id (stream_of r sx)) [] True) sx = Some (n, sx1)"
    using assms(2) by (auto simp: feed_stream_fin_def Let_def split: bind_splits)
  have I1: "I (sx_session sx1)" by (rule call_ng_keeps [OF assms(1) c])
  show ?thesis
    using assms(2) c I1 reject_keeps [OF I1] mark_dead_keeps
    by (auto simp: feed_stream_fin_def Let_def split: bind_splits if_splits intro!: body_law)
qed

lemma set_pending_keeps: "I se \<Longrightarrow> I (set_pending p se)"
  by (erule aux_law) (simp add: aux_eq_def set_pending_def)

lemma feed_data_keeps:
  assumes "I (sx_session sx)" and "feed_data env r bs sx = Some (x, sx')"
  shows "I (sx_session sx')"
proof -
  let ?sx = "on_session (set_pending (st_id (stream_of r (count_read (of_nat (length bs)) sx)), Some r))
    (count_read (of_nat (length bs)) sx)"
  obtain n sx1 where c: "call_ng env (nghttp3_conn_read_stream (env_ng env) (st_id (stream_of r ?sx)) bs False) ?sx = Some (n, sx1)"
    using assms(2) by (auto simp: feed_data_def Let_def split: bind_splits)
  have "I (sx_session ?sx)" using assms(1) by (simp add: set_pending_keeps)
  then have I1: "I (sx_session sx1)" by (rule call_ng_keeps [OF _ c])
  let ?sx1 = "on_session (set_pending (- 1, None)) sx1"
  have I2: "I (sx_session ?sx1)" using I1 by (simp add: set_pending_keeps)
  show ?thesis
    using assms(2) c I2 reject_keeps [OF I2] mark_dead_keeps
    by (auto simp: feed_data_def Let_def split: bind_splits if_splits intro!: done_law)
qed

lemma drain_loop_keeps:
  "I (sx_session sx) \<Longrightarrow> drain_loop env r buf n b sx = Some (x, sx') \<Longrightarrow> I (sx_session sx')"
proof (induction n arbitrary: b sx)
  case (Suc n)
  show ?case
  proof (cases "st_qstream (stream_of r sx)")
    case None
    then show ?thesis using Suc.prems by (auto split: if_splits intro!: done_law)
  next
    case (Some q)
    obtain ok bs fin w where rd: "h3q_stream_read (env_ssl env) q
        (if buf < bytes_remaining b then buf else bytes_remaining b) (sx_world sx) = ((ok, bs, fin), w)"
      by (metis surj_pair)
    have I1: "I (sx_session (sx\<lparr>sx_world := w\<rparr>))" using Suc.prems(1) by simp
    show ?thesis
      using Suc.prems Some rd Suc.IH feed_data_keeps [OF I1] feed_fin_keeps [OF I1]
      by (auto simp: Let_def split: if_splits bind_splits option.splits) blast+
  qed
qed simp

lemma ensure_buf_keeps: "I se \<Longrightarrow> I (ensure_read_buf se)"
  by (erule aux_law) (simp add: aux_eq_def ensure_read_buf_def)

lemma drain_finished_keeps:
  assumes I: "I (sx_session sx)" and d: "drain_finished env r wfin sx = Some sx'"
  shows "I (sx_session sx')"
proof -
  obtain sx1 where one: "(if \<not> st_body_complete (stream_of r sx) then feed_stream_fin env r sx else Some sx) = Some sx1"
    and two: "(if st_qstream (stream_of r sx1) \<noteq> None \<and> wfin
      then map_option snd (call_ng env (nghttp3_conn_close_stream (env_ng env)
             (st_id (stream_of r sx1)) (NGHTTP3_H3_NO_ERROR (env_ng env))) sx1)
      else Some sx1) = Some sx'"
    using d by (auto simp: drain_finished_def split: bind_splits)
  have "I (sx_session sx1)" using one I feed_fin_keeps by (auto split: if_splits)
  then show ?thesis using two by (auto split: if_splits dest: call_ng_keeps)
qed

lemma drain_one_keeps:
  assumes I: "I (sx_session sx)" and d: "drain_one_stream env r b sx = Some (x, sx')"
  shows "I (sx_session sx')"
proof -
  let ?sx = "on_session ensure_read_buf sx"
  have I1: "I (sx_session ?sx)" using I by (simp add: ensure_buf_keeps)
  show ?thesis
    using d drain_finished_keeps [OF I1] drain_loop_keeps [OF I1]
    by (auto simp: drain_one_stream_def Let_def split: bind_splits if_splits option.splits prod.splits)
qed

lemma drain_pass_keeps:
  "I (sx_session sx) \<Longrightarrow> drain_pass env snap start offs b sx = Some (x, sx') \<Longrightarrow> I (sx_session sx')"
proof (induction offs arbitrary: b sx x)
  case (Cons off offs)
  let ?r = "snap ! ((start + off) mod length snap)"
  have cur: "I se \<Longrightarrow> I (se\<lparr>se_stream_drain_cursor := n\<rparr>)" for se n
    by (erule aux_law) (simp add: aux_eq_def)
  show ?case
  proof (cases "se_ngh3_dead (sx_session sx) \<or> st_done (stream_of ?r sx) \<or> st_qstream (stream_of ?r sx) = None \<or>
      H3_SID_IS_SERVER (st_id (stream_of ?r sx))")
    case True
    then show ?thesis using Cons by (auto simp: Let_def split: if_splits)
  next
    case False
    then obtain y b1 sx1 where d: "drain_one_stream env ?r b sx = Some ((y, b1), sx1)"
      using Cons.prems(2) by (auto simp: Let_def split: bind_splits)
    have "I (sx_session sx1)" by (rule drain_one_keeps [OF Cons.prems(1) d])
    then show ?thesis
      using Cons.IH [of sx1] Cons.prems(2) False d
      by (auto simp: Let_def cur split: if_splits bind_splits)
  qed
qed simp

end

text \<open>Reclaiming a stream is one more law.\<close>

locale session_contract = session_steps +
  assumes reclaim_law: "I se \<Longrightarrow> (sid, r) \<in> set (se_streams se) \<Longrightarrow> reclaimable (se_store se r) \<Longrightarrow>
      reclaim_stream r se = Some se' \<Longrightarrow> I se'"

text \<open>The laws of the three invariants.\<close>

lemma blocked_count_upd:
  assumes "hash_ok se" and "(sid, r) \<in> set (se_streams se)"
    and "\<And>st. st_write_blocked (f st) = b"
  shows "int (blocked_count (upd_stream r f se)) =
    int (blocked_count se) + of_bool b - of_bool (st_write_blocked (se_store se r))"
proof -
  have d: "distinct (map snd (se_streams se))" using assms(1) by (simp add: hash_ok_def)
  have "r \<in> snd ` set (se_streams se)" using assms(2) by force
  moreover have "(\<lambda>e. st_write_blocked (se_store (upd_stream r f se) (snd e))) =
      (\<lambda>e :: stream_id_t \<times> stream_ref. if snd e = r then b else st_write_blocked (se_store se (snd e)))"
    by (simp add: assms(3) fun_eq_iff)
  ultimately show ?thesis
    unfolding blocked_count_def upd_stream_fields(5)
    using length_filter_upd [OF d, of r b "\<lambda>r. st_write_blocked (se_store se r)"] by simp
qed

lemma hash_ok_upd:
  "(\<And>st. st_id (f st) = st_id st) \<Longrightarrow> hash_ok (upd_stream r f se) = hash_ok se"
  by (auto simp: hash_ok_def split: if_splits)

lemma hash_ok_aux: "aux_eq se se' \<Longrightarrow> hash_ok se' = hash_ok se"
  by (simp add: hash_ok_def aux_eq_def)

lemma hash_ok_update_blocked [simp]:
  "hash_ok (se\<lparr>se_blocked_streams := n\<rparr>) = hash_ok se"
  "blocked_count (se\<lparr>se_blocked_streams := n\<rparr>) = blocked_count se"
  by (simp_all add: hash_ok_def blocked_count_def)

lemma hash_inv_unblock:
  "hash_inv se \<Longrightarrow> (sid, r) \<in> set (se_streams se) \<Longrightarrow> st_write_blocked (se_store se r) \<Longrightarrow> hash_inv (note_unblocked r se)"
  using blocked_count_upd [of se sid r "\<lambda>st. st\<lparr>st_write_blocked := False\<rparr>" False]
  by (simp add: hash_inv_def note_unblocked_def hash_ok_upd)

lemma hash_inv_block:
  "hash_inv se \<Longrightarrow> (sid, r) \<in> set (se_streams se) \<Longrightarrow> \<not> st_write_blocked (se_store se r) \<Longrightarrow> hash_inv (note_blocked r se)"
  using blocked_count_upd [of se sid r "\<lambda>st. st\<lparr>st_write_blocked := True\<rparr>" True]
  by (simp add: hash_inv_def note_blocked_def hash_ok_upd)

lemma cleanup_more: "h3_stream_response_cleanup_locked q = Some q' \<Longrightarrow> h3_response.more q' = h3_response.more q"
  by (auto simp: h3_stream_response_cleanup_locked_def)

lemma note_unblocked_fields [simp]:
  "se_streams (note_unblocked r se) = se_streams se" "se_next (note_unblocked r se) = se_next se"
  "se_server (note_unblocked r se) = se_server se"
  "se_pending_free (note_unblocked r se) = se_pending_free se"
  "se_store (note_unblocked r se) r' =
     (if r' = r then (se_store se r)\<lparr>st_write_blocked := False\<rparr> else se_store se r')"
  by (simp_all add: note_unblocked_def)

lemma hash_inv_remove:
  assumes "hash_inv se" and "(sid, r) \<in> set (se_streams se)" and "\<not> st_write_blocked (se_store se r)"
  shows "hash_inv (se\<lparr>se_streams := filter (\<lambda>e. fst e \<noteq> sid) (se_streams se)\<rparr>)"
proof -
  let ?B = "\<lambda>e. st_write_blocked (se_store se (snd e))"
  have d: "distinct (map fst (se_streams se))" using assms(1) by (simp add: hash_inv_def hash_ok_def)
  have "fst e \<noteq> sid" if "e \<in> set (se_streams se)" and "?B e" for e
    using that assms(2,3) d by (metis eq_key_imp_eq_value fst_conv prod.collapse snd_conv)
  then have "filter ?B (filter (\<lambda>e. fst e \<noteq> sid) (se_streams se)) = filter ?B (se_streams se)"
    by (auto simp: filter_filter intro!: filter_cong)
  then show ?thesis
    using assms(1) by (auto simp: hash_inv_def hash_ok_def blocked_count_def distinct_map_filter)
qed

lemma hash_inv_reclaim:
  assumes inv: "hash_inv se" and mem: "(sid, r) \<in> set (se_streams se)" and rec: "reclaim_stream r se = Some se'"
  shows "hash_inv se'"
proof -
  define se1 where "se1 = (if st_write_blocked (se_store se r) then note_unblocked r se else se)"
  have id: "st_id (se_store se1 r) = sid"
    using inv mem by (auto simp: hash_inv_def hash_ok_def se1_def)
  have 1: "hash_inv se1" "(sid, r) \<in> set (se_streams se1)" "\<not> st_write_blocked (se_store se1 r)"
    using inv mem hash_inv_unblock [OF inv mem] by (auto simp: se1_def)
  define se2 where "se2 = se1\<lparr>se_streams := filter (\<lambda>e. fst e \<noteq> sid) (se_streams se1)\<rparr>"
  have 2: "hash_inv se2" using hash_inv_remove [OF 1] by (simp add: se2_def)
  obtain st where st: "h3_stream_response_cleanup_locked (se_store se2 r) = Some st"
    and se': "se' = upd_stream r (\<lambda>_. st) se2"
    using rec by (auto simp: reclaim_stream_def Let_def se1_def [symmetric] id se2_def)
  have "cb_frame se2 se'" unfolding se'
    by (rule cb_frame_upd, rule keeps_more) (simp add: cleanup_more [OF st])
  then show ?thesis using 2 hash_inv_frame by blast
qed

lemma reclaim_more:
  assumes "reclaim_stream r se = Some se'"
  shows "se_pending_free se' = se_pending_free se \<and> se_server se' = se_server se \<and>
    (\<forall>r'. st_qstream (se_store se' r') = st_qstream (se_store se r') \<and>
      (stream_ok s (se_store se' r') \<longleftrightarrow> stream_ok s (se_store se r')))"
proof -
  define se1 where "se1 = (if st_write_blocked (se_store se r) then note_unblocked r se else se)"
  obtain st where st: "h3_stream_response_cleanup_locked (se_store se1 r) = Some st"
    and se': "se' = upd_stream r (\<lambda>_. st) (se1\<lparr>se_streams := filter (\<lambda>e. fst e \<noteq> st_id (se_store se1 r)) (se_streams se1)\<rparr>)"
    using assms by (auto simp: reclaim_stream_def Let_def se1_def [symmetric])
  have m: "h3_response.more st = h3_response.more (se_store se1 r)" by (rule cleanup_more [OF st])
  show ?thesis
    using more_fields(2) [OF m] stream_ok_more [OF m] by (auto simp: se' se1_def)
qed

lemma aux_stream_laws:
  "aux_eq se se' \<Longrightarrow> hash_inv se' = hash_inv se" "aux_eq se se' \<Longrightarrow> owned_ok se' = owned_ok se"
  "aux_eq se se' \<Longrightarrow> streams_ok se' = streams_ok se"
  by (simp_all add: aux_eq_def hash_inv_def hash_ok_def blocked_count_def owned_ok_def streams_ok_def)

interpretation hash_sc: session_contract env hash_inv
proof unfold_locales
  show "hash_inv se'" if "hash_inv se" "aux_eq se se'" for se se' using that aux_stream_laws by blast
  show "hash_inv (se\<lparr>se_pending_free := []\<rparr>)" if "hash_inv se" for se
    using that by (simp add: hash_inv_def hash_ok_def blocked_count_def)
qed (auto intro: hash_inv_unblock hash_inv_block hash_inv_reclaim hash_cb.callback_law
      simp: hash_inv_frame [OF cb_frame_upd])

interpretation owned_sc: session_contract env owned_ok
proof unfold_locales
  show "owned_ok se'" if "owned_ok se" "aux_eq se se'" for se se' using that aux_stream_laws by blast
  show "owned_ok se'" if "owned_ok se" "reclaim_stream r se = Some se'" for se r se'
    using that reclaim_more [OF that(2)] owned_same [of se se'] by (simp add: same_qstreams_def)
  show "owned_ok (note_unblocked r se)" if "owned_ok se" for r se
    using that owned_same [of se "note_unblocked r se"] by (simp add: same_qstreams_def)
  show "owned_ok (note_blocked r se)" if "owned_ok se" for r se
    using that owned_same [of se "note_blocked r se"] by (simp add: same_qstreams_def note_blocked_def)
qed (auto simp: owned_upd, auto simp: owned_ok_def)

interpretation streams_sc: session_contract env streams_ok
proof unfold_locales
  show "streams_ok se'" if "streams_ok se" "aux_eq se se'" for se se' using that aux_stream_laws by blast
  show "streams_ok se'" if "streams_ok se" "reclaim_stream r se = Some se'" for se r se'
    using that reclaim_more [OF that(2)] by (simp add: streams_ok_def)
qed (auto simp: streams_ok_def note_unblocked_def note_blocked_def)

section \<open>A whole drain\<close>

text \<open>Until streams are reclaimed, a pass changes neither the hash nor any stream's id.\<close>

definition same_hash :: "h3_session \<Rightarrow> h3_session \<Rightarrow> bool" where
  "same_hash se se' \<longleftrightarrow>
     se_streams se' = se_streams se \<and> se_server se' = se_server se \<and> se_next se' = se_next se \<and>
     se_active_tasks se' = se_active_tasks se \<and> se_c se' = se_c se \<and> se_qconn se' = se_qconn se \<and>
     se_ngh3 se' = se_ngh3 se \<and> se_goaway_deadline se' = se_goaway_deadline se \<and>
     (\<forall>r. st_id (se_store se' r) = st_id (se_store se r) \<and>
          st_is_bidi (se_store se' r) = st_is_bidi (se_store se r) \<and>
          st_dispatched (se_store se' r) = st_dispatched (se_store se r) \<and>
          st_worker_done (se_store se' r) = st_worker_done (se_store se r))"

lemma same_hash_refl [simp]: "same_hash se se"
  by (simp add: same_hash_def)

interpretation same_hash_ss: session_steps env "same_hash se"
proof unfold_locales
  show "same_hash se (sx_session sx')" if "same_hash se (sx_session sx)" "h3_callback env cb sx = Some (x, sx')"
    for sx cb x sx'
    using that(1) callback_frame [OF that(2)] by (simp add: same_hash_def cb_frame_def)
qed (simp_all add: same_hash_def aux_eq_def note_unblocked_def note_blocked_def)

lemma reclaim_entries:
  assumes inv: "hash_inv se" and mem: "(sid, r) \<in> set (se_streams se)" and rec: "reclaim_stream r se = Some se'"
  shows "se_streams se' = filter (\<lambda>e. fst e \<noteq> sid) (se_streams se)"
    and "r' \<noteq> r \<Longrightarrow> se_store se' r' = se_store se r'"
  using inv mem rec by (auto simp: hash_inv_def hash_ok_def reclaim_stream_def Let_def)

lemma reclaim_others_stay:
  assumes "hash_inv se" and "(sid, r) \<in> set (se_streams se)" and "reclaim_stream r se = Some se'"
    and "r' \<noteq> r" and "(st_id (se_store se r'), r') \<in> set (se_streams se)"
  shows "(st_id (se_store se' r'), r') \<in> set (se_streams se')"
proof -
  have d: "distinct (map fst (se_streams se))" using assms(1) by (simp add: hash_inv_def hash_ok_def)
  have "st_id (se_store se r') \<noteq> sid" using eq_key_imp_eq_value [OF d assms(2)] assms(4,5) by metis
  then show ?thesis using reclaim_entries [OF assms(1-3)] assms(4,5) by simp
qed

lemma drain_ready_cases:
  assumes "drain_ready_streams env sx = Some ((completed, read), sx')"
    and "length (map snd (apr_hash_order env (se_streams (sx_session sx)))) = length (se_streams (sx_session sx))"
  shows "\<exists>start b sx1 se. drain_pass env (map snd (apr_hash_order env (se_streams (sx_session sx)))) start
      [0..<length (map snd (apr_hash_order env (se_streams (sx_session sx))))] full_budget sx =
        Some ((completed, b), sx1) \<and>
      reclaim_pass (map snd (apr_hash_order env (se_streams (sx_session sx)))) (sx_session sx1) = Some se \<and>
      sx' = sx1\<lparr>sx_session := se\<rparr> \<and> read = data_read b"
  using assms unfolding drain_ready_streams_def Let_def
  by (simp add: assms(2) split del: if_split cong: if_cong) (auto split: bind_splits prod.splits)

lemma hash_order_facts:
  assumes "hash_order_ok env" and "hash_inv se"
  shows "length (map snd (apr_hash_order env (se_streams se))) = length (se_streams se)"
    "distinct (map snd (apr_hash_order env (se_streams se)))"
    "set (map snd (apr_hash_order env (se_streams se))) = snd ` set (se_streams se)"
    "r \<in> set (map snd (apr_hash_order env (se_streams se))) \<Longrightarrow> (st_id (se_store se r), r) \<in> set (se_streams se)"
proof -
  have ms: "mset (apr_hash_order env (se_streams se)) = mset (se_streams se)"
    using assms(1) by (simp add: hash_order_ok_def)
  show "length (map snd (apr_hash_order env (se_streams se))) = length (se_streams se)"
    using mset_eq_length [OF ms] by simp
  show "distinct (map snd (apr_hash_order env (se_streams se)))"
    using assms(2) ms unfolding hash_inv_def hash_ok_def by (metis mset_eq_imp_distinct_iff mset_map)
  show set: "set (map snd (apr_hash_order env (se_streams se))) = snd ` set (se_streams se)"
    using mset_eq_setD [OF ms] by simp
  show "r \<in> set (map snd (apr_hash_order env (se_streams se))) \<Longrightarrow> (st_id (se_store se r), r) \<in> set (se_streams se)"
    using assms(2) unfolding set by (auto simp: hash_inv_def hash_ok_def)
qed

context session_contract
begin

lemma reclaim_pass_keeps:
  "I se \<Longrightarrow> hash_inv se \<Longrightarrow> distinct rs \<Longrightarrow> (\<forall>r\<in>set rs. (st_id (se_store se r), r) \<in> set (se_streams se)) \<Longrightarrow>
   reclaim_pass rs se = Some se' \<Longrightarrow> I se' \<and> hash_inv se'"
proof (induction rs arbitrary: se)
  case (Cons r rs)
  show ?case
  proof (cases "reclaimable (se_store se r)")
    case False
    then show ?thesis using Cons by simp
  next
    case True
    then obtain se1 where r: "reclaim_stream r se = Some se1" and rest: "reclaim_pass rs se1 = Some se'"
      using Cons.prems(5) by (auto split: bind_splits)
    have mem: "(st_id (se_store se r), r) \<in> set (se_streams se)" using Cons.prems(4) by simp
    have "\<forall>r'\<in>set rs. (st_id (se_store se1 r'), r') \<in> set (se_streams se1)"
      using reclaim_others_stay [OF Cons.prems(2) mem r] Cons.prems(3,4)
      by (metis distinct.simps(2) list.set_intros(2))
    then show ?thesis
      using Cons.IH [OF reclaim_law [OF Cons.prems(1) mem True r] hash_inv_reclaim [OF Cons.prems(2) mem r] _ _ rest]
        Cons.prems(3) by simp
  qed
qed simp

lemma drain_ready_keeps:
  assumes ord: "hash_order_ok env" and inv: "I (sx_session sx)" "hash_inv (sx_session sx)"
    and d: "drain_ready_streams env sx = Some ((completed, read), sx')"
  shows "I (sx_session sx') \<and> hash_inv (sx_session sx')"
proof -
  let ?walk = "map snd (apr_hash_order env (se_streams (sx_session sx)))"
  note facts = hash_order_facts [OF ord inv(2)]
  obtain start b sx1 se where p: "drain_pass env ?walk start [0..<length ?walk] full_budget sx = Some ((completed, b), sx1)"
      and r: "reclaim_pass ?walk (sx_session sx1) = Some se" and sx': "sx' = sx1\<lparr>sx_session := se\<rparr>"
    using drain_ready_cases [OF d facts(1)] by blast
  have same: "same_hash (sx_session sx) (sx_session sx1)"
    by (rule same_hash_ss.drain_pass_keeps [OF same_hash_refl p])
  then have "\<forall>r\<in>set ?walk. (st_id (se_store (sx_session sx1) r), r) \<in> set (se_streams (sx_session sx1))"
    using facts(4) by (simp add: same_hash_def)
  then show ?thesis
    using reclaim_pass_keeps [OF drain_pass_keeps [OF inv(1) p] hash_sc.drain_pass_keeps [OF inv(2) p] facts(2) _ r] sx'
    by simp
qed

end

section \<open>Counters and budgets\<close>

text \<open>Callbacks leave the byte counters alone.\<close>

lemma callback_counters: "h3_callback env cb sx = Some (x, sx') \<Longrightarrow> sx_counters sx' = sx_counters sx"
  by (cases cb) (auto simp: cb_int_def on_begin_headers_def on_recv_header_def on_end_headers_def
      on_recv_data_def on_acked_stream_data_def on_stop_sending_def on_reset_stream_def on_stream_close_def
      on_read_data_def Let_def split: option.splits bind_splits prod.splits)

lemma run_ng_counters: "run_ng env p sx = Some (x, sx') \<Longrightarrow> sx_counters sx' = sx_counters sx"
proof (induction p arbitrary: sx)
  case (NgCallback w cb k)
  then obtain y sx1 where "h3_callback env cb (sx\<lparr>sx_world := w\<rparr>) = Some (y, sx1)"
    "run_ng env (k y (sx_world sx1)) sx1 = Some (x, sx')"
    by (auto split: option.splits)
  then show ?case using NgCallback.IH [of "k y" "k y (sx_world sx1)" sx1] callback_counters by fastforce
qed auto

lemma call_ng_counters: "call_ng env f sx = Some (x, sx') \<Longrightarrow> sx_counters sx' = sx_counters sx"
  by (simp add: call_ng_def run_ng_counters)

lemma reject_counters: "reject_malformed_stream env r e sx = Some sx' \<Longrightarrow> sx_counters sx' = sx_counters sx"
  by (auto simp: reject_malformed_stream_def Let_def split: bind_splits dest!: call_ng_counters)

lemma feed_fin_counters: "feed_stream_fin env r sx = Some sx' \<Longrightarrow> sx_counters sx' = sx_counters sx"
  by (auto simp: feed_stream_fin_def Let_def split: bind_splits if_splits dest!: call_ng_counters reject_counters)

lemma feed_data_counters:
  "feed_data env r bs sx = Some (x, sx') \<Longrightarrow> sx_counters sx' = sx_counters (count_read (of_nat (length bs)) sx)"
  by (auto simp: feed_data_def Let_def split: bind_splits if_splits dest!: call_ng_counters reject_counters)

lemma drain_finished_counters: "drain_finished env r f sx = Some sx' \<Longrightarrow> sx_counters sx' = sx_counters sx"
  by (auto simp: drain_finished_def split: bind_splits if_splits dest!: call_ng_counters feed_fin_counters)

text \<open>
  Documented behaviour of \<^verbatim>\<open>SSL_read_ex\<close>: it returns at most as many bytes as were asked for.
\<close>

definition ssl_read_ok :: "'w ssl_api \<Rightarrow> bool" where
  "ssl_read_ok ssl \<longleftrightarrow>
     (\<forall>q n w rv bs w'. SSL_read_ex ssl q n w = ((rv, bs), w') \<longrightarrow> length bs \<le> unat n)"

lemma h3q_read_bound:
  "ssl_read_ok ssl \<Longrightarrow> h3q_stream_read ssl q n w = ((ok, bs, fin), w') \<Longrightarrow> length bs \<le> unat n"
  by (auto simp: ssl_read_ok_def h3q_stream_read_def split: prod.splits if_splits) blast+

text \<open>
  \<open>spent b b' sx sx'\<close>: going from \<open>b\<close> to \<open>b'\<close> took nothing back, and the counter of bytes read
  grew by exactly the bytes taken off the budget.
\<close>

definition spent :: "drain_budget \<Rightarrow> drain_budget \<Rightarrow> 'w h3_st \<Rightarrow> 'w h3_st \<Rightarrow> bool" where
  "spent b b' sx sx' \<longleftrightarrow>
     reads_remaining b' \<le> reads_remaining b \<and> bytes_remaining b' \<le> bytes_remaining b \<and>
     (data_read b \<longrightarrow> data_read b') \<and>
     sx_counters sx' = sx_counters (count_read (bytes_remaining b - bytes_remaining b') sx)"

lemma count_read_0 [simp]: "sx_counters (count_read 0 sx) = sx_counters sx"
  by (cases "sx_counters sx") (auto simp: count_read_def)

lemma spent_refl: "sx_counters sx' = sx_counters sx \<Longrightarrow> spent b b sx sx'"
  by (simp add: spent_def)

lemma spent_trans: "spent b b1 sx sx1 \<Longrightarrow> spent b1 b2 sx1 sx2 \<Longrightarrow> spent b b2 sx sx2"
  by (cases "sx_counters sx") (auto simp: spent_def count_read_def)

lemma spent_read:
  assumes "length bs \<le> unat (bytes_remaining b)" and "reads_remaining b > 0"
    and "sx_counters sx' = sx_counters (count_read (of_nat (length bs)) sx)"
  shows "spent b (spend_read (of_nat (length bs)) b) sx sx'"
proof -
  have "unat (of_nat (length bs) :: size_t) = length bs"
    using assms(1) unat_size_t_bound [of "bytes_remaining b"]
    by (intro unat_of_nat_id) (simp del: unat_size_t_bound)
  then have "of_nat (length bs) \<le> bytes_remaining b" using assms(1) by (simp add: word_le_nat_alt)
  then show ?thesis
    using assms(3) by (simp add: spent_def spend_read_def word_sub_le)
qed

lemma drain_loop_spent:
  assumes ok: "ssl_read_ok (env_ssl env)"
  shows "drain_loop env r buf n b sx = Some ((x, b'), sx') \<Longrightarrow> n \<le> reads_remaining b \<Longrightarrow> spent b b' sx sx'"
proof (induction n arbitrary: b sx)
  case (Suc n)
  show ?case
  proof (cases "st_qstream (stream_of r sx)")
    case None
    then show ?thesis using Suc.prems by (auto split: if_splits intro: spent_refl)
  next
    case (Some q)
    let ?rs = "if buf < bytes_remaining b then buf else bytes_remaining b"
    obtain okr bs fin w where rd: "h3q_stream_read (env_ssl env) q ?rs (sx_world sx) = ((okr, bs, fin), w)"
      by (metis surj_pair)
    show ?thesis
    proof (cases "bytes_remaining b > 0 \<and> okr \<and> bs \<noteq> []")
      case False
      then show ?thesis
        using Suc.prems Some rd
        by (auto simp: Let_def split: if_splits bind_splits intro: spent_refl dest!: feed_fin_counters)
    next
      case True
      then obtain nxt sx1 where fd: "feed_data env r bs (sx\<lparr>sx_world := w\<rparr>) = Some (nxt, sx1)"
        and rest: "(case nxt of None \<Rightarrow> drain_loop env r buf n (spend_read (of_nat (length bs)) b) sx1
          | Some ret0 \<Rightarrow> Some ((ret0, spend_read (of_nat (length bs)) b), sx1)) = Some ((x, b'), sx')"
        using Suc.prems(1) Some rd by (auto simp: Let_def split: bind_splits)
      have "length bs \<le> unat ?rs" by (rule h3q_read_bound [OF ok rd])
      then have le: "length bs \<le> unat (bytes_remaining b)"
        by (auto simp: word_less_nat_alt split: if_splits)
      have one: "spent b (spend_read (of_nat (length bs)) b) sx sx1"
        using feed_data_counters [OF fd] Suc.prems(2) by (intro spent_read [OF le]) (simp_all add: count_read_def)
      show ?thesis
        using rest one Suc.IH [of "spend_read (of_nat (length bs)) b" sx1] Suc.prems(2)
        by (auto simp: spend_read_def split: option.splits intro: spent_trans)
    qed
  qed
qed (auto intro: spent_refl)

lemma drain_one_spent:
  assumes "ssl_read_ok (env_ssl env)" and "drain_one_stream env r b sx = Some ((x, b'), sx')"
  shows "spent b b' sx sx'"
proof -
  let ?sx = "on_session ensure_read_buf sx"
  have "spent b b' ?sx sx'"
    using assms(2) drain_loop_spent [OF assms(1)]
    by (auto simp: drain_one_stream_def Let_def split: bind_splits if_splits option.splits prod.splits
        intro!: spent_refl drain_finished_counters)
  then show ?thesis by (simp add: spent_def count_read_def)
qed

lemma drain_pass_spent:
  assumes ok: "ssl_read_ok (env_ssl env)"
  shows "drain_pass env snap start offs b sx = Some ((c, b'), sx') \<Longrightarrow> spent b b' sx sx'"
proof (induction offs arbitrary: b sx c)
  case (Cons off offs)
  let ?r = "snap ! ((start + off) mod length snap)"
  show ?case
  proof (cases "se_ngh3_dead (sx_session sx) \<or> st_done (stream_of ?r sx) \<or> st_qstream (stream_of ?r sx) = None \<or>
      H3_SID_IS_SERVER (st_id (stream_of ?r sx))")
    case True
    then show ?thesis using Cons by (auto simp: Let_def split: if_splits intro: spent_refl)
  next
    case False
    then obtain y b1 sx1 where d: "drain_one_stream env ?r b sx = Some ((y, b1), sx1)"
      using Cons.prems by (auto simp: Let_def split: bind_splits)
    have one: "spent b b1 sx sx1" by (rule drain_one_spent [OF ok d])
    then have cur: "spent b b1 sx (on_session f sx1)" for f by (simp add: spent_def)
    show ?thesis
      using Cons.IH [of b1 sx1] Cons.prems False d one cur
      by (auto simp: Let_def split: if_splits bind_splits intro: spent_trans)
  qed
qed (auto intro: spent_refl)

section \<open>Properties\<close>


text \<open>A client that sends one fragment holding a whole request on stream 0.\<close>

definition demo_env :: "nat h3_env" where
  "demo_env = quiet_env\<lparr>
     env_ssl := quiet_ssl\<lparr>SSL_read_ex := (\<lambda>q n w. if w = 0 \<and> 3 \<le> n then ((1, [1, 2, 3]), 1) else ((0, []), w))\<rparr>,
     env_ng := quiet_ng\<lparr>nghttp3_conn_read_stream := (\<lambda>sid bs fin w.
       NgCallback w (CbEndHeaders sid True (Some 0)) (\<lambda>x w. NgDone w (int (length bs))))\<rparr>\<rparr>"

definition demo_st :: "nat h3_st" where
  "demo_st = sample_st\<lparr>sx_session := sample_session\<lparr>se_server := small_server\<lparr>module_config :=
     small_conf\<lparr>h3_stream_buffer_size := 64\<rparr>\<rparr>\<rparr>\<rparr>"

lemma demo_env_ok: "hash_order_ok demo_env" "ssl_read_ok (env_ssl demo_env)"
  by (auto simp: hash_order_ok_def ssl_read_ok_def demo_env_def quiet_env_def quiet_ssl_def word_le_nat_alt)

lemma demo_hash: "hash_inv (sx_session demo_st)" "owned_ok (sx_session demo_st)"
  by (auto simp: demo_st_def sample_session_def hash_inv_def hash_ok_def blocked_count_def owned_ok_def)

lemmas drain_eval =
  drain_ready_streams_def full_budget_def H3_STREAM_DRAIN_READ_BUDGET_def H3_STREAM_DRAIN_BYTE_BUDGET_def
  drain_one_stream_def drain_finished_def ensure_read_buf_def feed_data_def h3q_stream_read_def
  h3q_stream_is_read_finished_def request_ready_def reclaimable_def spend_read_def set_pending_def
  drain_loop.simps(2) [where n = 255, simplified] drain_loop.simps(2) [where n = 254, simplified]
  call_ng_def stream_of_def on_session_def on_world_def count_read_def upd_stream_def cb_int_def
  on_end_headers_def se_conf_def H3_SID_IS_BIDI_def H3_SID_IS_SERVER_def Let_def

lemma demo_drain:
  "\<exists>sx'. drain_ready_streams demo_env demo_st = Some (([0], True), sx') \<and> sx_counters sx' = Some (3, 0)"
  by (simp add: drain_eval demo_env_def demo_st_def quiet_env_def quiet_ssl_def quiet_ng_def sample_st_def
      sample_session_def small_server_def small_conf_def)


text \<open>What reclaiming leaves behind.\<close>

lemma reclaim_same_state:
  assumes "reclaim_stream r se = Some se'"
  shows "reclaimable (se_store se' r') = reclaimable (se_store se r') \<and>
    st_is_bidi (se_store se' r') = st_is_bidi (se_store se r') \<and>
    st_dispatched (se_store se' r') = st_dispatched (se_store se r')"
proof -
  define se1 where "se1 = (if st_write_blocked (se_store se r) then note_unblocked r se else se)"
  obtain st where st: "h3_stream_response_cleanup_locked (se_store se1 r) = Some st"
    and se': "se' = upd_stream r (\<lambda>_. st) (se1\<lparr>se_streams := filter (\<lambda>e. fst e \<noteq> st_id (se_store se1 r)) (se_streams se1)\<rparr>)"
    using assms by (auto simp: reclaim_stream_def Let_def se1_def [symmetric])
  note m = more_fields [OF cleanup_more [OF st]]
  show ?thesis by (auto simp: se' se1_def reclaimable_def m)
qed

lemma hash_entry_iff:
  assumes "hash_inv se" and "(sid, r) \<in> set (se_streams se)" and "e \<in> set (se_streams se)"
  shows "fst e = sid \<longleftrightarrow> snd e = r"
proof -
  obtain sid' r' where e: "e = (sid', r')" by (cases e)
  have d: "distinct (map fst (se_streams se))" and id: "\<And>x. x \<in> set (se_streams se) \<Longrightarrow> st_id (se_store se (snd x)) = fst x"
    using assms(1) by (auto simp: hash_inv_def hash_ok_def)
  show ?thesis
  proof
    assume "fst e = sid"
    then show "snd e = r" using eq_key_imp_eq_value [OF d, of sid r' r] assms(2,3) e by simp
  next
    assume "snd e = r"
    then show "fst e = sid" using id [OF assms(2)] id [OF assms(3)] by simp
  qed
qed

lemma reclaim_pass_exact:
  "hash_inv se \<Longrightarrow> distinct rs \<Longrightarrow> (\<forall>r\<in>set rs. (st_id (se_store se r), r) \<in> set (se_streams se)) \<Longrightarrow>
   reclaim_pass rs se = Some se' \<Longrightarrow>
   se_streams se' = filter (\<lambda>e. snd e \<in> set rs \<longrightarrow> \<not> reclaimable (se_store se (snd e))) (se_streams se) \<and>
   (\<forall>r. reclaimable (se_store se' r) = reclaimable (se_store se r) \<and>
        st_is_bidi (se_store se' r) = st_is_bidi (se_store se r) \<and>
        st_dispatched (se_store se' r) = st_dispatched (se_store se r))"
proof (induction rs arbitrary: se)
  case (Cons r rs)
  show ?case
  proof (cases "reclaimable (se_store se r)")
    case False
    then show ?thesis using Cons by (auto intro!: filter_cong)
  next
    case True
    then obtain se1 where r: "reclaim_stream r se = Some se1" and rest: "reclaim_pass rs se1 = Some se'"
      using Cons.prems(4) by (auto split: bind_splits)
    have mem: "(st_id (se_store se r), r) \<in> set (se_streams se)" using Cons.prems(3) by simp
    have "\<forall>r'\<in>set rs. (st_id (se_store se1 r'), r') \<in> set (se_streams se1)"
      using reclaim_others_stay [OF Cons.prems(1) mem r] Cons.prems(2,3)
      by (metis distinct.simps(2) list.set_intros(2))
    then have IH: "se_streams se' = filter (\<lambda>e. snd e \<in> set rs \<longrightarrow> \<not> reclaimable (se_store se1 (snd e))) (se_streams se1)"
      "\<forall>r. reclaimable (se_store se' r) = reclaimable (se_store se1 r) \<and>
        st_is_bidi (se_store se' r) = st_is_bidi (se_store se1 r) \<and>
        st_dispatched (se_store se' r) = st_dispatched (se_store se1 r)"
      using Cons.IH [OF hash_inv_reclaim [OF Cons.prems(1) mem r] _ _ rest] Cons.prems(2) by simp_all
    have "se_streams se1 = filter (\<lambda>e. snd e \<noteq> r) (se_streams se)"
      unfolding reclaim_entries(1) [OF Cons.prems(1) mem r]
      by (rule filter_cong) (simp_all add: hash_entry_iff [OF Cons.prems(1) mem])
    then show ?thesis
      using IH reclaim_same_state [OF r] True by (auto intro!: filter_cong)
  qed
qed simp

lemma drain_hash:
  assumes "hash_order_ok env" and "hash_inv (sx_session sx)"
    and "drain_ready_streams env sx = Some ((completed, read), sx')"
  shows "se_streams (sx_session sx') =
    filter (\<lambda>e. \<not> reclaimable (se_store (sx_session sx') (snd e))) (se_streams (sx_session sx))"
proof -
  let ?walk = "map snd (apr_hash_order env (se_streams (sx_session sx)))"
  note facts = hash_order_facts [OF assms(1,2)]
  obtain start b sx1 se where p: "drain_pass env ?walk start [0..<length ?walk] full_budget sx = Some ((completed, b), sx1)"
      and r: "reclaim_pass ?walk (sx_session sx1) = Some se" and sx': "sx' = sx1\<lparr>sx_session := se\<rparr>"
    using drain_ready_cases [OF assms(3) facts(1)] by blast
  have same: "same_hash (sx_session sx) (sx_session sx1)"
    by (rule same_hash_ss.drain_pass_keeps [OF same_hash_refl p])
  then have "\<forall>r\<in>set ?walk. (st_id (se_store (sx_session sx1) r), r) \<in> set (se_streams (sx_session sx1))"
    using facts(4) by (simp add: same_hash_def)
  from reclaim_pass_exact [OF hash_sc.drain_pass_keeps [OF assms(2) p] facts(2) this r]
  show ?thesis using same facts(3) sx' by (auto simp: same_hash_def intro!: filter_cong)
qed

text \<open>What a drain leaves alone on every stream, reclaimed or not.\<close>

definition same_flags :: "h3_session \<Rightarrow> h3_session \<Rightarrow> bool" where
  "same_flags se se' \<longleftrightarrow>
     se_active_tasks se' = se_active_tasks se \<and> se_c se' = se_c se \<and> se_qconn se' = se_qconn se \<and>
     se_ngh3 se' = se_ngh3 se \<and> se_server se' = se_server se \<and> se_next se' = se_next se \<and>
     (\<forall>r. st_id (se_store se' r) = st_id (se_store se r) \<and>
          st_is_bidi (se_store se' r) = st_is_bidi (se_store se r) \<and>
          st_dispatched (se_store se' r) = st_dispatched (se_store se r) \<and>
          st_worker_done (se_store se' r) = st_worker_done (se_store se r))"

lemma same_flags_refl [simp]: "same_flags se se"
  by (simp add: same_flags_def)

lemma same_flags_trans: "same_flags a b \<Longrightarrow> same_flags b c \<Longrightarrow> same_flags a c"
  by (simp add: same_flags_def)

lemma same_hash_flags: "same_hash se se' \<Longrightarrow> same_flags se se'"
  by (simp add: same_flags_def same_hash_def)

lemma reclaim_flags:
  assumes "reclaim_stream r se = Some se'"
  shows "same_flags se se'"
proof -
  define se1 where "se1 = (if st_write_blocked (se_store se r) then note_unblocked r se else se)"
  obtain st where st: "h3_stream_response_cleanup_locked (se_store se1 r) = Some st"
    and se': "se' = upd_stream r (\<lambda>_. st) (se1\<lparr>se_streams := filter (\<lambda>e. fst e \<noteq> st_id (se_store se1 r)) (se_streams se1)\<rparr>)"
    using assms by (auto simp: reclaim_stream_def Let_def se1_def [symmetric])
  note m = more_fields [OF cleanup_more [OF st]]
  have "same_flags se se1" by (simp add: same_flags_def se1_def note_unblocked_def)
  then show ?thesis using m by (simp add: same_flags_def se')
qed

lemma reclaim_pass_flags: "reclaim_pass rs se = Some se' \<Longrightarrow> same_flags se se'"
  by (induction rs arbitrary: se)
    (auto split: bind_splits if_splits dest!: reclaim_flags intro: same_flags_trans)

lemma drain_flags:
  assumes "hash_order_ok env" and "hash_inv (sx_session sx)"
    and "drain_ready_streams env sx = Some ((completed, read), sx')"
  shows "same_flags (sx_session sx) (sx_session sx')"
proof -
  obtain start b sx1 se where p: "drain_pass env (map snd (apr_hash_order env (se_streams (sx_session sx)))) start
      [0..<length (map snd (apr_hash_order env (se_streams (sx_session sx))))] full_budget sx = Some ((completed, b), sx1)"
      and r: "reclaim_pass (map snd (apr_hash_order env (se_streams (sx_session sx)))) (sx_session sx1) = Some se"
      and sx': "sx' = sx1\<lparr>sx_session := se\<rparr>"
    using drain_ready_cases [OF assms(3) hash_order_facts(1) [OF assms(1,2)]] by blast
  have "same_flags (sx_session sx) (sx_session sx1)"
    by (rule same_hash_flags, rule same_hash_ss.drain_pass_keeps [OF same_hash_refl p])
  then show ?thesis using reclaim_pass_flags [OF r] by (simp add: sx' same_flags_trans)
qed

text \<open>
  C17: After a drain pass the hash has lost exactly the request streams that are closed, whose QUIC
  stream object is released and whose worker has returned. In particular a request stream that
  ended before it was dispatched stays in the hash.
\<close>

theorem drain_reclaims_exactly:
  assumes "hash_order_ok env" and "hash_inv (sx_session sx)"
    and "drain_ready_streams env sx = Some ((completed, read), sx')"
  shows "se_streams (sx_session sx') =
    filter (\<lambda>e. \<not> reclaimable (se_store (sx_session sx') (snd e))) (se_streams (sx_session sx))"
  by (rule drain_hash [OF assms])

definition finished_st :: "nat h3_st" where
  "finished_st = demo_st\<lparr>sx_session := (sx_session demo_st)\<lparr>se_store := (\<lambda>r.
     (blank_stream 0 8)\<lparr>st_done := True, st_dispatched := True, st_worker_done := True\<rparr>)\<rparr>\<rparr>"

lemma finished_drain: "\<exists>sx'. drain_ready_streams demo_env finished_st = Some (([], False), sx') \<and> se_streams (sx_session sx') = []"
  by (simp add: drain_eval demo_env_def demo_st_def finished_st_def quiet_env_def quiet_ssl_def quiet_ng_def sample_st_def
      sample_session_def small_server_def small_conf_def reclaim_stream_def h3_stream_response_cleanup_locked_def
      free_chunks.simps blank_stream_def h3_response.defs fresh_response_def h3_stream.defs)

theorem drain_reclaims_exactly_witness:
  "\<exists>sx'. drain_ready_streams demo_env finished_st = Some (([], False), sx') \<and> se_streams (sx_session sx') = [] \<and>
     reclaimable (se_store (sx_session sx') 0)"
proof -
  obtain sx' where d: "drain_ready_streams demo_env finished_st = Some (([], False), sx')"
    and e: "se_streams (sx_session sx') = []" using finished_drain by blast
  have h: "hash_inv (sx_session finished_st)"
    by (simp add: finished_st_def demo_st_def sample_session_def hash_inv_def hash_ok_def blocked_count_def)
  have "se_streams (sx_session finished_st) = [(0, 0)]"
    by (simp add: finished_st_def demo_st_def sample_session_def)
  with drain_reclaims_exactly [OF demo_env_ok(1) h d] d e show ?thesis by (auto split: if_splits)
qed

section \<open>Dispatch\<close>

lemma drain_one_ready:
  assumes "drain_one_stream env r b sx = Some ((True, b'), sx')"
  shows "request_ready (stream_of r sx')"
  using assms by (auto simp: drain_one_stream_def Let_def split: bind_splits if_splits option.splits prod.splits)

definition visit :: "stream_ref list \<Rightarrow> nat \<Rightarrow> nat \<Rightarrow> stream_ref" where
  "visit snap start off = snap ! ((start + off) mod length snap)"

definition dispatchable :: "h3_stream \<Rightarrow> bool" where
  "dispatchable st \<longleftrightarrow> st_is_bidi st \<and> \<not> st_dispatched st \<and> \<not> H3_SID_IS_SERVER (st_id st)"

lemma drain_pass_completed:
  "drain_pass env snap start offs b sx = Some ((completed, b'), sx') \<Longrightarrow> distinct offs \<Longrightarrow>
   (\<exists>offs'. completed = map (visit snap start) offs' \<and> set offs' \<subseteq> set offs \<and> distinct offs') \<and>
   (\<forall>r\<in>set completed. dispatchable (stream_of r sx))"
proof (induction offs arbitrary: b sx completed)
  case (Cons off offs)
  let ?r = "visit snap start off"
  show ?case
  proof (cases "se_ngh3_dead (sx_session sx) \<or> st_done (stream_of ?r sx) \<or> st_qstream (stream_of ?r sx) = None \<or>
      H3_SID_IS_SERVER (st_id (stream_of ?r sx))")
    case True
    then have "completed = [] \<or> drain_pass env snap start offs b sx = Some ((completed, b'), sx')"
      using Cons.prems(1) by (auto simp: Let_def visit_def split: if_splits)
    then show ?thesis using Cons.IH [of b sx completed] Cons.prems(2) by fastforce
  next
    case False
    then obtain y b1 sx1 where d: "drain_one_stream env ?r b sx = Some ((y, b1), sx1)"
      using Cons.prems by (auto simp: Let_def visit_def split: bind_splits)
    have same: "same_hash (sx_session sx) (sx_session sx1)"
      by (rule same_hash_ss.drain_one_keeps [OF same_hash_refl d])
    then have iff: "dispatchable (stream_of r sx1) = dispatchable (stream_of r sx)" for r
      by (simp add: dispatchable_def same_hash_def stream_of_def)
    let ?c = "if y \<and> \<not> se_ngh3_dead (sx_session sx1) then [?r] else []"
    have "y \<Longrightarrow> request_ready (stream_of ?r sx1)" using drain_one_ready [of env ?r b sx b1 sx1] d by simp
    then have rdy: "y \<Longrightarrow> dispatchable (stream_of ?r sx)"
      using same False by (simp add: dispatchable_def request_ready_def same_hash_def stream_of_def)
    obtain rest where c: "completed = ?c @ rest"
      and "rest = [] \<or> drain_pass env snap start offs b1 sx1 = Some ((rest, b'), sx')"
      using Cons.prems False d by (auto simp: Let_def visit_def split: if_splits bind_splits)
    then obtain offs' where o: "rest = map (visit snap start) offs'" "set offs' \<subseteq> set offs" "distinct offs'"
      and q: "\<forall>r\<in>set rest. dispatchable (stream_of r sx)"
      using Cons.IH [of b1 sx1 rest] Cons.prems(2) iff by fastforce
    have "\<exists>offs'. completed = map (visit snap start) offs' \<and> set offs' \<subseteq> set (off # offs) \<and> distinct offs'"
    proof (cases "y \<and> \<not> se_ngh3_dead (sx_session sx1)")
      case True
      then show ?thesis using o c Cons.prems(2) by (intro exI [of _ "off # offs'"]) auto
    qed (use o c in auto)
    then show ?thesis using q c rdy by auto
  qed
qed simp

lemma rotate_inj:
  assumes "x < n" and "y < n" and "(start + x) mod n = (start + y) mod (n::nat)"
  shows "x = y"
proof -
  have "(int (start + x) - int start) mod int n = (int (start + y) - int start) mod int n"
    using assms(3) by (metis mod_diff_left_eq zmod_int)
  then show ?thesis using assms(1,2) by simp
qed

lemma visit_bound: "off < length snap \<Longrightarrow> (start + off) mod length snap < length snap"
  by (rule mod_less_divisor) auto

lemma visit_mem: "off < length snap \<Longrightarrow> visit snap start off \<in> set snap"
  by (simp add: visit_def visit_bound)

lemma visited_mem: "set offs \<subseteq> {0..<length snap} \<Longrightarrow> r \<in> set (map (visit snap start) offs) \<Longrightarrow> r \<in> set snap"
  by (auto dest!: visit_mem [of _ snap start] subsetD)

lemma visit_inj: "distinct snap \<Longrightarrow> inj_on (visit snap start) {0..<length snap}"
  by (rule inj_onI) (auto simp: visit_def nth_eq_iff_index_eq visit_bound dest: rotate_inj)

lemma drain_completed:
  assumes "hash_order_ok env" and "hash_inv (sx_session sx)"
    and "drain_ready_streams env sx = Some ((completed, read), sx')"
  shows "distinct completed \<and>
    (\<forall>r\<in>set completed. (st_id (stream_of r sx), r) \<in> set (se_streams (sx_session sx)) \<and>
       st_is_bidi (stream_of r sx) \<and> \<not> H3_SID_IS_SERVER (st_id (stream_of r sx)) \<and>
       \<not> st_dispatched (stream_of r sx))"
proof -
  let ?walk = "map snd (apr_hash_order env (se_streams (sx_session sx)))"
  note facts = hash_order_facts [OF assms(1,2)]
  obtain start b sx1 where p: "drain_pass env ?walk start [0..<length ?walk] full_budget sx = Some ((completed, b), sx1)"
    using drain_ready_cases [OF assms(3) facts(1)] by blast
  obtain offs' where c: "completed = map (visit ?walk start) offs'" "set offs' \<subseteq> {0..<length ?walk}" "distinct offs'"
    using drain_pass_completed [OF p] by auto
  have "inj_on (visit ?walk start) {0..<length ?walk}" by (rule visit_inj [OF facts(2)])
  then have "distinct completed" using c by (simp add: distinct_map inj_on_subset)
  moreover have "\<forall>r\<in>set completed. r \<in> set ?walk" using visited_mem [OF c(2)] c(1) by blast
  ultimately show ?thesis
    using drain_pass_completed [OF p] facts(4) by (auto simp: stream_of_def dispatchable_def)
qed

lemma drain_completed_stay:
  assumes "hash_order_ok env" and "hash_inv (sx_session sx)"
    and "drain_ready_streams env sx = Some ((completed, read), sx')" and "r \<in> set completed"
  shows "(st_id (stream_of r sx'), r) \<in> set (se_streams (sx_session sx')) \<and> \<not> st_dispatched (stream_of r sx')"
proof -
  have c: "(st_id (stream_of r sx), r) \<in> set (se_streams (sx_session sx))" "\<not> st_dispatched (stream_of r sx)"
    using drain_completed [OF assms(1-3)] assms(4) by auto
  have f: "st_id (stream_of r sx') = st_id (stream_of r sx)" "\<not> st_dispatched (stream_of r sx')"
    using drain_flags [OF assms(1-3)] c(2) by (simp_all add: same_flags_def stream_of_def)
  then show ?thesis
    using c(1) unfolding drain_hash [OF assms(1-3)] by (simp add: reclaimable_def stream_of_def)
qed

text \<open>
  C9: The streams one drain hands on for dispatch: each at most once, each in the session's hash,
  bidirectional, opened by the client, and not dispatched before.
\<close>

theorem drain_dispatches_once:
  assumes "hash_order_ok env" and "hash_inv (sx_session sx)"
    and "drain_ready_streams env sx = Some ((completed, read), sx')"
  shows "distinct completed \<and>
    (\<forall>r\<in>set completed. (st_id (stream_of r sx), r) \<in> set (se_streams (sx_session sx)) \<and>
       st_is_bidi (stream_of r sx) \<and> \<not> H3_SID_IS_SERVER (st_id (stream_of r sx)) \<and>
       \<not> st_dispatched (stream_of r sx))"
  by (rule drain_completed [OF assms])

theorem drain_dispatches_once_witness:
  "\<exists>sx'. drain_ready_streams demo_env demo_st = Some (([0], True), sx') \<and> \<not> st_dispatched (stream_of 0 demo_st)"
proof -
  obtain sx' where d: "drain_ready_streams demo_env demo_st = Some (([0], True), sx')" using demo_drain by blast
  with drain_dispatches_once [OF demo_env_ok(1) demo_hash(1) d] show ?thesis by simp
qed

section \<open>Malformed requests\<close>

lemma reject_effect:
  assumes "reject_malformed_stream env r e sx = Some sx'"
  shows "se_server (sx_session sx') = se_server (sx_session sx)"
    "se_stream_errors (sx_session sx') = se_stream_errors (sx_session sx) + 1"
    "se_ngh3_dead (sx_session sx') = (se_ngh3_dead (sx_session sx) \<or>
       h3_max_stream_errors (se_conf (sx_session sx)) < se_stream_errors (sx_session sx) + 1)"
    "h3_max_stream_errors (se_conf (sx_session sx)) < se_stream_errors (sx_session sx) + 1 \<Longrightarrow>
       se_abort_quic_error_code (sx_session sx') = NGHTTP3_H3_EXCESSIVE_LOAD (env_ng env)"
    "st_done (stream_of r sx')" "\<not> request_ready (stream_of r sx')"
proof -
  let ?sx = "on_world (h3q_stream_reset (env_ssl env) (st_qstream (stream_of r sx))
    (nghttp3_err_infer_quic_app_error_code (env_ng env) e)) sx"
  let ?set = "\<lambda>se. count_stream_error env (upd_stream r (\<lambda>st. st\<lparr>st_done := True, st_body_complete := True\<rparr>) se)"
  obtain x sx1 y sx2 where a: "call_ng env (nghttp3_conn_shutdown_stream_read (env_ng env) (st_id (stream_of r sx))) ?sx = Some (x, sx1)"
    and b: "call_ng env (nghttp3_conn_close_stream (env_ng env) (st_id (stream_of r sx))
      (nghttp3_err_infer_quic_app_error_code (env_ng env) e)) sx1 = Some (y, sx2)"
    and sx': "sx' = on_session ?set sx2"
    using assms by (auto simp: reject_malformed_stream_def Let_def split: bind_splits)
  have f: "cb_frame (sx_session sx) (sx_session sx2)"
    using cb_frame_trans [OF call_ng_frame [OF a] call_ng_frame [OF b]] by simp
  note defs = sx' count_stream_error_def Let_def se_conf_def stream_of_def request_ready_def
  show "se_server (sx_session sx') = se_server (sx_session sx)"
    "se_stream_errors (sx_session sx') = se_stream_errors (sx_session sx) + 1"
    "se_ngh3_dead (sx_session sx') = (se_ngh3_dead (sx_session sx) \<or>
       h3_max_stream_errors (se_conf (sx_session sx)) < se_stream_errors (sx_session sx) + 1)"
    "h3_max_stream_errors (se_conf (sx_session sx)) < se_stream_errors (sx_session sx) + 1 \<Longrightarrow>
       se_abort_quic_error_code (sx_session sx') = NGHTTP3_H3_EXCESSIVE_LOAD (env_ng env)"
    "st_done (stream_of r sx')" "\<not> request_ready (stream_of r sx')"
    using f by (simp_all add: defs cb_frame_def)
qed

lemma reject_all_effect:
  "reject_all env es sx = Some sx' \<Longrightarrow>
   unat (se_stream_errors (sx_session sx)) + length es < 2 ^ 32 \<Longrightarrow>
   (se_ngh3_dead (sx_session sx) \<Longrightarrow> se_abort_quic_error_code (sx_session sx) = NGHTTP3_H3_EXCESSIVE_LOAD (env_ng env)) \<Longrightarrow>
   (se_ngh3_dead (sx_session sx) \<longleftrightarrow>
      unat (h3_max_stream_errors (se_conf (sx_session sx))) < unat (se_stream_errors (sx_session sx))) \<Longrightarrow>
   se_server (sx_session sx') = se_server (sx_session sx) \<and>
   unat (se_stream_errors (sx_session sx')) = unat (se_stream_errors (sx_session sx)) + length es \<and>
   (se_ngh3_dead (sx_session sx') \<longleftrightarrow>
      unat (h3_max_stream_errors (se_conf (sx_session sx))) < unat (se_stream_errors (sx_session sx')))  \<and>
   (se_ngh3_dead (sx_session sx') \<longrightarrow>
      se_abort_quic_error_code (sx_session sx') = NGHTTP3_H3_EXCESSIVE_LOAD (env_ng env))"
proof (induction es arbitrary: sx)
  case (Cons x es)
  obtain r e where x: "x = (r, e)" by (cases x)
  obtain sx1 where r: "reject_malformed_stream env r e sx = Some sx1" and rest: "reject_all env es sx1 = Some sx'"
    using Cons.prems(1) by (auto simp: x split: bind_splits)
  note eff = reject_effect [OF r]
  have n: "unat (se_stream_errors (sx_session sx) + 1) = unat (se_stream_errors (sx_session sx)) + 1"
    using Cons.prems(2) by (subst unat_add_lem [THEN iffD1]) auto
  have dead: "se_ngh3_dead (sx_session sx1) \<longleftrightarrow>
      unat (h3_max_stream_errors (se_conf (sx_session sx1))) < unat (se_stream_errors (sx_session sx1))"
    using eff(1-3) Cons.prems(4) n by (auto simp: word_less_nat_alt se_conf_def)
  have code: "se_ngh3_dead (sx_session sx1) \<Longrightarrow> se_abort_quic_error_code (sx_session sx1) = NGHTTP3_H3_EXCESSIVE_LOAD (env_ng env)"
    using eff(2-4) Cons.prems(4) n by (auto simp: word_less_nat_alt)
  show ?case
    using Cons.IH [OF rest _ code dead] Cons.prems(2) eff(1,2) n by (simp add: se_conf_def)
qed simp

text \<open>
  C18: Malformed requests on a connection are counted exactly: after \<open>n\<close> of them the connection is
  given up exactly when \<open>n\<close> exceeds H3MaxStreamErrors, and then with H3_EXCESSIVE_LOAD.
\<close>

theorem malformed_request_limit:
  assumes "reject_all env es sx = Some sx'" and "length es < 2 ^ 32"
    and "se_stream_errors (sx_session sx) = 0" and "\<not> se_ngh3_dead (sx_session sx)"
  shows "unat (se_stream_errors (sx_session sx')) = length es \<and>
    (se_ngh3_dead (sx_session sx') \<longleftrightarrow> unat (h3_max_stream_errors (se_conf (sx_session sx))) < length es) \<and>
    (se_ngh3_dead (sx_session sx') \<longrightarrow>
       se_abort_quic_error_code (sx_session sx') = NGHTTP3_H3_EXCESSIVE_LOAD (env_ng env))"
  using reject_all_effect [OF assms(1)] assms(2-4) by simp

lemma small_reject: "\<exists>sx'. reject_all quiet_env [(0, - 1)] demo_st = Some sx'"
  by (simp add: reject_malformed_stream_def quiet_env_def quiet_ng_def quiet_ssl_def call_ng_def Let_def)

theorem malformed_request_limit_witness:
  "\<exists>sx'. reject_all quiet_env [(0, - 1)] demo_st = Some sx' \<and> se_stream_errors (sx_session sx') = 1"
proof -
  obtain sx' where d: "reject_all quiet_env [(0, - 1)] demo_st = Some sx'" using small_reject by blast
  have "se_stream_errors (sx_session demo_st) = 0" "\<not> se_ngh3_dead (sx_session demo_st)"
    by (simp_all add: demo_st_def sample_session_def)
  from malformed_request_limit [OF d _ this] d show ?thesis by (simp add: word_unat_eq_iff)
qed

section \<open>Tracking keeps the invariants\<close>

text \<open>
  A stream the client opened is new to the session: its QUIC stream object is neither attached to a
  stream nor waiting to be released.
\<close>

definition fresh_qstream :: "qptr \<Rightarrow> h3_session \<Rightarrow> bool" where
  "fresh_qstream q se \<longleftrightarrow>
     q \<notin> set (se_pending_free se) \<and> (\<forall>r. st_qstream (se_store se r) \<noteq> Some q)"

lemma h3_zero_stream_facts [simp]:
  "stream_ok s (h3_zero_stream sid q l now)" "response_wf (h3_zero_stream sid q l now)"
  "st_id (h3_zero_stream sid q l now) = sid" "st_write_blocked (h3_zero_stream sid q l now) = False"
  "st_qstream (h3_zero_stream sid q l now) = Some q"
  using blank_stream_ok [of s sid l] blank_stream_wf [of sid l]
  by (simp_all add: h3_zero_stream_def stream_ok_def body_ok_def headers_ok_def response_wf_def queue_refines_def
      queue_rep_def)

lemma track_cases:
  assumes "track_stream env sid q sx = Some (res, sx')"
  obtains (found) r where "h3_stream_find (sx_session sx) sid = Some r" "res = Some r"
      "sx' = on_session (upd_stream r (\<lambda>st. st\<lparr>st_qstream := Some q\<rparr>)) sx"
    | (failed) w where "res = None" "sx' = sx\<lparr>sx_world := w\<rparr>"
    | (new) w now where "h3_stream_find (sx_session sx) sid = None" "res = Some (se_next (sx_session sx))"
      "sx' = on_session (insert_stream sid q now) (sx\<lparr>sx_world := w\<rparr>)"
proof (cases "h3_stream_find (sx_session sx) sid")
  case None
  then show ?thesis
    using assms failed new by (auto simp: track_stream_def Let_def split: prod.splits bool.splits if_splits)
next
  case (Some r)
  then show ?thesis using assms found [OF Some] by (simp add: track_stream_def)
qed

lemma insert_stream_hash:
  assumes "hash_inv se" and "map_of (se_streams se) sid = None"
  shows "hash_inv (insert_stream sid q now se)"
proof -
  have old: "\<And>e. e \<in> set (se_streams se) \<Longrightarrow> snd e < se_next se"
    using assms(1) by (auto simp: hash_inv_def hash_ok_def)
  then have fresh: "\<And>e. e \<in> set (se_streams se) \<Longrightarrow> snd e \<noteq> se_next se" by (metis less_irrefl)
  let ?new = "h3_zero_stream sid q (stream_limit (se_conf se)) now"
  have "filter (\<lambda>e. st_write_blocked (((se_store se)(se_next se := ?new)) (snd e))) (se_streams se) =
      filter (\<lambda>e. st_write_blocked (se_store se (snd e))) (se_streams se)"
    by (intro filter_cong) (simp_all add: fresh)
  moreover have "se_next se \<notin> snd ` set (se_streams se)" using fresh by force
  ultimately show ?thesis
    using assms old fresh
    by (auto simp: insert_stream_def hash_inv_def hash_ok_def blocked_count_def map_of_eq_None_iff less_SucI)
qed

lemma upd_qstream_hash: "hash_inv (upd_stream r (\<lambda>st. st\<lparr>st_qstream := x\<rparr>) se) = hash_inv se"
proof -
  have "st_write_blocked (se_store (upd_stream r (\<lambda>st. st\<lparr>st_qstream := x\<rparr>) se) r') = st_write_blocked (se_store se r')"
    "st_id (se_store (upd_stream r (\<lambda>st. st\<lparr>st_qstream := x\<rparr>) se) r') = st_id (se_store se r')" for r'
    by simp_all
  then show ?thesis unfolding hash_inv_def hash_ok_def blocked_count_def by simp
qed

lemma track_result:
  assumes "session_safe (sx_session sx)" and "fresh_qstream q (sx_session sx)"
    and "track_stream env sid q sx = Some (res, sx')"
  shows "session_safe (sx_session sx') \<and>
    (\<forall>r. res = Some r \<longrightarrow> h3_stream_find (sx_session sx') sid = Some r \<and> st_qstream (stream_of r sx') = Some q)"
proof -
  let ?se = "sx_session sx"
  have inv: "streams_ok ?se" "responses_wf ?se" "hash_inv ?se" "owned_ok ?se"
    using assms(1) by (simp_all add: session_safe_def)
  from assms(3) show ?thesis
  proof (cases rule: track_cases)
    case (found r)
    have "owned_ok (sx_session sx')"
      using inv(4) assms(2) by (auto simp: found owned_ok_def fresh_qstream_def)
    then show ?thesis
      using inv found by (simp add: session_safe_def streams_ok_def responses_wf_def upd_qstream_hash h3_stream_find_def
          stream_of_def)
  next
    case (new w now)
    have "owned_ok (sx_session sx')"
      using inv(4) assms(2) by (auto simp: new insert_stream_def owned_ok_def fresh_qstream_def)
    moreover have "hash_inv (sx_session sx')"
      using insert_stream_hash [OF inv(3), of sid] new(1) by (simp add: new(3) h3_stream_find_def)
    ultimately show ?thesis
      using inv(1,2) new by (simp add: session_safe_def insert_stream_def streams_ok_def responses_wf_def
          h3_stream_find_def stream_of_def map_add_def map_of_append)
  qed (use assms(1) in simp)
qed

lemmas track_safe = track_result [THEN conjunct1]

text \<open>
  Tracking a stream whose QUIC object is new to the session keeps the session invariant: one
  hash entry per stream id, blocked streams counted, and no QUIC object owned twice or queued for
  release while in use. The stream returned is the one the hash holds under the id, with the
  object attached.
\<close>

theorem track_stream_keeps:
  assumes "session_safe (sx_session sx)" and "fresh_qstream q (sx_session sx)"
    and "track_stream env sid q sx = Some (res, sx')"
  shows "session_safe (sx_session sx') \<and>
    (\<forall>r. res = Some r \<longrightarrow> h3_stream_find (sx_session sx') sid = Some r \<and> st_qstream (stream_of r sx') = Some q)"
  by (rule track_result [OF assms])

theorem track_stream_keeps_witness:
  "\<exists>sx'. track_stream quiet_env 4 9 sample_st = Some (Some 1, sx') \<and> session_safe (sx_session sx')"
proof -
  have t: "\<exists>sx'. track_stream quiet_env 4 9 sample_st = Some (Some 1, sx')"
    by (simp add: track_stream_def h3_stream_find_def sample_st_def sample_session_def quiet_env_def Let_def)
  have "fresh_qstream 9 (sx_session sample_st)"
    by (simp add: fresh_qstream_def sample_st_def sample_session_def)
  moreover have "session_safe (sx_session sample_st)" by (simp add: sample_st_def sample_session_safe)
  ultimately show ?thesis using t track_stream_keeps [of sample_st 9 quiet_env 4 "Some 1"] by blast
qed

end
