(* ===== verification/H3_Session.thy ===== *)
theory H3_Session
  imports H3_Stream
begin

text \<open>
  The life of a session (\<^verbatim>\<open>h3_session.c\<close>): creation with the nghttp3 settings, the three streams
  the server opens (control, QPACK encoder and decoder), and destruction.
\<close>

section \<open>Creation\<close>

definition session_settings :: "nghttp3_settings \<Rightarrow> server_rec \<Rightarrow> nghttp3_settings" where
  "session_settings base s =
     (let conf = module_config s;
          settings = base\<lparr>qpack_max_dtable_capacity := ucast (h3_qpack_table_capacity conf),
                          qpack_blocked_streams := ucast (h3_qpack_blocked_streams conf)\<rparr>
      in if limit_req_fields s > 0 \<and> limit_req_fieldsize s > 0
         then settings\<lparr>max_field_section_size :=
                word_of_int (limit_req_fields s) * (word_of_int (limit_req_fieldsize s) + 32)\<rparr>
         else settings)"

definition session_tls_env :: "h3q_tls_info option \<Rightarrow> h3_tls_env" where
  "session_tls_env info =
     (case info of
        None \<Rightarrow> h3_tls_env_zero
      | Some tls \<Rightarrow>
          \<lparr>tls_protocol = Some (ti_protocol tls), tls_cipher = ti_cipher tls,
           tls_cipher_usekeysize = Some (show_int (ti_cipher_bits tls)),
           tls_cipher_algkeysize = Some (show_int (ti_cipher_alg_bits tls)),
           tls_cipher_export = Some ''false'',
           tls_session_resumed = Some (if ti_resumed tls then ''Resumed'' else ''Initial'')\<rparr>)"

text \<open>\<^verbatim>\<open>apr_pcalloc\<close> and the assignments up to the lock. The cells of the store no entry uses yet are blank.\<close>

definition new_session :: "server_rec \<Rightarrow> cptr option \<Rightarrow> apr_time_t \<Rightarrow> h3_session" where
  "new_session s qconn now =
     \<lparr>se_server = s, se_qconn = qconn, se_ngh3 = False, se_streams = [],
      se_store = (\<lambda>r. blank_stream 0 0), se_next = 0,
      se_aborted = False, se_blocked_streams = 0, se_ngh3_dead = False, se_abort_quic_error_code = 0,
      se_abort_reason = None, se_pending_free = [], se_stream_read_buf_size = 0,
      se_stream_drain_cursor = 0, se_control_streams_created = False, se_goaway_sent = False,
      se_goaway_deadline = 0, se_last_activity = now, se_stream_errors = 0, se_active_tasks = 0,
      se_pending = (0, None), se_tls_env = h3_tls_env_zero, se_c = None\<rparr>"

definition h3_session_create ::
  "'w h3_env \<Rightarrow> server_rec \<Rightarrow> cptr option \<Rightarrow> 'w \<Rightarrow> (apr_status_t + h3_session) \<times> 'w" where
  "h3_session_create env s qconn w =
     (let (now, w) = apr_time_now env w;
          (rv, w) = apr_thread_mutex_create env w
      in if rv \<noteq> APR_SUCCESS then (Inl rv, w)
         else
           let ng = env_ng env;
               (rv, w) = nghttp3_conn_server_new ng (session_settings (nghttp3_settings_default ng) s) w
           in if rv \<noteq> 0 then (Inl APR_EGENERAL, w)
              else
                let w = nghttp3_conn_set_max_concurrent_streams ng (ucast (h3_max_concurrent_streams (module_config s))) w;
                    w = nghttp3_conn_set_max_client_streams_bidi ng (ucast (h3_max_concurrent_streams (module_config s))) w
                in (Inr ((new_session s qconn now)\<lparr>se_ngh3 := True,
                      se_tls_env := session_tls_env (h3q_conn_tls_info (env_ssl env) qconn w)\<rparr>), w))"

section \<open>Control streams\<close>

text \<open>The loop that opens \<open>n\<close> streams; \<^const>\<open>None\<close> when there is no connection (\<open>CHECK\<close> aborts).\<close>

fun open_streams ::
  "'w ssl_api \<Rightarrow> cptr option \<Rightarrow> nat \<Rightarrow> 'w \<Rightarrow> ((qptr \<times> stream_id_t) option list \<times> 'w) option" where
  "open_streams ssl conn 0 w = Some ([], w)"
| "open_streams ssl conn (Suc n) w = do {
     (st, w) \<leftarrow> h3q_conn_open_uni_stream ssl conn w;
     (sts, w) \<leftarrow> open_streams ssl conn n w;
     Some (st # sts, w)
   }"

definition bind_streams :: "'w ngh3_api \<Rightarrow> (qptr \<times> stream_id_t) option list \<Rightarrow> 'w \<Rightarrow> bool \<times> 'w" where
  "bind_streams ng cs w =
     (case cs of
        [Some c, Some e, Some d] \<Rightarrow>
          (case nghttp3_conn_bind_control_stream ng (snd c) w of
             (rv, w) \<Rightarrow>
               if rv \<noteq> 0 then (False, w)
               else (case nghttp3_conn_bind_qpack_streams ng (snd e) (snd d) w of (rv, w) \<Rightarrow> (rv = 0, w)))
      | _ \<Rightarrow> (False, w))"

fun track_all :: "'w h3_env \<Rightarrow> (qptr \<times> stream_id_t) option list \<Rightarrow> 'w h3_st \<Rightarrow> 'w h3_st option" where
  "track_all env [] sx = Some sx"
| "track_all env (None # cs) sx = track_all env cs sx"
| "track_all env (Some (q, sid) # cs) sx =
     Option.bind (track_stream env sid q sx) (\<lambda>(_, sx). track_all env cs sx)"

definition h3_session_create_control_streams ::
  "'w h3_env \<Rightarrow> 'w h3_st \<Rightarrow> (apr_status_t \<times> 'w h3_st) option" where
  "h3_session_create_control_streams env sx =
     (if se_control_streams_created (sx_session sx) then Some (APR_SUCCESS, sx)
      else do {
        (cs, w) \<leftarrow> open_streams (env_ssl env) (se_qconn (sx_session sx)) 3 (sx_world sx);
        let (bound, w) = bind_streams (env_ng env) cs w;
        let sx = sx\<lparr>sx_world := w\<rparr>;
        (if \<not> bound
         then let sx = on_world (fold (\<lambda>c. h3q_stream_free (env_ssl env) (map_option fst c)) cs) sx;
                  sx = (if se_ngh3 (sx_session sx)
                        then on_session (\<lambda>se. se\<lparr>se_ngh3 := False\<rparr>) (on_world (nghttp3_conn_del (env_ng env)) sx)
                        else sx)
              in Some (APR_EGENERAL, sx)
         else do {
           sx \<leftarrow> track_all env cs sx;
           Some (APR_SUCCESS, on_session (\<lambda>se. se\<lparr>se_control_streams_created := True\<rparr>) sx)
         })
      })"

section \<open>Destruction\<close>

fun discard_streams :: "(stream_id_t \<times> stream_ref) list \<Rightarrow> h3_session \<Rightarrow> h3_session option" where
  "discard_streams [] se = Some se"
| "discard_streams ((sid, r) # es) se = do {
     st \<leftarrow> h3_stream_response_cleanup_locked (h3_stream_response_cancel_locked (se_store se r));
     discard_streams es (upd_stream r (\<lambda>_. st) se)
   }"

definition h3_session_destroy :: "'w h3_env \<Rightarrow> 'w h3_st \<Rightarrow> 'w h3_st option" where
  "h3_session_destroy env sx =
     (let sx = (if se_ngh3 (sx_session sx)
                then on_session (\<lambda>se. se\<lparr>se_ngh3 := False\<rparr>) (on_world (nghttp3_conn_del (env_ng env)) sx)
                else sx)
      in do {
        se \<leftarrow> discard_streams (apr_hash_order env (se_streams (sx_session sx))) (sx_session sx);
        let sx = free_pending env (sx\<lparr>sx_session := se\<rparr>);
        Some (on_session (\<lambda>se. se\<lparr>se_qconn := None\<rparr>)
                (on_world (h3q_conn_free (env_ssl env) (se_qconn (sx_session sx))) sx))
      })"

section \<open>Settings\<close>

text \<open>
  The largest request head the module announces to clients is
  LimitRequestFields * (LimitRequestFieldSize + 32), computed without wrapping for every value the
  two int directives can hold, so no larger head is announced than the directives allow; with
  either limit switched off nghttp3's default stands.
\<close>

theorem field_section_size_exact:
  assumes "limit_req_fields s < 2 ^ 31" and "limit_req_fieldsize s < 2 ^ 31"
  shows "if 0 < limit_req_fields s \<and> 0 < limit_req_fieldsize s
    then uint (max_field_section_size (session_settings base s)) =
           limit_req_fields s * (limit_req_fieldsize s + 32)
    else max_field_section_size (session_settings base s) = max_field_section_size base"
proof (cases "0 < limit_req_fields s \<and> 0 < limit_req_fieldsize s")
  case True
  let ?f = "limit_req_fields s" and ?n = "limit_req_fieldsize s"
  have "?f * (?n + 32) \<le> 2147483647 * (2147483647 + 32)"
    using assms True by (intro mult_mono) auto
  then have "?f * (?n + 32) < 2 ^ 64" by simp
  moreover have "0 \<le> ?f * (?n + 32)" using True by simp
  ultimately have "uint (word_of_int (?f * (?n + 32)) :: uint64_t) = ?f * (?n + 32)"
    by (simp only: uint_word_of_int take_bit_int_eq_self len_of_numeral_defs) simp
  then show ?thesis using True by (simp add: session_settings_def Let_def)
next
  case False
  then show ?thesis by (auto simp: session_settings_def Let_def)
qed

theorem field_section_size_exact_witness:
  "uint (max_field_section_size (session_settings (nghttp3_settings_default quiet_ng)
     (small_server\<lparr>limit_req_fields := 100, limit_req_fieldsize := 8190\<rparr>))) = 822200"
  using field_section_size_exact [of "small_server\<lparr>limit_req_fields := 100, limit_req_fieldsize := 8190\<rparr>"
      "nghttp3_settings_default quiet_ng"] by simp

lemma new_session_safe: "session_safe (new_session s qconn now)"
  by (simp add: session_safe_def new_session_def streams_ok_def responses_wf_def hash_inv_def hash_ok_def
      blocked_count_def owned_ok_def blank_stream_ok)

lemma session_safe_fields [simp]:
  "session_safe (se\<lparr>se_ngh3 := b\<rparr>) = session_safe se"
  "session_safe (se\<lparr>se_tls_env := e\<rparr>) = session_safe se"
  "session_safe (se\<lparr>se_control_streams_created := b\<rparr>) = session_safe se"
  "session_safe (se\<lparr>se_qconn := c\<rparr>) = session_safe se"
  "session_safe (se\<lparr>se_c := x\<rparr>) = session_safe se"
  by (simp_all add: session_safe_def streams_ok_def responses_wf_def hash_inv_def hash_ok_def blocked_count_def
      owned_ok_def)


section \<open>Control streams keep the invariant\<close>

text \<open>The objects OpenSSL opened are new to the session, and no two are the same.\<close>

definition new_objects :: "(qptr \<times> stream_id_t) option list \<Rightarrow> h3_session \<Rightarrow> bool" where
  "new_objects cs se \<longleftrightarrow>
     (\<forall>q sid. Some (q, sid) \<in> set cs \<longrightarrow> fresh_qstream q se) \<and>
     distinct (map fst (map the (filter (\<lambda>c. c \<noteq> None) cs)))"

lemma new_objects_Cons:
  "new_objects (Some (q, sid) # cs) se \<longleftrightarrow>
     fresh_qstream q se \<and> new_objects cs se \<and> (\<forall>q' sid'. Some (q', sid') \<in> set cs \<longrightarrow> q' \<noteq> q)"
  unfolding new_objects_def by (auto simp: image_iff)

lemma track_keeps:
  assumes "session_safe (sx_session sx)" and "fresh_qstream q (sx_session sx)"
    and "track_stream env sid q sx = Some (res, sx')"
  shows "session_safe (sx_session sx')"
    "fresh_qstream q' (sx_session sx) \<Longrightarrow> q' \<noteq> q \<Longrightarrow> fresh_qstream q' (sx_session sx')"
proof -
  show "session_safe (sx_session sx')" by (rule track_safe [OF assms])
  show "fresh_qstream q' (sx_session sx')" if "fresh_qstream q' (sx_session sx)" "q' \<noteq> q"
    using assms(3) that by (cases rule: track_cases) (auto simp: fresh_qstream_def insert_stream_def)
qed

lemma track_all_keeps:
  "session_safe (sx_session sx) \<Longrightarrow> new_objects cs (sx_session sx) \<Longrightarrow> track_all env cs sx = Some sx' \<Longrightarrow>
   session_safe (sx_session sx')"
proof (induction env cs sx rule: track_all.induct)
  case (3 env q sid cs sx)
  obtain res sx1 where t: "track_stream env sid q sx = Some (res, sx1)" and rest: "track_all env cs sx1 = Some sx'"
    using 3(4) by (auto split: bind_splits)
  have n: "fresh_qstream q (sx_session sx)" "new_objects cs (sx_session sx)"
      "\<And>q' sid'. Some (q', sid') \<in> set cs \<Longrightarrow> q' \<noteq> q"
    using 3(3) by (auto simp: new_objects_Cons)
  note k = track_keeps [OF 3(2) n(1) t]
  have "new_objects cs (sx_session sx1)"
    using n(2) k(2) n(3) unfolding new_objects_def by blast
  then show ?case using 3(1) [OF t refl k(1) _ rest] by simp
qed (auto simp: new_objects_def)

text \<open>
  Opening the control streams keeps the session invariant whether it succeeds or fails; after
  success a second call does nothing; after failure the nghttp3 connection is gone, so the
  session can only be destroyed.
\<close>

theorem control_streams_keep:
  assumes "session_safe (sx_session sx)"
    and "open_streams (env_ssl env) (se_qconn (sx_session sx)) 3 (sx_world sx) = Some (cs, w)"
    and "new_objects cs (sx_session sx)"
    and "h3_session_create_control_streams env sx = Some (rv, sx')"
  shows "session_safe (sx_session sx') \<and>
    (if rv = APR_SUCCESS then h3_session_create_control_streams env sx' = Some (APR_SUCCESS, sx')
     else \<not> se_ngh3 (sx_session sx') \<and> se_streams (sx_session sx') = se_streams (sx_session sx))"
proof (cases "se_control_streams_created (sx_session sx)")
  case True
  then show ?thesis using assms(1,4) by (auto simp: h3_session_create_control_streams_def)
next
  case False
  obtain b w1 where b: "bind_streams (env_ng env) cs w = (b, w1)" by force
  show ?thesis
  proof (cases b)
    case True
    then obtain sx1 where t: "track_all env cs (sx\<lparr>sx_world := w1\<rparr>) = Some sx1" and rv: "rv = APR_SUCCESS"
      and sx': "sx' = on_session (\<lambda>se. se\<lparr>se_control_streams_created := True\<rparr>) sx1"
      using assms(2,4) False b by (auto simp: h3_session_create_control_streams_def split: bind_splits)
    have "session_safe (sx_session sx1)" using track_all_keeps [OF _ _ t] assms(1,3) by simp
    then show ?thesis using sx' rv by (simp add: h3_session_create_control_streams_def)
  next
    case no: False
    then show ?thesis
      using assms(1,2,4) False b
      by (auto simp: h3_session_create_control_streams_def Let_def split: if_splits)
  qed
qed

theorem control_streams_keep_witness:
  "\<exists>sx'. h3_session_create_control_streams quiet_env
       (sample_st\<lparr>sx_session := (new_session small_server (Some 50) 0)\<lparr>se_ngh3 := True\<rparr>\<rparr>) = Some (APR_SUCCESS, sx') \<and>
     session_safe (sx_session sx')"
proof -
  let ?sx = "sample_st\<lparr>sx_session := (new_session small_server (Some 50) 0)\<lparr>se_ngh3 := True\<rparr>\<rparr>"
  let ?cs = "[Some (100, 100), Some (101, 101), Some (102, 102)]"
  have o: "open_streams (env_ssl quiet_env) (se_qconn (sx_session ?sx)) 3 (sx_world ?sx) = Some (?cs, 3)"
    by (simp add: numeral_3_eq_3 h3q_conn_open_uni_stream_def quiet_env_def quiet_ssl_def sample_st_def
        new_session_def)
  have c: "\<exists>sx'. h3_session_create_control_streams quiet_env ?sx = Some (APR_SUCCESS, sx')"
    using o by (simp add: h3_session_create_control_streams_def bind_streams_def track_stream_def h3_stream_find_def
        insert_stream_def quiet_env_def quiet_ng_def new_session_def sample_st_def Let_def)
  have n: "new_objects ?cs (sx_session ?sx)"
    by (auto simp: new_objects_def fresh_qstream_def new_session_def)
  have "session_safe (sx_session ?sx)" by (simp add: new_session_safe)
  from control_streams_keep [OF this o n] c show ?thesis by blast
qed

section \<open>Destruction releases everything the session queued\<close>

lemma cancel_wf: "response_wf q \<Longrightarrow> response_wf (h3_stream_response_cancel_locked q)"
  by (simp add: response_wf_def queue_refines_cancel)

lemma cleanup_result:
  assumes "response_wf q"
  shows "\<exists>q'. h3_stream_response_cleanup_locked q = Some q' \<and> response_wf q' \<and> response_heap q' = Map.empty \<and>
    response_cancelled q' = response_cancelled q"
proof -
  obtain a where a: "queue_refines q a" using assms by (auto simp: response_wf_def)
  let ?q = "q\<lparr>response_heap := Map.empty, response_head := None, response_tail := None,
            response_submit_chunk := None, response_submit_offset := 0, response_buffered := 0\<rparr>"
  let ?a = "a\<lparr>spec_acked := length (spec_log a), spec_submitted := length (spec_log a)\<rparr>"
  have "queue_refines ?q ?a"
    using a unfolding queue_refines_def queue_rep_def
    by (intro exI [of _ "[]"] exI [of _ 0]) auto
  then show ?thesis using cleanup_frees_all [OF a] by (auto simp: response_wf_def)
qed

lemma discard_streams_result:
  "responses_wf se \<Longrightarrow> \<exists>se'. discard_streams es se = Some se' \<and> responses_wf se' \<and>
     (\<forall>r. if r \<in> snd ` set es then response_heap (se_store se' r) = Map.empty \<and> response_cancelled (se_store se' r)
          else se_store se' r = se_store se r) \<and>
     se' = se\<lparr>se_store := se_store se'\<rparr>"
proof (induction es arbitrary: se)
  case (Cons e es)
  obtain sid r where e: "e = (sid, r)" by (cases e)
  have wf: "response_wf (h3_stream_response_cancel_locked (se_store se r))"
    using Cons.prems by (simp add: responses_wf_def cancel_wf)
  have "response_cancelled (h3_stream_response_cancel_locked (se_store se r))"
    by (simp add: h3_stream_response_cancel_locked_def Let_def cond_broadcast_def)
  then obtain st where st: "h3_stream_response_cleanup_locked (h3_stream_response_cancel_locked (se_store se r)) = Some st"
      "response_wf st" "response_heap st = Map.empty" "response_cancelled st"
    using cleanup_result [OF wf] by auto
  have "responses_wf (upd_stream r (\<lambda>_. st) se)" using Cons.prems st(2) by (simp add: responses_wf_def)
  from Cons.IH [OF this] obtain se' where d: "discard_streams es (upd_stream r (\<lambda>_. st) se) = Some se'"
    and w: "responses_wf se'" and p: "\<And>r'. if r' \<in> snd ` set es
        then response_heap (se_store se' r') = Map.empty \<and> response_cancelled (se_store se' r')
        else se_store se' r' = se_store (upd_stream r (\<lambda>_. st) se) r'"
    and eq: "se' = (upd_stream r (\<lambda>_. st) se)\<lparr>se_store := se_store se'\<rparr>" by blast
  have eq': "se' = se\<lparr>se_store := se_store se'\<rparr>" by (subst eq) (simp add: upd_stream_def)
  have "if r' \<in> snd ` set (e # es)
        then response_heap (se_store se' r') = Map.empty \<and> response_cancelled (se_store se' r')
        else se_store se' r' = se_store se r'" for r'
    using p [of r'] st(3,4) by (auto simp: e split: if_splits)
  then show ?case using d st(1) w eq' by (simp add: e)
qed simp

text \<open>
  C14: Destroying a session always returns: every response byte still queued on a stream of the
  session is freed and its producer told to stop, the nghttp3 connection is deleted, and the QUIC
  objects released are exactly those waiting in \<^verbatim>\<open>pending_free\<close>, last queued first, and then the
  connection. A QUIC stream object still attached to a stream is not among them.
\<close>

theorem session_destroy_releases:
  assumes "hash_order_ok env" and "responses_wf (sx_session sx)"
  shows "\<exists>sx'. h3_session_destroy env sx = Some sx' \<and>
    (\<forall>e\<in>set (se_streams (sx_session sx)). response_heap (stream_of (snd e) sx') = Map.empty \<and>
       response_cancelled (stream_of (snd e) sx')) \<and>
    \<not> se_ngh3 (sx_session sx') \<and> se_pending_free (sx_session sx') = [] \<and> se_qconn (sx_session sx') = None \<and>
    sx_world sx' = h3q_conn_free (env_ssl env) (se_qconn (sx_session sx))
      (fold (SSL_free (env_ssl env)) (rev (se_pending_free (sx_session sx)))
        ((if se_ngh3 (sx_session sx) then nghttp3_conn_del (env_ng env) else id) (sx_world sx)))"
proof -
  let ?sx = "if se_ngh3 (sx_session sx)
    then on_session (\<lambda>se. se\<lparr>se_ngh3 := False\<rparr>) (on_world (nghttp3_conn_del (env_ng env)) sx) else sx"
  let ?es = "apr_hash_order env (se_streams (sx_session ?sx))"
  have same: "se_streams (sx_session ?sx) = se_streams (sx_session sx)" by simp
  have "mset ?es = mset (se_streams (sx_session sx))" using assms(1) by (simp add: hash_order_ok_def)
  then have es: "set ?es = set (se_streams (sx_session sx))" by (rule mset_eq_setD)
  have "responses_wf (sx_session ?sx)" using assms(2) by (simp add: responses_wf_def)
  from discard_streams_result [OF this, of ?es] obtain se' where
    d: "discard_streams ?es (sx_session ?sx) = Some se'"
    and p: "\<And>r. if r \<in> snd ` set ?es then response_heap (se_store se' r) = Map.empty \<and> response_cancelled (se_store se' r)
          else se_store se' r = se_store (sx_session ?sx) r"
    and eq: "se' = (sx_session ?sx)\<lparr>se_store := se_store se'\<rparr>" by blast
  have f: "se_pending_free se' = se_pending_free (sx_session sx)" "se_qconn se' = se_qconn (sx_session sx)" "\<not> se_ngh3 se'"
    by (subst eq, simp)+
  have "(\<lambda>q. h3q_stream_free (env_ssl env) (Some q)) = SSL_free (env_ssl env)"
    by (simp add: h3q_stream_free_def fun_eq_iff)
  then show ?thesis
    using d f p es by (auto simp: h3_session_destroy_def Let_def free_pending_def stream_of_def)
qed

text \<open>An OpenSSL whose world records the objects freed so far, three decimal digits each.\<close>

definition log_env :: "nat h3_env" where
  "log_env = quiet_env\<lparr>env_ssl := quiet_ssl\<lparr>SSL_free := (\<lambda>q w. 1000 * w + q)\<rparr>\<rparr>"

theorem session_destroy_releases_witness:
  "\<exists>sx'. h3_session_destroy log_env (sample_st\<lparr>sx_session := sample_session\<lparr>se_pending_free := [3, 4]\<rparr>\<rparr>) = Some sx' \<and>
     sx_world sx' = 4003050 \<and> st_qstream (stream_of 0 sample_st) = Some 7"
proof -
  let ?sx = "sample_st\<lparr>sx_session := sample_session\<lparr>se_pending_free := [3, 4]\<rparr>\<rparr>"
  have "hash_order_ok log_env" by (simp add: hash_order_ok_def log_env_def quiet_env_def)
  moreover have "responses_wf (sx_session ?sx)" by (auto simp: responses_wf_def sample_session_def)
  ultimately show ?thesis
    using session_destroy_releases [of log_env ?sx]
    by (auto simp: sample_st_def sample_session_def log_env_def quiet_env_def quiet_ng_def h3q_conn_free_def stream_of_def)
qed

end
