(* ===== verification/H3_Httpd.thy ===== *)
theory H3_Httpd
  imports H3_Session
begin

text \<open>
  What the module uses of httpd: tables, requests, buckets, and the calls that process a request.
  All of it is a parameter: tables are an abstract type with their documented operations, and
  httpd's processing of a request is a tree of the filter calls it makes. A request worker shares
  the session with the event thread, so its program is a sequence of lock-held actions between
  which other threads may run.
\<close>

section \<open>Tables\<close>

record 't table_api =
  apr_table_get :: "'t \<Rightarrow> string \<Rightarrow> string option"
  apr_table_set :: "string \<Rightarrow> string \<Rightarrow> 't \<Rightarrow> 't"
  apr_table_unset :: "string \<Rightarrow> 't \<Rightarrow> 't"
  apr_table_add :: "string \<Rightarrow> string \<Rightarrow> 't \<Rightarrow> 't"
  apr_table_elts :: "'t \<Rightarrow> (string option \<times> string option) list"
  apr_table_overlay :: "'t \<Rightarrow> 't \<Rightarrow> 't"
  apr_table_overlap_set :: "'t \<Rightarrow> 't \<Rightarrow> 't"
  apr_table_empty :: 't

section \<open>Requests\<close>

text \<open>
  The fields of \<^verbatim>\<open>request_rec\<close> the module reads or writes. \<open>r_main\<close> says whether the request is a
  subrequest; \<open>r_proxyreq\<close> whether \<^verbatim>\<open>proxyreq\<close> differs from \<^verbatim>\<open>PROXYREQ_NONE\<close>; an absent
  \<^verbatim>\<open>content_languages\<close> is the empty list.
\<close>

record 't request_rec =
  r_connection :: conn_rec
  r_server :: server_rec
  r_main :: bool
  r_initial :: bool
  r_handler :: string
  r_protocol :: string
  r_proto_num :: int
  r_method :: string
  r_method_number :: int
  r_header_only :: bool
  r_unparsed_uri :: string
  r_the_request :: "string option"
  r_request_time :: apr_time_t
  r_status :: int
  r_headers_in :: 't
  r_headers_out :: 't
  r_err_headers_out :: 't
  r_subprocess_env :: 't
  r_notes :: 't
  r_content_type :: "string option"
  r_content_encoding :: "string option"
  r_content_languages :: "string list"
  r_clength :: int
  r_chunked :: bool
  r_no_cache :: bool
  r_proxyreq :: bool

text \<open>
  Buckets of a brigade. Reading a data bucket gives a status and the bytes; a response bucket
  carries the status and the header entries of an \<^verbatim>\<open>ap_bucket_response\<close>.
\<close>

datatype bucket =
    BData apr_status_t "byte list"
  | BEos
  | BFlush
  | BMeta
  | BError
  | BResponse int "(string option \<times> string option) list option"

datatype ap_input_mode =
    AP_MODE_READBYTES
  | AP_MODE_GETLINE
  | AP_MODE_EATCRLF
  | AP_MODE_SPECULATIVE
  | AP_MODE_EXHAUSTIVE
  | AP_MODE_INIT

text \<open>
  httpd processing a request, as the calls it makes of the protocol filters: pass a brigade down,
  read from the body, or end with the request it leaves. \<open>OutSendError\<close> tells httpd that the filter
  called \<^verbatim>\<open>ap_send_error_response\<close>, whose own calls come next.
\<close>

datatype out_result = OutStatus apr_status_t | OutSendError

datatype (dead 't) req_prog =
    RpDone "'t request_rec"
  | RpOut "'t request_rec" "bucket list" "out_result \<Rightarrow> 't request_rec \<Rightarrow> 't req_prog"
  | RpIn "'t request_rec" ap_input_mode int "apr_status_t \<Rightarrow> bucket list \<Rightarrow> 't req_prog"

record 't httpd_api =
  tb :: "'t table_api"
  ap_cstr_casecmp :: "string \<Rightarrow> string \<Rightarrow> int"
  ap_find_token :: "string \<Rightarrow> string \<Rightarrow> bool"
  ap_list_items :: "string \<Rightarrow> string list"
  ap_make_content_type :: "'t request_rec \<Rightarrow> string option"
  ap_recent_rfc822_date :: "apr_time_t \<Rightarrow> string"
  ap_get_server_banner :: "string option"
  AP_STATUS_IS_HEADER_ONLY :: "int \<Rightarrow> bool"
  ap_method_number_of :: "string \<Rightarrow> int"
  ap_M_GET :: int
  ap_parse_uri :: "string \<Rightarrow> 't request_rec \<Rightarrow> 't request_rec"
  ap_update_vhost_from_headers :: "'t request_rec \<Rightarrow> 't request_rec"
  ap_process_request :: "'t request_rec \<Rightarrow> 't req_prog"
  ap_die :: "int \<Rightarrow> 't request_rec \<Rightarrow> 't req_prog"
  ap_next_filter :: "bucket list \<Rightarrow> out_result"

text \<open>Per-request state of the module, \<^verbatim>\<open>h3_conn_ctx_t\<close>; the body buffer is its initialised part.\<close>

record 't h3_conn_ctx =
  ctx_resp_status :: int
  ctx_resp_headers :: "'t option"
  ctx_dataheap :: "byte list"
  ctx_dataheapcap :: size_t
  ctx_server :: server_rec
  ctx_response_too_large :: bool
  ctx_stream :: "stream_ref option"
  ctx_streaming :: bool

definition ctx_dataheaplen :: "'t h3_conn_ctx \<Rightarrow> size_t" where
  "ctx_dataheaplen ctx = of_nat (length (ctx_dataheap ctx))"

section \<open>What a worker does to the session\<close>

text \<open>
  The accesses of a request worker to shared state, each made in one piece: a lock-held section,
  an atomic operation, or a use of request-body fields no other thread touches once the stream is
  dispatched. \<open>ActAppend data offset\<close> is one turn of the loop of \<^verbatim>\<open>h3_stream_response_append\<close>.
\<close>

datatype w_action =
    ActSubmit "(byte list \<times> byte list) list"
  | ActAppend "byte list" size_t
  | ActComplete
  | ActServe ap_input_mode int
  | ActDispatched bool
  | ActWorkerDone
  | ActDecTasks

datatype act_result =
    RStatus apr_status_t
  | RAppend append_result
  | RBrigade apr_status_t "bucket list"
  | RUnit

text \<open>
  A worker's program: do an action and go on with its result, or end; \<open>WFail\<close> is undefined
  behaviour or a loop that does not end.
\<close>

datatype (dead 'r) wprog = WRet 'r | WFail | WDo w_action "act_result \<Rightarrow> 'r wprog"

primrec wbind :: "'r wprog \<Rightarrow> ('r \<Rightarrow> 's wprog) \<Rightarrow> 's wprog" where
  "wbind (WRet x) f = f x"
| "wbind WFail f = WFail"
| "wbind (WDo a k) f = WDo a (\<lambda>y. wbind (k y) f)"

lemma wbind_assoc: "wbind (wbind p f) g = wbind p (\<lambda>x. wbind (f x) g)"
  by (induction p) simp_all

lemma wbind_ret [simp]: "wbind p WRet = p"
  by (induction p) simp_all

text \<open>An action whose result does not matter, and one that gives a status.\<close>

definition w_unit :: "w_action \<Rightarrow> unit wprog" where
  "w_unit a = WDo a (\<lambda>_. WRet ())"

definition w_status :: "w_action \<Rightarrow> apr_status_t wprog" where
  "w_status a = WDo a (\<lambda>y. WRet (case y of RStatus rv \<Rightarrow> rv | _ \<Rightarrow> APR_EGENERAL))"

section \<open>Strings\<close>

definition bytes_of_string :: "string \<Rightarrow> byte list" where
  "bytes_of_string s = map of_char s"

definition string_of_bytes :: "byte list \<Rightarrow> string" where
  "string_of_bytes bs = map (\<lambda>b. char_of (unat b)) bs"

end
