(* ===== verification/H3_Filter.thy ===== *)
theory H3_Filter
  imports H3_Httpd
begin

text \<open>
  The request body as the input filter serves it, and the response as the output filter takes it:
  \<^verbatim>\<open>h3_filter.c\<close>, with the part of \<^verbatim>\<open>h3_request.c\<close> that turns the response head into header fields
  and submits it. The flag \<open>devel\<close> is \<^verbatim>\<open>H3_DEVEL\<close>: an httpd with response buckets, rather than
  2.4.x, where the module finalises the head itself.
\<close>

section \<open>The input filter\<close>

definition find_newline :: "byte list \<Rightarrow> nat option" where
  "find_newline bs =
     (let n = length (takeWhile (\<lambda>b. b \<noteq> 10) bs) in if n < length bs then Some n else None)"

definition serve_want :: "ap_input_mode \<Rightarrow> int \<Rightarrow> size_t \<Rightarrow> byte list \<Rightarrow> size_t" where
  "serve_want mode readbytes avail unread =
     (if mode = AP_MODE_READBYTES \<or> mode = AP_MODE_SPECULATIVE
      then if readbytes > 0 \<and> word_of_int readbytes < avail then word_of_int readbytes else avail
      else if mode = AP_MODE_GETLINE
      then (case find_newline (take (unat avail) unread) of Some n \<Rightarrow> of_nat n + 1 | None \<Rightarrow> avail)
      else avail)"

definition serve_request_body ::
  "ap_input_mode \<Rightarrow> int \<Rightarrow> h3_stream \<Rightarrow> (apr_status_t \<times> bucket list) \<times> h3_stream" where
  "serve_request_body mode readbytes st =
     (if mode \<noteq> AP_MODE_READBYTES \<and> mode \<noteq> AP_MODE_GETLINE \<and> mode \<noteq> AP_MODE_EXHAUSTIVE \<and>
         mode \<noteq> AP_MODE_SPECULATIVE
      then ((APR_SUCCESS, []), st)
      else
        let avail = st_request_body_len st - st_request_body_offset st
        in if avail = 0 then ((APR_SUCCESS, [BEos]), st)
           else
             let unread = drop (unat (st_request_body_offset st)) (st_request_body st);
                 want = serve_want mode readbytes avail unread;
                 b = BData APR_SUCCESS (take (unat want) unread)
             in if mode = AP_MODE_SPECULATIVE then ((APR_SUCCESS, [b]), st)
                else
                  let st = st\<lparr>st_request_body_offset := st_request_body_offset st + want\<rparr>
                  in ((APR_SUCCESS,
                       if st_request_body_offset st \<ge> st_request_body_len st then [b, BEos] else [b]), st))"

text \<open>The stub of the network layer, on the brigade it is given; \<open>rest\<close> is the next filter, if any.\<close>

definition input_filter_eos ::
  "(bucket list \<Rightarrow> apr_status_t \<times> bucket list) option \<Rightarrow> ap_input_mode \<Rightarrow> bucket list \<Rightarrow> apr_status_t \<times> bucket list" where
  "input_filter_eos rest mode bb =
     (if mode \<noteq> AP_MODE_READBYTES \<and> mode \<noteq> AP_MODE_GETLINE
      then (case rest of None \<Rightarrow> (APR_EOF, bb) | Some f \<Rightarrow> f bb)
      else if bb \<noteq> [] then (APR_SUCCESS, bb)
      else (APR_SUCCESS, [BEos]))"

definition h3_filter_in ::
  "(bucket list \<Rightarrow> apr_status_t \<times> bucket list) option \<Rightarrow> ap_input_mode \<Rightarrow> bucket list \<Rightarrow> apr_status_t \<times> bucket list" where
  "h3_filter_in rest mode bb = input_filter_eos rest mode bb"

definition h3_filter_in_proto ::
  "'t h3_conn_ctx option \<Rightarrow> ap_input_mode \<Rightarrow> int \<Rightarrow> (apr_status_t \<times> bucket list) wprog" where
  "h3_filter_in_proto ctx mode readbytes =
     (case Option.bind ctx ctx_stream of
        None \<Rightarrow> WRet (input_filter_eos None mode [])
      | Some r \<Rightarrow> WDo (ActServe mode readbytes)
          (\<lambda>y. WRet (case y of RBrigade rv bb \<Rightarrow> (rv, bb) | _ \<Rightarrow> (APR_EGENERAL, []))))"

section \<open>Whole-response capture\<close>

definition capture_limit :: "'t h3_conn_ctx \<Rightarrow> size_t" where
  "capture_limit ctx = h3_max_response_body_size (module_config (ctx_server ctx))"

definition capture_grow :: "size_t \<Rightarrow> 't h3_conn_ctx \<Rightarrow> 't h3_conn_ctx option" where
  "capture_grow new_len ctx =
     (if new_len > ctx_dataheapcap ctx
      then map_option (\<lambda>c. ctx\<lparr>ctx_dataheapcap := c\<rparr>)
             (grow_cap (if ctx_dataheapcap ctx \<noteq> 0 then ctx_dataheapcap ctx * 2 else H3_BODY_BUF_INIT_CAP) new_len)
      else Some ctx)"

text \<open>\<^const>\<open>None\<close>: the doubling does not end, or the copy would leave the buffer.\<close>

definition capture_body_bucket :: "apr_status_t \<Rightarrow> byte list \<Rightarrow> 't h3_conn_ctx \<Rightarrow> 't h3_conn_ctx option" where
  "capture_body_bucket rv data ctx =
     (if ctx_response_too_large ctx then Some ctx
      else if rv \<noteq> APR_SUCCESS \<or> data = [] then Some ctx
      else
        let len = of_nat (length data); limit = capture_limit ctx
        in if ctx_dataheaplen ctx > limit \<or> len > limit - ctx_dataheaplen ctx
           then Some (ctx\<lparr>ctx_response_too_large := True\<rparr>)
           else do {
             ctx \<leftarrow> capture_grow (ctx_dataheaplen ctx + len) ctx;
             (if length (ctx_dataheap ctx) + length data \<le> unat (ctx_dataheapcap ctx)
              then Some (ctx\<lparr>ctx_dataheap := ctx_dataheap ctx @ data\<rparr>) else None)
           })"

section \<open>Finalising the head on 2.4.x\<close>

definition apr_isspace :: "char \<Rightarrow> bool" where
  "apr_isspace c \<longleftrightarrow> c \<in> {CHR '' '', CHR 0x09, CHR 0x0A, CHR 0x0B, CHR 0x0C, CHR 0x0D}"

definition is_sep :: "char \<Rightarrow> bool" where
  "is_sep c \<longleftrightarrow> c = CHR '','' \<or> apr_isspace c"

function field_tokens :: "string \<Rightarrow> string list" where
  "field_tokens e =
     (let s = dropWhile is_sep e in
      if s = [] then []
      else takeWhile (\<lambda>c. \<not> is_sep c) s # field_tokens (drop 1 (dropWhile (\<lambda>c. \<not> is_sep c) s)))"
  by auto

termination
proof (relation "measure length")
  fix e s
  assume s: "s = dropWhile is_sep e" and ne: "s \<noteq> []"
  have "length (drop 1 (dropWhile (\<lambda>c. \<not> is_sep c) s)) < length s"
    using ne length_dropWhile_le [of "\<lambda>c. \<not> is_sep c" s] by (cases s) auto
  also have "length s \<le> length e" unfolding s by (rule length_dropWhile_le)
  finally show "(drop 1 (dropWhile (\<lambda>c. \<not> is_sep c) s), e) \<in> measure length" by simp
qed simp

declare field_tokens.simps [simp del]

definition insert_value :: "'t httpd_api \<Rightarrow> string \<Rightarrow> string list \<Rightarrow> string list" where
  "insert_value api t values =
     (if \<exists>v\<in>set values. ap_cstr_casecmp api v t = 0 then values else values @ [t])"

definition uniq_field_values :: "'t httpd_api \<Rightarrow> string \<Rightarrow> string list \<Rightarrow> string list" where
  "uniq_field_values api val values = fold (insert_value api) (field_tokens val) values"

fun join_with :: "char \<Rightarrow> string list \<Rightarrow> string" where
  "join_with c [] = []"
| "join_with c [s] = s"
| "join_with c (s # t # ss) = s @ [c] @ join_with c (t # ss)"

text \<open>The values of the entries whose key is \<open>key\<close>, in table order: what \<^verbatim>\<open>apr_table_do\<close> visits.\<close>

definition table_values :: "'t httpd_api \<Rightarrow> string \<Rightarrow> 't \<Rightarrow> string list" where
  "table_values api key t =
     [v. (Some k, Some v) \<leftarrow> apr_table_elts (tb api) t, ap_cstr_casecmp api k key = 0]"

definition fix_vary :: "'t httpd_api \<Rightarrow> 't request_rec \<Rightarrow> 't request_rec" where
  "fix_vary api r =
     (let varies = fold (uniq_field_values api) (table_values api ''Vary'' (r_headers_out r)) []
      in if varies \<noteq> []
         then r\<lparr>r_headers_out := apr_table_set (tb api) ''Vary'' (join_with (CHR '','') varies) (r_headers_out r)\<rparr>
         else r)"

definition add_language :: "'t httpd_api \<Rightarrow> string \<Rightarrow> string list \<Rightarrow> string list" where
  "add_language api token languages =
     (if \<exists>l\<in>set languages. ap_cstr_casecmp api token l = 0 then languages else languages @ [token])"

definition upd_out :: "('t \<Rightarrow> 't) \<Rightarrow> 't request_rec \<Rightarrow> 't request_rec" where
  "upd_out f r = r\<lparr>r_headers_out := f (r_headers_out r)\<rparr>"

text \<open>The head in the steps the code takes, each on the request the one before left.\<close>

definition merge_err_headers :: "'t httpd_api \<Rightarrow> 't request_rec \<Rightarrow> 't request_rec" where
  "merge_err_headers api r =
     (if apr_table_elts (tb api) (r_err_headers_out r) \<noteq> []
      then r\<lparr>r_headers_out := apr_table_overlay (tb api) (r_err_headers_out r) (r_headers_out r),
             r_err_headers_out := apr_table_empty (tb api)\<rparr>
      else r)"

definition finalize_vary_etag :: "'t httpd_api \<Rightarrow> 't request_rec \<Rightarrow> 't request_rec" where
  "finalize_vary_etag api r =
     (let r = (if apr_table_get (tb api) (r_subprocess_env r) ''force-no-vary'' \<noteq> None
               then upd_out (apr_table_unset (tb api) ''Vary'') r else fix_vary api r)
      in if apr_table_get (tb api) (r_notes r) ''no-etag'' \<noteq> None
         then upd_out (apr_table_unset (tb api) ''ETag'') r else r)"

definition strip_body_fields :: "'t httpd_api \<Rightarrow> 't request_rec \<Rightarrow> 't request_rec" where
  "strip_body_fields api r =
     (if AP_STATUS_IS_HEADER_ONLY api (r_status r)
      then (upd_out (apr_table_unset (tb api) ''Content-Length'')
             (upd_out (apr_table_unset (tb api) ''Transfer-Encoding'') r))
             \<lparr>r_content_type := None, r_content_encoding := None, r_content_languages := [],
              r_clength := 0, r_chunked := False\<rparr>
      else r)"

definition finalize_content :: "'t httpd_api \<Rightarrow> 't request_rec \<Rightarrow> 't request_rec" where
  "finalize_content api r =
     (let r = (case ap_make_content_type api r of
                 Some ctype \<Rightarrow> upd_out (apr_table_set (tb api) ''Content-Type'' ctype) r | None \<Rightarrow> r);
          r = (case r_content_encoding r of
                 Some enc \<Rightarrow> upd_out (apr_table_set (tb api) ''Content-Encoding'' enc) r | None \<Rightarrow> r)
      in if r_content_languages r \<noteq> []
         then let items = (case apr_table_get (tb api) (r_headers_out r) ''Content-Language'' of
                             None \<Rightarrow> [] | Some field \<Rightarrow> ap_list_items api field);
                  r = r\<lparr>r_content_languages := fold (add_language api) items (r_content_languages r)\<rparr>
              in upd_out (apr_table_set (tb api) ''Content-Language''
                   (join_with (CHR '','') (r_content_languages r))) r
         else r)"

definition upd_out_if :: "bool \<Rightarrow> ('t \<Rightarrow> 't) \<Rightarrow> 't request_rec \<Rightarrow> 't request_rec" where
  "upd_out_if b f r = (if b then upd_out f r else r)"

definition finalize_dates :: "'t httpd_api \<Rightarrow> 't request_rec \<Rightarrow> 't request_rec" where
  "finalize_dates api r =
     (let get = (\<lambda>k r. apr_table_get (tb api) (r_headers_out r) k);
          date = ap_recent_rfc822_date api (r_request_time r);
          r = upd_out_if (r_no_cache r \<and> get ''Expires'' r = None) (apr_table_add (tb api) ''Expires'' date) r;
          r = upd_out_if (r_header_only r \<and> get ''Content-Length'' r = Some ''0'')
                (apr_table_unset (tb api) ''Content-Length'') r;
          r = upd_out_if (\<not> r_proxyreq r \<or> get ''Date'' r = None) (apr_table_set (tb api) ''Date'' date) r
      in (case ap_get_server_banner api of
            Some us \<Rightarrow> upd_out_if ((\<not> r_proxyreq r \<or> get ''Server'' r = None) \<and> us \<noteq> [])
                         (apr_table_set (tb api) ''Server'' us) r
          | None \<Rightarrow> r))"

definition h3_response_finalize ::
  "'t httpd_api \<Rightarrow> 't request_rec \<Rightarrow> 't h3_conn_ctx \<Rightarrow> 't request_rec \<times> 't h3_conn_ctx" where
  "h3_response_finalize api r ctx =
     (if ctx_resp_headers ctx \<noteq> None then (r, ctx)
      else
        let r = finalize_dates api (finalize_content api (strip_body_fields api
                  (finalize_vary_etag api (merge_err_headers api r))))
        in (r, ctx\<lparr>ctx_resp_status := r_status r, ctx_resp_headers := Some (r_headers_out r)\<rparr>))"

section \<open>Header fields of the response\<close>

definition connection_specific :: "string list" where
  "connection_specific =
     [''Connection'', ''Keep-Alive'', ''Proxy-Connection'', ''Transfer-Encoding'', ''Upgrade'', ''TE'']"

definition is_connection_specific :: "'t httpd_api \<Rightarrow> string \<Rightarrow> bool" where
  "is_connection_specific api k \<longleftrightarrow> (\<exists>n\<in>set connection_specific. ap_cstr_casecmp api k n = 0)"

fun nva_loop ::
  "'t httpd_api \<Rightarrow> string option \<Rightarrow> nat \<Rightarrow> (string option \<times> string option) list \<Rightarrow>
   (string \<times> string) list \<Rightarrow> (string \<times> string) list" where
  "nva_loop api conn_hdr nva_cap [] nva = nva"
| "nva_loop api conn_hdr nva_cap ((k, v) # es) nva =
     (if length nva \<ge> nva_cap then nva
      else (case (k, v) of
              (Some k, Some v) \<Rightarrow>
                if take 1 k = '':'' then nva_loop api conn_hdr nva_cap es nva
                else if is_connection_specific api k \<or> (case conn_hdr of Some c \<Rightarrow> ap_find_token api c k | None \<Rightarrow> False)
                then nva_loop api conn_hdr nva_cap es nva
                else nva_loop api conn_hdr nva_cap es (nva @ [(k, v)])
            | _ \<Rightarrow> nva_loop api conn_hdr nva_cap es nva))"

definition build_response_nva ::
  "'t httpd_api \<Rightarrow> nat \<Rightarrow> 't request_rec \<Rightarrow> 't h3_conn_ctx \<Rightarrow> (string \<times> string) list" where
  "build_response_nva api nva_cap r ctx =
     (let hdrs = (case ctx_resp_headers ctx of Some h \<Rightarrow> h | None \<Rightarrow> r_headers_out r);
          status = (if ctx_resp_status ctx \<noteq> 0 then ctx_resp_status ctx else r_status r);
          conn_hdr = apr_table_get (tb api) hdrs ''Connection''
      in nva_loop api conn_hdr nva_cap (apr_table_elts (tb api) hdrs) [('':status'', show_int status)])"

definition nv_bytes :: "(string \<times> string) list \<Rightarrow> (byte list \<times> byte list) list" where
  "nv_bytes nva = map (\<lambda>(k, v). (bytes_of_string k, bytes_of_string v)) nva"

definition submit_response_nva :: "(string \<times> string) list \<Rightarrow> apr_status_t wprog" where
  "submit_response_nva nva = w_status (ActSubmit (nv_bytes nva))"

definition h3_response_start ::
  "'t httpd_api \<Rightarrow> bool \<Rightarrow> 't request_rec \<Rightarrow> 't h3_conn_ctx \<Rightarrow>
   (apr_status_t \<times> 't request_rec \<times> 't h3_conn_ctx) wprog" where
  "h3_response_start api devel r ctx =
     (if ctx_stream ctx = None then WRet (APR_EINVAL, r, ctx)
      else
        let (r, ctx) = (if devel then (r, ctx) else h3_response_finalize api r ctx)
        in wbind (submit_response_nva (build_response_nva api 64 r ctx)) (\<lambda>rv. WRet (rv, r, ctx)))"

section \<open>The output filter\<close>

text \<open>The network layer's filter drops the brigade.\<close>

definition h3_filter_out :: "bucket list \<Rightarrow> apr_status_t \<times> bucket list" where
  "h3_filter_out bb = (APR_SUCCESS, [])"

definition is_metadata :: "bucket \<Rightarrow> bool" where
  "is_metadata b \<longleftrightarrow> (case b of BData _ _ \<Rightarrow> False | _ \<Rightarrow> True)"

text \<open>
  \<open>w_append\<close>: the call of \<^verbatim>\<open>h3_stream_response_append\<close>, which goes through its loop by itself (see
  the execution of \<open>ActAppend\<close>) and gives a status.
\<close>

definition w_append :: "byte list \<Rightarrow> apr_status_t wprog" where
  "w_append data = w_status (ActAppend data 0)"

text \<open>A response bucket's header entries, those with a null key or value dropped.\<close>

definition copy_headers :: "'t httpd_api \<Rightarrow> (string option \<times> string option) list \<Rightarrow> 't" where
  "copy_headers api es =
     fold (\<lambda>(k, v) t. case (k, v) of (Some k, Some v) \<Rightarrow> apr_table_add (tb api) k v t | _ \<Rightarrow> t) es
       (apr_table_empty (tb api))"

text \<open>One bucket: \<^const>\<open>None\<close> to go on with the next, or the result the filter returns.\<close>

definition take_response_bucket ::
  "'t httpd_api \<Rightarrow> int \<Rightarrow> (string option \<times> string option) list option \<Rightarrow> 't request_rec \<Rightarrow> 't h3_conn_ctx \<Rightarrow>
   (apr_status_t option \<times> 't request_rec \<times> 't h3_conn_ctx) wprog" where
  "take_response_bucket api status headers r ctx =
     (let ctx = ctx\<lparr>ctx_resp_status := status\<rparr>;
          ctx = (case headers of Some es \<Rightarrow> ctx\<lparr>ctx_resp_headers := Some (copy_headers api es)\<rparr> | None \<Rightarrow> ctx)
      in if ctx_streaming ctx
         then wbind (h3_response_start api True r ctx) (\<lambda>(rv, r, ctx).
                WRet (if rv \<noteq> APR_SUCCESS then Some rv else None, r, ctx))
         else WRet (None, r, ctx))"

definition take_data_bucket ::
  "'t httpd_api \<Rightarrow> bool \<Rightarrow> apr_status_t \<Rightarrow> byte list \<Rightarrow> 't request_rec \<Rightarrow> 't h3_conn_ctx \<Rightarrow>
   (apr_status_t option \<times> 't request_rec \<times> 't h3_conn_ctx) wprog" where
  "take_data_bucket api devel brv data r ctx =
     (if ctx_streaming ctx
      then wbind (h3_response_start api devel r ctx) (\<lambda>(rv, r, ctx).
             if rv \<noteq> APR_SUCCESS then WRet (Some rv, r, ctx)
             else if brv = APR_SUCCESS \<and> data \<noteq> []
             then wbind (w_append data) (\<lambda>rv. WRet (if rv \<noteq> APR_SUCCESS then Some rv else None, r, ctx))
             else WRet (if brv \<noteq> APR_SUCCESS then Some brv else None, r, ctx))
      else (case capture_body_bucket brv data ctx of
              None \<Rightarrow> WFail
            | Some ctx \<Rightarrow> WRet (None, r, ctx)))"

definition take_end_bucket ::
  "'t httpd_api \<Rightarrow> bool \<Rightarrow> bucket \<Rightarrow> 't request_rec \<Rightarrow> 't h3_conn_ctx \<Rightarrow>
   (apr_status_t option \<times> 't request_rec \<times> 't h3_conn_ctx) wprog" where
  "take_end_bucket api devel b r ctx =
     (if ctx_streaming ctx \<and> (b = BEos \<or> b = BFlush)
      then wbind (h3_response_start api devel r ctx) (\<lambda>(rv, r, ctx).
             if rv \<noteq> APR_SUCCESS then WRet (Some rv, r, ctx)
             else if b = BEos then wbind (w_unit ActComplete) (\<lambda>_. WRet (None, r, ctx))
             else WRet (None, r, ctx))
      else WRet (None, r, ctx))"

definition take_bucket ::
  "'t httpd_api \<Rightarrow> bool \<Rightarrow> bucket \<Rightarrow> 't request_rec \<Rightarrow> 't h3_conn_ctx \<Rightarrow>
   (apr_status_t option \<times> 't request_rec \<times> 't h3_conn_ctx) wprog" where
  "take_bucket api devel b r ctx =
     (case (devel, b) of
        (True, BResponse status headers) \<Rightarrow> take_response_bucket api status headers r ctx
      | _ \<Rightarrow>
        let (r, ctx) = (if \<not> devel \<and> (\<not> is_metadata b \<or> b = BEos \<or> b = BFlush)
                        then h3_response_finalize api r ctx else (r, ctx))
        in (case b of
              BData brv data \<Rightarrow>
                if \<not> devel \<and> (r_header_only r \<or> AP_STATUS_IS_HEADER_ONLY api (r_status r))
                then WRet (None, r, ctx)
                else take_data_bucket api devel brv data r ctx
            | _ \<Rightarrow> take_end_bucket api devel b r ctx))"

fun out_loop ::
  "'t httpd_api \<Rightarrow> bool \<Rightarrow> bucket list \<Rightarrow> 't request_rec \<Rightarrow> 't h3_conn_ctx \<Rightarrow>
   (out_result \<times> 't request_rec \<times> 't h3_conn_ctx) wprog" where
  "out_loop api devel [] r ctx = WRet (OutStatus APR_SUCCESS, r, ctx)"
| "out_loop api devel (b # bs) r ctx =
     (if b = BError then WRet (OutSendError, r, ctx)
      else wbind (take_bucket api devel b r ctx) (\<lambda>(ret, r, ctx).
             case ret of
               Some rv \<Rightarrow> WRet (OutStatus rv, r, ctx)
             | None \<Rightarrow> out_loop api devel bs r ctx))"

definition h3_filter_out_proto ::
  "'t httpd_api \<Rightarrow> bool \<Rightarrow> bucket list \<Rightarrow> 't request_rec \<Rightarrow> 't h3_conn_ctx option \<Rightarrow>
   (out_result \<times> 't request_rec \<times> 't h3_conn_ctx option) wprog" where
  "h3_filter_out_proto api devel bb r ctx =
     (case ctx of
        None \<Rightarrow> WRet (ap_next_filter api bb, r, None)
      | Some ctx \<Rightarrow>
          if r_main r then WRet (ap_next_filter api bb, r, Some ctx)
          else wbind (out_loop api devel bb r ctx) (\<lambda>(res, r, ctx). WRet (res, r, Some ctx)))"

text \<open>httpd's processing of a request, with the module's filters in place of the calls.\<close>

primrec run_request ::
  "'t httpd_api \<Rightarrow> bool \<Rightarrow> 't req_prog \<Rightarrow> 't h3_conn_ctx \<Rightarrow> ('t request_rec \<times> 't h3_conn_ctx) wprog" where
  "run_request api devel (RpDone r) ctx = WRet (r, ctx)"
| "run_request api devel (RpOut r bb k) ctx =
     wbind (h3_filter_out_proto api devel bb r (Some ctx)) (\<lambda>(res, r, ctx').
       run_request api devel (k res r) (case ctx' of Some c \<Rightarrow> c | None \<Rightarrow> ctx))"
| "run_request api devel (RpIn r mode readbytes k) ctx =
     wbind (h3_filter_in_proto (Some ctx) mode readbytes) (\<lambda>(rv, bb). run_request api devel (k rv bb) ctx)"

section \<open>Serving the body\<close>

text \<open>Reads one after the other, and the data and the end marker they produce.\<close>

fun serve_all ::
  "(ap_input_mode \<times> int) list \<Rightarrow> h3_stream \<Rightarrow> bucket list \<times> h3_stream" where
  "serve_all [] st = ([], st)"
| "serve_all ((mode, n) # reads) st =
     (case serve_request_body mode n st of
        ((_, bb), st) \<Rightarrow> (case serve_all reads st of (bb', st) \<Rightarrow> (bb @ bb', st)))"

fun bucket_data :: "bucket list \<Rightarrow> byte list" where
  "bucket_data [] = []"
| "bucket_data (BData rv data # bs) = data @ bucket_data bs"
| "bucket_data (b # bs) = bucket_data bs"

definition offset_ok :: "h3_stream \<Rightarrow> bool" where
  "offset_ok st \<longleftrightarrow> unat (st_request_body_len st) = length (st_request_body st) \<and>
     st_request_body_offset st \<le> st_request_body_len st"

text \<open>The reads that take data: httpd's speculative reads only look.\<close>

definition consuming :: "ap_input_mode \<Rightarrow> bool" where
  "consuming mode \<longleftrightarrow> mode = AP_MODE_READBYTES \<or> mode = AP_MODE_GETLINE \<or> mode = AP_MODE_EXHAUSTIVE"

lemma serve_want_bounds:
  assumes "0 < avail" and "unat avail \<le> length unread" and "n < 2 ^ 63"
  shows "0 < serve_want mode n avail unread" "serve_want mode n avail unread \<le> avail"
proof -
  have n: "0 < n \<Longrightarrow> 0 < (word_of_int n :: size_t)"
    using assms(3) by (simp add: word_less_def uint_word_of_int take_bit_int_eq_self)
  have "i + 1 \<le> unat avail \<and> unat (of_nat i + 1 :: size_t) = i + 1"
    if "find_newline (take (unat avail) unread) = Some i" for i
  proof -
    have "i < unat avail" using that by (auto simp: find_newline_def Let_def split: if_splits)
    moreover from this have "i + 1 < 2 ^ 64"
      using unat_size_t_bound [of avail] by (simp del: unat_size_t_bound)
    ultimately show ?thesis by (simp add: unat_word_ariths unat_of_nat)
  qed
  then show "0 < serve_want mode n avail unread" "serve_want mode n avail unread \<le> avail"
    using assms(1) n by (auto simp: serve_want_def word_le_nat_alt word_less_nat_alt split: option.splits)
qed

lemma serve_step:
  assumes "offset_ok st" and "n < 2 ^ 63" and "serve_request_body mode n st = ((rv, bb), st')"
    and "mode \<noteq> AP_MODE_SPECULATIVE"
  shows "\<exists>k. unat (st_request_body_offset st) + k \<le> length (st_request_body st) \<and>
    bucket_data bb = take k (drop (unat (st_request_body_offset st)) (st_request_body st)) \<and>
    st_request_body st' = st_request_body st \<and> offset_ok st' \<and>
    unat (st_request_body_offset st') = unat (st_request_body_offset st) + k \<and>
    (BEos \<in> set bb \<longrightarrow> unat (st_request_body_offset st) + k = length (st_request_body st)) \<and>
    (consuming mode \<longrightarrow> BEos \<in> set bb \<or> 0 < k)"
proof -
  let ?off = "st_request_body_offset st" and ?len = "st_request_body_len st"
  let ?avail = "?len - ?off" and ?unread = "drop (unat (st_request_body_offset st)) (st_request_body st)"
  have le: "?off \<le> ?len" "unat ?len = length (st_request_body st)" using assms(1) by (simp_all add: offset_ok_def)
  have av: "unat ?avail = length ?unread" using le by (simp add: unat_sub)
  show ?thesis
  proof (cases "consuming mode \<and> ?avail \<noteq> 0")
    case False
    then have "st' = st" "bb = (if consuming mode then [BEos] else [])" "consuming mode \<longrightarrow> ?avail = 0"
      using assms(3,4) by (auto simp: serve_request_body_def consuming_def Let_def split: if_splits)
    moreover have "unat ?off \<le> length (st_request_body st)" using le by (simp add: word_le_nat_alt)
    moreover have "?avail = 0 \<Longrightarrow> unat ?off = length (st_request_body st)" using le by simp
    ultimately show ?thesis using assms(1) by (intro exI [of _ 0]) auto
  next
    case True
    let ?want = "serve_want mode n ?avail ?unread"
    have "0 < ?avail" using True by (metis word_neq_0_conv)
    then have w: "0 < ?want" "?want \<le> ?avail"
      using serve_want_bounds [of ?avail ?unread n mode] av assms(2) by simp_all
    have off: "unat (?off + ?want) = unat ?off + unat ?want"
      using w(2) le av unat_size_t_bound [of ?len]
      by (intro unat_plus_no_overflow) (simp add: word_le_nat_alt del: unat_size_t_bound)
    have eq: "rv = APR_SUCCESS" "st' = st\<lparr>st_request_body_offset := ?off + ?want\<rparr>"
      "bb = (if ?off + ?want \<ge> ?len then [BData APR_SUCCESS (take (unat ?want) ?unread), BEos]
             else [BData APR_SUCCESS (take (unat ?want) ?unread)])"
      using assms(3,4) True by (auto simp: serve_request_body_def consuming_def Let_def)
    have k: "unat ?off + unat ?want \<le> length (st_request_body st)" "0 < unat ?want"
      using w le av by (simp_all add: word_le_nat_alt word_less_nat_alt)
    show ?thesis
      using k off le eq
      by (intro exI [of _ "unat ?want"]) (auto simp: offset_ok_def word_le_nat_alt split: if_splits)
  qed
qed

lemma bucket_data_append [simp]: "bucket_data (bs @ bs') = bucket_data bs @ bucket_data bs'"
  by (induction bs rule: bucket_data.induct) simp_all

lemma serve_all_result:
  "offset_ok st \<Longrightarrow> list_all (\<lambda>(mode, n). consuming mode \<and> n < 2 ^ 63) reads \<Longrightarrow>
   serve_all reads st = (bb, st') \<Longrightarrow>
   \<exists>k. unat (st_request_body_offset st) + k \<le> length (st_request_body st) \<and>
     bucket_data bb = take k (drop (unat (st_request_body_offset st)) (st_request_body st)) \<and>
     (BEos \<in> set bb \<longrightarrow> unat (st_request_body_offset st) + k = length (st_request_body st)) \<and>
     (BEos \<in> set bb \<or> length reads \<le> k)"
proof (induction reads arbitrary: st bb st')
  case Nil
  then show ?case by (intro exI [of _ 0]) (auto simp: offset_ok_def word_le_nat_alt)
next
  case (Cons x reads)
  obtain mode n where x: "x = (mode, n)" by (cases x)
  obtain rv bb1 st1 where s: "serve_request_body mode n st = ((rv, bb1), st1)" by (metis surj_pair)
  obtain bb2 st2 where r: "serve_all reads st1 = (bb2, st2)" by force
  have bb: "bb = bb1 @ bb2" using Cons.prems(3) s r by (simp add: x)
  have m: "consuming mode" "n < 2 ^ 63" "mode \<noteq> AP_MODE_SPECULATIVE"
    using Cons.prems(2) by (auto simp: x consuming_def)
  let ?off = "unat (st_request_body_offset st)"
  obtain k where k: "?off + k \<le> length (st_request_body st)"
      "bucket_data bb1 = take k (drop ?off (st_request_body st))" "st_request_body st1 = st_request_body st"
      "offset_ok st1" "unat (st_request_body_offset st1) = ?off + k"
      "BEos \<in> set bb1 \<longrightarrow> ?off + k = length (st_request_body st)" "BEos \<in> set bb1 \<or> 0 < k"
    using serve_step [OF Cons.prems(1) m(2) s m(3)] m(1) by blast
  obtain k' where k': "?off + k + k' \<le> length (st_request_body st)"
      "bucket_data bb2 = take k' (drop (?off + k) (st_request_body st))"
      "BEos \<in> set bb2 \<longrightarrow> ?off + k + k' = length (st_request_body st)" "BEos \<in> set bb2 \<or> length reads \<le> k'"
    using Cons.IH [OF k(4) _ r] Cons.prems(2) k(3,5) by auto
  have "bucket_data bb = take (k + k') (drop ?off (st_request_body st))"
    using k(2) k'(2) by (simp add: bb take_add [of k k'] add.commute [of k "?off"])
  then show ?case
    using k k' by (intro exI [of _ "k + k'"]) (auto simp: bb)
qed



section \<open>Capturing a whole response\<close>

fun capture_all :: "(apr_status_t \<times> byte list) list \<Rightarrow> 't h3_conn_ctx \<Rightarrow> 't h3_conn_ctx option" where
  "capture_all [] ctx = Some ctx"
| "capture_all ((rv, data) # bs) ctx = Option.bind (capture_body_bucket rv data ctx) (capture_all bs)"

definition readable :: "(apr_status_t \<times> byte list) list \<Rightarrow> byte list" where
  "readable bs = concat [data. (rv, data) \<leftarrow> bs, rv = APR_SUCCESS]"

definition heap_ok :: "'t h3_conn_ctx \<Rightarrow> bool" where
  "heap_ok ctx \<longleftrightarrow> length (ctx_dataheap ctx) \<le> unat (ctx_dataheapcap ctx) \<and>
     length (ctx_dataheap ctx) \<le> unat (capture_limit ctx)"

lemma capture_grow_total:
  assumes "unat new_len \<le> 2 ^ 62"
  shows "\<exists>ctx'. capture_grow new_len ctx = Some ctx' \<and> new_len \<le> ctx_dataheapcap ctx' \<and>
    ctx' = ctx\<lparr>ctx_dataheapcap := ctx_dataheapcap ctx'\<rparr>"
proof (cases "new_len > ctx_dataheapcap ctx")
  case True
  let ?c = "if ctx_dataheapcap ctx \<noteq> 0 then ctx_dataheapcap ctx * 2 else H3_BODY_BUF_INIT_CAP"
  have "unat (2 * ctx_dataheapcap ctx) = 2 * unat (ctx_dataheapcap ctx)"
    using True assms by (intro unat_double_no_overflow) (simp add: word_less_nat_alt)
  then have "0 < ?c"
    by (auto simp: H3_BODY_BUF_INIT_CAP_def word_less_nat_alt mult.commute unat_eq_0 simp flip: unat_gt_0)
  then obtain c where "grow_cap ?c new_len = Some c" "new_len \<le> c"
    using grow_cap_total [of ?c new_len] assms by auto
  then show ?thesis using True by (simp add: capture_grow_def)
next
  case False
  then show ?thesis by (simp add: capture_grow_def)
qed

lemma capture_step:
  assumes "heap_ok ctx" and "unat (capture_limit ctx) \<le> 2 ^ 61" and "length data < 2 ^ 63" and "\<not> ctx_response_too_large ctx"
  shows "\<exists>ctx'. capture_body_bucket rv data ctx = Some ctx' \<and> heap_ok ctx' \<and> ctx_server ctx' = ctx_server ctx \<and>
    (if rv \<noteq> APR_SUCCESS \<or> length (ctx_dataheap ctx) + length data \<le> unat (capture_limit ctx)
     then ctx_dataheap ctx' = ctx_dataheap ctx @ (if rv = APR_SUCCESS then data else []) \<and> \<not> ctx_response_too_large ctx'
     else ctx_response_too_large ctx' \<and> ctx_dataheap ctx' = ctx_dataheap ctx)"
proof (cases "rv \<noteq> APR_SUCCESS \<or> data = []")
  case True
  then show ?thesis using assms by (auto simp: capture_body_bucket_def heap_ok_def)
next
  case False
  let ?n = "length (ctx_dataheap ctx)" and ?limit = "capture_limit ctx"
  have len: "unat (of_nat (length data) :: size_t) = length data" "unat (ctx_dataheaplen ctx) = ?n"
    using assms by (auto simp: ctx_dataheaplen_def heap_ok_def unat_of_nat)
  have fits: "ctx_dataheaplen ctx > ?limit \<or> of_nat (length data) > ?limit - ctx_dataheaplen ctx \<longleftrightarrow>
      \<not> ?n + length data \<le> unat ?limit"
    using len assms(1) by (auto simp: heap_ok_def word_less_nat_alt unat_sub word_le_nat_alt)
  show ?thesis
  proof (cases "?n + length data \<le> unat ?limit")
    case no: False
    have "capture_body_bucket rv data ctx = Some (ctx\<lparr>ctx_response_too_large := True\<rparr>)"
      using False no fits assms(4) unfolding capture_body_bucket_def Let_def by simp
    then show ?thesis using False no assms by (auto simp: heap_ok_def capture_limit_def)
  next
    case True
    have new: "unat (ctx_dataheaplen ctx + of_nat (length data)) = ?n + length data"
      using len True assms(2) by (subst unat_plus_no_overflow) auto
    obtain ctx1 where g: "capture_grow (ctx_dataheaplen ctx + of_nat (length data)) ctx = Some ctx1"
      and c: "ctx_dataheaplen ctx + of_nat (length data) \<le> ctx_dataheapcap ctx1"
      and e: "ctx1 = ctx\<lparr>ctx_dataheapcap := ctx_dataheapcap ctx1\<rparr>"
      using capture_grow_total [of "ctx_dataheaplen ctx + of_nat (length data)" ctx] new True assms(2) by auto
    have same: "ctx_dataheap ctx1 = ctx_dataheap ctx" "ctx_server ctx1 = ctx_server ctx"
      "\<not> ctx_response_too_large ctx1"
      using assms(4) by (subst e, simp)+
    have fit: "?n + length data \<le> unat (ctx_dataheapcap ctx1)" using c new by (simp add: word_le_nat_alt)
    have "capture_body_bucket rv data ctx = Some (ctx1\<lparr>ctx_dataheap := ctx_dataheap ctx @ data\<rparr>)"
      using False True fits g same fit assms(4) unfolding capture_body_bucket_def Let_def by simp
    then show ?thesis
      using False True fit same by (simp add: heap_ok_def capture_limit_def)
  qed
qed

lemma capture_all_too_large: "ctx_response_too_large ctx \<Longrightarrow> capture_all bs ctx = Some ctx"
  by (induction bs) (auto simp: capture_body_bucket_def)

text \<open>
  C20: With a finite H3MaxResponseBodySize the module keeps the response body of a handler byte for
  byte as long as it fits the limit, and marks the response for a 500 answer exactly when it does
  not. No copy leaves the buffer and the doubling of its size always ends.
\<close>

theorem capture_exact:
  assumes "heap_ok ctx" and "unat (capture_limit ctx) \<le> 2 ^ 61" and "\<not> ctx_response_too_large ctx"
    and "list_all (\<lambda>(rv, data). length data < 2 ^ 63) bs"
  shows "\<exists>ctx'. capture_all bs ctx = Some ctx' \<and>
    (ctx_response_too_large ctx' \<longleftrightarrow>
       length (ctx_dataheap ctx) + length (readable bs) > unat (capture_limit ctx)) \<and>
    (\<not> ctx_response_too_large ctx' \<longrightarrow> ctx_dataheap ctx' = ctx_dataheap ctx @ readable bs)"
  using assms
proof (induction bs arbitrary: ctx)
  case Nil
  then show ?case by (auto simp: readable_def heap_ok_def)
next
  case (Cons b bs)
  obtain rv data where b: "b = (rv, data)" by (cases b)
  have data: "length data < 2 ^ 63" "list_all (\<lambda>(rv, data). length data < 2 ^ 63) bs"
    using Cons.prems(4) by (auto simp: b)
  have rd: "readable (b # bs) = (if rv = APR_SUCCESS then data else []) @ readable bs" by (simp add: readable_def b)
  obtain ctx1 where c: "capture_body_bucket rv data ctx = Some ctx1" "heap_ok ctx1" "ctx_server ctx1 = ctx_server ctx"
    and r: "if rv \<noteq> APR_SUCCESS \<or> length (ctx_dataheap ctx) + length data \<le> unat (capture_limit ctx)
     then ctx_dataheap ctx1 = ctx_dataheap ctx @ (if rv = APR_SUCCESS then data else []) \<and> \<not> ctx_response_too_large ctx1
     else ctx_response_too_large ctx1 \<and> ctx_dataheap ctx1 = ctx_dataheap ctx"
    using capture_step [OF Cons.prems(1,2) data(1) Cons.prems(3)] by blast
  have lim: "capture_limit ctx1 = capture_limit ctx" using c(3) by (simp add: capture_limit_def)
  show ?case
  proof (cases "ctx_response_too_large ctx1")
    case True
    then show ?thesis
      using r c(1) capture_all_too_large [OF True, of bs] rd by (auto simp: b split: if_splits)
  next
    case False
    then have "ctx_dataheap ctx1 = ctx_dataheap ctx @ (if rv = APR_SUCCESS then data else [])"
      using r by (auto split: if_splits)
    then show ?thesis
      using Cons.IH [OF c(2) _ False data(2)] Cons.prems(2) lim c(1) rd by (auto simp: b)
  qed
qed

definition small_ctx :: "'t h3_conn_ctx" where
  "small_ctx = \<lparr>ctx_resp_status = 0, ctx_resp_headers = None, ctx_dataheap = [], ctx_dataheapcap = 0,
     ctx_server = small_server\<lparr>module_config := small_conf\<lparr>h3_max_response_body_size := 4\<rparr>\<rparr>,
     ctx_response_too_large = False, ctx_stream = Some 0, ctx_streaming = False\<rparr>"

theorem capture_exact_witness:
  "(\<exists>ctx'. capture_all [(APR_SUCCESS, [1, 2]), (APR_SUCCESS, [3])] (small_ctx :: unit h3_conn_ctx) = Some ctx' \<and>
      ctx_dataheap ctx' = [1, 2, 3] \<and> \<not> ctx_response_too_large ctx') \<and>
   (\<exists>ctx'. capture_all [(APR_SUCCESS, [1, 2]), (APR_SUCCESS, [3, 4, 5])] (small_ctx :: unit h3_conn_ctx) = Some ctx' \<and>
      ctx_response_too_large ctx')"
proof -
  let ?ctx = "small_ctx :: unit h3_conn_ctx"
  have "heap_ok ?ctx" "unat (capture_limit ?ctx) = 4" "\<not> ctx_response_too_large ?ctx" "ctx_dataheap ?ctx = []"
    by (simp_all add: heap_ok_def capture_limit_def small_ctx_def)
  note use_it = capture_exact [OF this(1) _ this(3), unfolded this]
  from use_it [of "[(APR_SUCCESS, [1, 2]), (APR_SUCCESS, [3])]"]
    use_it [of "[(APR_SUCCESS, [1, 2]), (APR_SUCCESS, [3, 4, 5])]"]
  show ?thesis by (auto simp: readable_def)
qed

section \<open>The response head\<close>

definition sendable :: "'t httpd_api \<Rightarrow> string option \<Rightarrow> string \<Rightarrow> bool" where
  "sendable api conn_hdr k \<longleftrightarrow>
     take 1 k \<noteq> '':'' \<and> \<not> is_connection_specific api k \<and>
     (case conn_hdr of Some c \<Rightarrow> \<not> ap_find_token api c k | None \<Rightarrow> True)"

definition sendable_fields ::
  "'t httpd_api \<Rightarrow> string option \<Rightarrow> (string option \<times> string option) list \<Rightarrow> (string \<times> string) list" where
  "sendable_fields api conn_hdr es = [(k, v). (Some k, Some v) \<leftarrow> es, sendable api conn_hdr k]"

lemma nva_loop_eq:
  "nva_loop api conn_hdr cap es nva = nva @ take (cap - length nva) (sendable_fields api conn_hdr es)"
proof (induction api conn_hdr cap es nva rule: nva_loop.induct)
  case (2 api conn_hdr cap k v es nva)
  show ?case
  proof (cases "length nva \<ge> cap")
    case False
    then obtain m where m: "cap - length nva = Suc m" "cap - Suc (length nva) = m" by (metis Suc_diff_Suc not_le)
    show ?thesis
      using False 2 m by (auto simp: sendable_fields_def sendable_def split: option.splits)
  qed simp
qed (simp add: sendable_fields_def)

text \<open>
  C21: The header section the module sends is the status followed by the response's header fields in
  table order, without pseudo-header names, connection-specific fields and the fields named in
  Connection, cut off at 64 fields in all: field 64 and later are dropped without notice.
\<close>

theorem response_fields_exact:
  "build_response_nva api 64 r ctx =
     ('':status'', show_int (if ctx_resp_status ctx \<noteq> 0 then ctx_resp_status ctx else r_status r)) #
     take 63 (let hdrs = (case ctx_resp_headers ctx of Some h \<Rightarrow> h | None \<Rightarrow> r_headers_out r)
              in sendable_fields api (apr_table_get (tb api) hdrs ''Connection'') (apr_table_elts (tb api) hdrs))"
  by (simp add: build_response_nva_def nva_loop_eq Let_def)

text \<open>
  Documented behaviour of httpd and APR: header names compare without regard to ASCII case, and
  tables look names up that way.
\<close>

definition lower_char :: "char \<Rightarrow> char" where
  "lower_char c = (let n = (of_char c :: nat) in if 65 \<le> n \<and> n \<le> 90 then char_of (n + 32) else c)"

definition same_name :: "string \<Rightarrow> string \<Rightarrow> bool" where
  "same_name a b \<longleftrightarrow> map lower_char a = map lower_char b"

definition casecmp_ok :: "'t httpd_api \<Rightarrow> bool" where
  "casecmp_ok api \<longleftrightarrow> (\<forall>a b. ap_cstr_casecmp api a b = 0 \<longleftrightarrow> same_name a b)"

definition table_ok :: "'t httpd_api \<Rightarrow> bool" where
  "table_ok api \<longleftrightarrow>
     (\<forall>k v t k'. apr_table_get (tb api) (apr_table_set (tb api) k v t) k' =
        (if same_name k k' then Some v else apr_table_get (tb api) t k')) \<and>
     (\<forall>k t k'. apr_table_get (tb api) (apr_table_unset (tb api) k t) k' =
        (if same_name k k' then None else apr_table_get (tb api) t k')) \<and>
     (\<forall>k v t k'. apr_table_get (tb api) (apr_table_add (tb api) k v t) k' =
        (case apr_table_get (tb api) t k' of Some x \<Rightarrow> Some x
         | None \<Rightarrow> if same_name k k' then Some v else None))"

lemma same_name_refl [simp]: "same_name a a"
  by (simp add: same_name_def)

lemma same_name_length: "same_name a b \<Longrightarrow> length a = length b"
  unfolding same_name_def by (metis length_map)

section \<open>Vary\<close>

definition distinct_names :: "string list \<Rightarrow> bool" where
  "distinct_names vs \<longleftrightarrow> distinct (map (map lower_char) vs)"

lemma insert_value_names:
  assumes "casecmp_ok api"
  shows "distinct_names vs \<Longrightarrow> distinct_names (insert_value api t vs)"
    "map lower_char ` set (insert_value api t vs) = insert (map lower_char t) (map lower_char ` set vs)"
    "set (insert_value api t vs) \<subseteq> insert t (set vs)"
  using assms by (auto simp: insert_value_def distinct_names_def casecmp_ok_def same_name_def image_iff) metis

lemma insert_values_names:
  assumes "casecmp_ok api"
  shows "distinct_names vs \<Longrightarrow> distinct_names (fold (insert_value api) ts vs) \<and>
    map lower_char ` set (fold (insert_value api) ts vs) = map lower_char ` (set ts \<union> set vs) \<and>
    set (fold (insert_value api) ts vs) \<subseteq> set ts \<union> set vs"
proof (induction ts arbitrary: vs)
  case (Cons t ts)
  show ?case
    using Cons.IH [OF insert_value_names(1) [OF assms Cons.prems, of t]] insert_value_names(2,3) [OF assms, of t vs]
    by (auto simp: image_Un)
qed simp

lemma uniq_fold: "fold (uniq_field_values api) vals vs = fold (insert_value api) (concat (map field_tokens vals)) vs"
  by (induction vals arbitrary: vs) (simp_all add: uniq_field_values_def fold_append)

text \<open>
  The Vary field is merged into one: no two of its names agree up to case, each name of each
  Vary entry the handlers set is kept up to case, and nothing else gets in.
\<close>

theorem vary_merged:
  assumes "casecmp_ok api"
  shows "let varies = fold (uniq_field_values api) vals [] in
    distinct_names varies \<and>
    map lower_char ` set varies = map lower_char ` set (concat (map field_tokens vals)) \<and>
    set varies \<subseteq> set (concat (map field_tokens vals))"
  using insert_values_names [OF assms, of "[]" "concat (map field_tokens vals)"]
  by (simp add: uniq_fold distinct_names_def Let_def)

text \<open>Concrete tables: association lists.\<close>

definition alist_get :: "(string \<times> string) list \<Rightarrow> string \<Rightarrow> string option" where
  "alist_get t k = map_option snd (find (\<lambda>e. same_name (fst e) k) t)"

definition alist_unset :: "string \<Rightarrow> (string \<times> string) list \<Rightarrow> (string \<times> string) list" where
  "alist_unset k t = filter (\<lambda>e. \<not> same_name k (fst e)) t"

definition alist_set :: "string \<Rightarrow> string \<Rightarrow> (string \<times> string) list \<Rightarrow> (string \<times> string) list" where
  "alist_set k v t = alist_unset k t @ [(k, v)]"

definition alist_tables :: "(string \<times> string) list table_api" where
  "alist_tables = \<lparr>apr_table_get = alist_get, apr_table_set = alist_set, apr_table_unset = alist_unset,
     apr_table_add = (\<lambda>k v t. t @ [(k, v)]), apr_table_elts = map (\<lambda>(k, v). (Some k, Some v)),
     apr_table_overlay = (\<lambda>a b. a @ b), apr_table_overlap_set = (\<lambda>a b. fold (\<lambda>(k, v). alist_set k v) b a),
     apr_table_empty = []\<rparr>"

text \<open>An httpd on them whose handler sends two bytes and the end of the response.\<close>

definition alist_httpd :: "(string \<times> string) list httpd_api" where
  "alist_httpd = \<lparr>tb = alist_tables, ap_cstr_casecmp = (\<lambda>a b. if same_name a b then 0 else 1),
     ap_find_token = (\<lambda>line tok. tok \<in> set (field_tokens line)), ap_list_items = field_tokens,
     ap_make_content_type = r_content_type, ap_recent_rfc822_date = (\<lambda>t. ''date''),
     ap_get_server_banner = Some ''Apache'', AP_STATUS_IS_HEADER_ONLY = (\<lambda>n. n = 204 \<or> n = 304),
     ap_method_number_of = (\<lambda>m. if m = ''GET'' \<or> m = ''HEAD'' then 0 else 2), ap_M_GET = 0,
     ap_parse_uri = (\<lambda>uri r. r\<lparr>r_unparsed_uri := uri\<rparr>), ap_update_vhost_from_headers = (\<lambda>r. r),
     ap_process_request = (\<lambda>r. RpOut r [BData APR_SUCCESS [104, 105], BEos] (\<lambda>res r. RpDone r)),
     ap_die = (\<lambda>status r. RpOut (r\<lparr>r_status := status\<rparr>) [BEos] (\<lambda>res r. RpDone r)),
     ap_next_filter = (\<lambda>bb. OutStatus APR_SUCCESS)\<rparr>"

lemma find_append: "find P (xs @ ys) = (case find P xs of Some x \<Rightarrow> Some x | None \<Rightarrow> find P ys)"
  by (induction xs) simp_all

lemma find_filter_other:
  "(\<And>x. x \<in> set xs \<Longrightarrow> P x \<Longrightarrow> Q x) \<Longrightarrow> find P (filter Q xs) = find P xs"
  by (induction xs) auto

lemma alist_get_unset:
  "alist_get (alist_unset k t) k' = (if same_name k k' then None else alist_get t k')"
proof (cases "same_name k k'")
  case True
  then have "find (\<lambda>e. same_name (fst e) k') (alist_unset k t) = None"
    by (auto simp: find_None_iff alist_unset_def same_name_def)
  then show ?thesis using True by (simp add: alist_get_def)
next
  case False
  have "find (\<lambda>e. same_name (fst e) k') (alist_unset k t) = find (\<lambda>e. same_name (fst e) k') t"
    unfolding alist_unset_def by (rule find_filter_other) (use False in \<open>auto simp: same_name_def\<close>)
  then show ?thesis using False by (simp add: alist_get_def)
qed

lemma alist_httpd_ok: "casecmp_ok alist_httpd" "table_ok alist_httpd"
proof -
  show "casecmp_ok alist_httpd" by (simp add: casecmp_ok_def alist_httpd_def)
  have set: "alist_get (alist_set k v t) k' = (if same_name k k' then Some v else alist_get t k')" for k v t k'
    using alist_get_unset [of k t k']
    by (auto simp: alist_set_def alist_get_def find_append split: option.splits if_splits)
  have add: "alist_get (t @ [(k, v)]) k' = (case alist_get t k' of Some x \<Rightarrow> Some x
      | None \<Rightarrow> if same_name k k' then Some v else None)" for k v t k'
    by (auto simp: alist_get_def find_append split: option.splits)
  show "table_ok alist_httpd"
    by (simp add: table_ok_def alist_httpd_def alist_tables_def set add alist_get_unset)
qed

theorem vary_merged_witness:
  "distinct_names (fold (uniq_field_values alist_httpd) [''Accept, Cookie'', ''accept''] []) \<and>
   map lower_char ` set (fold (uniq_field_values alist_httpd) [''Accept, Cookie'', ''accept''] []) =
     map lower_char ` set (concat (map field_tokens [''Accept, Cookie'', ''accept'']))"
  using vary_merged [OF alist_httpd_ok(1), of "[''Accept, Cookie'', ''accept'']"] by (simp only: Let_def)

section \<open>Finalising\<close>

lemma table_laws:
  assumes "table_ok api"
  shows "apr_table_get (tb api) (apr_table_set (tb api) k v t) k' =
      (if same_name k k' then Some v else apr_table_get (tb api) t k')"
    "apr_table_get (tb api) (apr_table_unset (tb api) k t) k' =
      (if same_name k k' then None else apr_table_get (tb api) t k')"
    "apr_table_get (tb api) (apr_table_add (tb api) k v t) k' =
      (case apr_table_get (tb api) t k' of Some x \<Rightarrow> Some x | None \<Rightarrow> if same_name k k' then Some v else None)"
  using assms by (simp_all add: table_ok_def)

lemma other_names [simp]:
  "\<not> same_name ''Server'' ''Date''" "\<not> same_name ''Server'' ''Content-Length''" "\<not> same_name ''Server'' ''Transfer-Encoding''"
  "\<not> same_name ''Date'' ''Content-Length''" "\<not> same_name ''Date'' ''Transfer-Encoding''"
  "\<not> same_name ''Expires'' ''Content-Length''" "\<not> same_name ''Expires'' ''Transfer-Encoding''"
  "\<not> same_name ''Content-Type'' ''Content-Length''" "\<not> same_name ''Content-Type'' ''Transfer-Encoding''"
  "\<not> same_name ''Content-Length'' ''Transfer-Encoding''" "\<not> same_name ''Transfer-Encoding'' ''Content-Length''"
  by (auto dest: same_name_length)

lemma upd_out_if_fields [simp]:
  "r_status (upd_out_if b f r) = r_status r" "r_proxyreq (upd_out_if b f r) = r_proxyreq r"
  "r_request_time (upd_out_if b f r) = r_request_time r"
  by (simp_all add: upd_out_if_def upd_out_def)

lemma upd_out_if_head: "r_headers_out (upd_out_if b f r) = (if b then f (r_headers_out r) else r_headers_out r)"
  by (simp add: upd_out_if_def upd_out_def)

lemma finalize_dates_status [simp]: "r_status (finalize_dates api r) = r_status r"
  by (simp add: finalize_dates_def Let_def split: option.split)

lemma finalize_dates_date:
  assumes "table_ok api" and "\<not> r_proxyreq r"
  shows "apr_table_get (tb api) (r_headers_out (finalize_dates api r)) ''Date'' =
      Some (ap_recent_rfc822_date api (r_request_time r))"
  by (simp add: finalize_dates_def Let_def upd_out_if_head table_laws [OF assms(1)] assms(2) split: option.split)

lemma finalize_dates_absent:
  assumes "table_ok api" and "k = ''Content-Length'' \<or> k = ''Transfer-Encoding''"
    and "apr_table_get (tb api) (r_headers_out r) k = None"
  shows "apr_table_get (tb api) (r_headers_out (finalize_dates api r)) k = None"
proof -
  have n: "\<not> same_name ''Expires'' k" "\<not> same_name ''Date'' k" "\<not> same_name ''Server'' k"
    using assms(2) by auto
  have step: "apr_table_get (tb api) (r_headers_out (upd_out_if b (apr_table_set (tb api) n v) r)) k = None"
    "apr_table_get (tb api) (r_headers_out (upd_out_if b (apr_table_add (tb api) n v) r)) k = None"
    "apr_table_get (tb api) (r_headers_out (upd_out_if b (apr_table_unset (tb api) x) r)) k = None"
    if "apr_table_get (tb api) (r_headers_out r) k = None" "\<not> same_name n k" for b n v x and r :: "'a request_rec"
    using that by (simp_all add: upd_out_if_head table_laws [OF assms(1)])
  show ?thesis
    unfolding finalize_dates_def Let_def
    by (auto split: option.split intro!: step [OF _ n(3)] step(1) [OF _ n(2)] step(3) [OF _ n(1)] step(2) [OF _ n(1)] assms(3))
qed

lemma finalize_content_head:
  assumes "table_ok api"
  shows "r_content_encoding r = None \<Longrightarrow> r_content_languages r = [] \<Longrightarrow>
      apr_table_get (tb api) (r_headers_out r) ''Content-Length'' = None \<Longrightarrow>
      apr_table_get (tb api) (r_headers_out (finalize_content api r)) ''Content-Length'' = None"
    "r_content_encoding r = None \<Longrightarrow> r_content_languages r = [] \<Longrightarrow>
      apr_table_get (tb api) (r_headers_out r) ''Transfer-Encoding'' = None \<Longrightarrow>
      apr_table_get (tb api) (r_headers_out (finalize_content api r)) ''Transfer-Encoding'' = None"
    "r_status (finalize_content api r) = r_status r" "r_proxyreq (finalize_content api r) = r_proxyreq r"
    "r_request_time (finalize_content api r) = r_request_time r"
  by (auto simp: finalize_content_def Let_def upd_out_def table_laws [OF assms] split: option.split)

lemma strip_body_head:
  assumes "table_ok api"
  shows "AP_STATUS_IS_HEADER_ONLY api (r_status r) \<Longrightarrow>
      r_content_encoding (strip_body_fields api r) = None \<and> r_content_languages (strip_body_fields api r) = [] \<and>
      apr_table_get (tb api) (r_headers_out (strip_body_fields api r)) ''Content-Length'' = None \<and>
      apr_table_get (tb api) (r_headers_out (strip_body_fields api r)) ''Transfer-Encoding'' = None"
    "r_status (strip_body_fields api r) = r_status r" "r_proxyreq (strip_body_fields api r) = r_proxyreq r"
    "r_request_time (strip_body_fields api r) = r_request_time r"
  by (auto simp: strip_body_fields_def upd_out_def table_laws [OF assms])

lemma vary_etag_fields:
  "r_status (finalize_vary_etag api (merge_err_headers api r)) = r_status r"
  "r_proxyreq (finalize_vary_etag api (merge_err_headers api r)) = r_proxyreq r"
  "r_request_time (finalize_vary_etag api (merge_err_headers api r)) = r_request_time r"
  by (simp_all add: finalize_vary_etag_def merge_err_headers_def fix_vary_def upd_out_def Let_def)

text \<open>
  Finalising a response on httpd 2.4.x takes its snapshot once: a second call changes nothing.
  The snapshot holds the request's status; a response the server made itself carries the Date; and
  with a header-only status (204, 304) it has neither Content-Length nor Transfer-Encoding.
\<close>

theorem finalize_snapshot:
  assumes "table_ok api" and "ctx_resp_headers ctx = None" and "h3_response_finalize api r ctx = (r', ctx')"
  shows "h3_response_finalize api r' ctx' = (r', ctx') \<and> ctx_resp_status ctx' = r_status r \<and>
    (\<exists>h. ctx_resp_headers ctx' = Some h \<and>
       (\<not> r_proxyreq r \<longrightarrow> apr_table_get (tb api) h ''Date'' = Some (ap_recent_rfc822_date api (r_request_time r))) \<and>
       (AP_STATUS_IS_HEADER_ONLY api (r_status r) \<longrightarrow>
          apr_table_get (tb api) h ''Content-Length'' = None \<and> apr_table_get (tb api) h ''Transfer-Encoding'' = None))"
proof -
  let ?r1 = "finalize_vary_etag api (merge_err_headers api r)"
  let ?r2 = "strip_body_fields api ?r1"
  let ?r3 = "finalize_content api ?r2"
  have eq: "r' = finalize_dates api ?r3"
    "ctx' = ctx\<lparr>ctx_resp_status := r_status r', ctx_resp_headers := Some (r_headers_out r')\<rparr>"
    using assms(2,3) by (auto simp: h3_response_finalize_def Let_def)
  note heads = finalize_content_head [OF assms(1)] strip_body_head [OF assms(1)]
  have "r_status r' = r_status r" by (simp add: eq(1) heads vary_etag_fields)
  moreover have "\<not> r_proxyreq r \<Longrightarrow> apr_table_get (tb api) (r_headers_out r') ''Date'' =
      Some (ap_recent_rfc822_date api (r_request_time r))"
    using finalize_dates_date [OF assms(1), of ?r3] by (simp add: eq(1) heads vary_etag_fields)
  moreover have "AP_STATUS_IS_HEADER_ONLY api (r_status r) \<Longrightarrow>
      apr_table_get (tb api) (r_headers_out r') ''Content-Length'' = None \<and>
      apr_table_get (tb api) (r_headers_out r') ''Transfer-Encoding'' = None"
    using heads(6) [of ?r1] heads(1,2) [of ?r2] finalize_dates_absent [OF assms(1), of _ ?r3]
    by (simp add: eq(1) vary_etag_fields)
  ultimately show ?thesis by (simp add: eq(2) h3_response_finalize_def)
qed

definition sample_conn :: conn_rec where
  "sample_conn = \<lparr>c_id = 0, c_local_ip = ''0.0.0.0'', c_client_ip = ''0.0.0.0'', c_remote_host = None,
     c_client_addr = None, c_local_addr = None, c_notes = [(''IS_mod_http3'', ''1'')], c_logio = False,
     c_is_master = True\<rparr>"

definition sample_request :: "(string \<times> string) list request_rec" where
  "sample_request = \<lparr>r_connection = sample_conn, r_server = small_server, r_main = False, r_initial = True,
     r_handler = '''', r_protocol = ''HTTP/1.1'', r_proto_num = 1001, r_method = ''GET'', r_method_number = 0,
     r_header_only = False, r_unparsed_uri = '''', r_the_request = None, r_request_time = 0, r_status = 200,
     r_headers_in = [], r_headers_out = [], r_err_headers_out = [], r_subprocess_env = [], r_notes = [],
     r_content_type = None, r_content_encoding = None, r_content_languages = [], r_clength = 0,
     r_chunked = False, r_no_cache = False, r_proxyreq = False\<rparr>"

theorem finalize_snapshot_witness:
  "\<exists>r' ctx' h. h3_response_finalize alist_httpd
       (sample_request\<lparr>r_status := 304, r_headers_out := [(''Content-Length'', ''5'')]\<rparr>) small_ctx = (r', ctx') \<and>
     ctx_resp_headers ctx' = Some h \<and> ctx_resp_status ctx' = 304 \<and>
     alist_get h ''Date'' = Some ''date'' \<and> alist_get h ''Content-Length'' = None"
proof -
  let ?r = "sample_request\<lparr>r_status := 304, r_headers_out := [(''Content-Length'', ''5'')]\<rparr>"
  obtain r' ctx' where f: "h3_response_finalize alist_httpd ?r small_ctx = (r', ctx')" by force
  have c: "ctx_resp_headers small_ctx = None" by (simp add: small_ctx_def)
  have "\<not> r_proxyreq ?r" "r_status ?r = 304" by (simp_all add: sample_request_def)
  with finalize_snapshot [OF alist_httpd_ok(2) c f] f show ?thesis
    by (auto simp: alist_httpd_def alist_tables_def)
qed

end
