(* ===== verification/H3Q_Engine.thy ===== *)
theory H3Q_Engine
  imports H3Q_Transport
begin

text \<open>
  The QUIC listener (\<^verbatim>\<open>quic/h3q.c\<close>) and the filter BIO that recovers the peer address of each
  connection (\<^verbatim>\<open>quic/detail/h3q_addr.c\<close>), with the TLS context they use
  (\<^verbatim>\<open>quic/detail/h3q_tls.c\<close>). OpenSSL drives the filter: \<^verbatim>\<open>SSL_handle_events\<close> is a tree of the
  calls it makes of the two callbacks.
\<close>

section \<open>Datagrams\<close>

datatype bio_addr =
    AF_UNSPEC
  | AF_INET "byte list" apr_port_t
  | AF_INET6 "byte list" apr_port_t
  | AF_OTHER int

record h3q_datagram =
  dg_data :: "byte list"
  dg_peer :: "bio_addr option"
  dg_local :: "bio_addr option"

text \<open>
  \<open>eg_queue\<close> is the linked list from \<^verbatim>\<open>peer_rx_head\<close> to \<^verbatim>\<open>peer_rx_tail\<close>; \<open>eg_peers\<close> is the
  connections' \<^verbatim>\<open>ex_data\<close> at \<^verbatim>\<open>peer_addr_ex_index\<close>.
\<close>

record h3q_engine =
  eg_listener :: bool
  eg_current_peer_addr :: bio_addr
  eg_peer_addr_ex_index :: int
  eg_queue :: "h3q_datagram list"
  eg_peers :: "cptr \<Rightarrow> bio_addr option"

text \<open>A message slot the caller offers: the room for data, and whether it wants the two addresses.\<close>

record bio_slot =
  sl_room :: nat
  sl_peer :: bool
  sl_local :: bool

section \<open>The receive queue\<close>

definition h3q_queue_drop_head :: "h3q_engine \<Rightarrow> h3q_engine" where
  "h3q_queue_drop_head eg = eg\<lparr>eg_queue := tl (eg_queue eg)\<rparr>"

definition h3q_peer_addr_queue_clear :: "h3q_engine \<Rightarrow> h3q_engine" where
  "h3q_peer_addr_queue_clear eg = eg\<lparr>eg_queue := []\<rparr>"

text \<open>\<open>alloc i\<close>: the allocations for the \<open>i\<close>-th message succeed.\<close>

fun h3q_queue_fill :: "(nat \<Rightarrow> bool) \<Rightarrow> nat \<Rightarrow> h3q_datagram list \<Rightarrow> h3q_engine \<Rightarrow> bool \<times> h3q_engine" where
  "h3q_queue_fill alloc i [] eg = (True, eg)"
| "h3q_queue_fill alloc i (m # ms) eg =
     (if \<not> alloc i \<or> dg_data m = [] then (False, h3q_peer_addr_queue_clear eg)
      else h3q_queue_fill alloc (Suc i) ms (eg\<lparr>eg_queue := eg_queue eg @ [m]\<rparr>))"

text \<open>
  What lands in the first slot: the data, and the addresses copied into it. A slot whose address is
  wanted but which the datagram does not have keeps what it held before.
\<close>

definition slot_addr :: "bool \<Rightarrow> bio_addr option \<Rightarrow> bio_addr option \<Rightarrow> bio_addr option" where
  "slot_addr wanted old new = (if wanted then (case new of Some a \<Rightarrow> Some a | None \<Rightarrow> old) else None)"

definition h3q_queue_pop :: "bio_slot \<Rightarrow> h3q_datagram \<Rightarrow> h3q_engine \<Rightarrow> h3q_datagram option \<times> h3q_engine" where
  "h3q_queue_pop slot old eg =
     (case eg_queue eg of
        [] \<Rightarrow> (None, eg)
      | item # _ \<Rightarrow>
          if sl_room slot < length (dg_data item) then (None, h3q_queue_drop_head eg)
          else (Some \<lparr>dg_data = dg_data item, dg_peer = slot_addr (sl_peer slot) (dg_peer old) (dg_peer item),
                      dg_local = slot_addr (sl_local slot) (dg_local old) (dg_local item)\<rparr>,
                h3q_queue_drop_head eg))"

definition note_peer :: "bio_addr option \<Rightarrow> h3q_engine \<Rightarrow> h3q_engine" where
  "note_peer peer eg = (case peer of Some a \<Rightarrow> eg\<lparr>eg_current_peer_addr := a\<rparr> | None \<Rightarrow> eg)"

text \<open>
  \<open>recv\<close> is what the BIO below returns: its status and the messages it received, which are in the
  caller's slots. The result is the return value and the message delivered in the first slot.
\<close>

definition h3q_peer_addr_bio_recvmmsg ::
  "(nat \<Rightarrow> bool) \<Rightarrow> int \<times> h3q_datagram list \<Rightarrow> bio_slot \<Rightarrow> h3q_datagram \<Rightarrow> h3q_engine \<Rightarrow>
   (int \<times> h3q_datagram option) \<times> h3q_engine" where
  "h3q_peer_addr_bio_recvmmsg alloc recv slot old eg =
     (let eg = eg\<lparr>eg_current_peer_addr := AF_UNSPEC\<rparr>
      in if eg_queue eg \<noteq> []
         then (case h3q_queue_pop slot old eg of
                 (None, eg) \<Rightarrow> ((0, None), eg)
               | (Some m, eg) \<Rightarrow> ((1, Some m), note_peer (dg_peer m) eg))
         else
           let (rv, ms) = recv
           in if rv \<noteq> 0 \<and> ms \<noteq> []
              then (case h3q_queue_fill alloc 0 ms eg of
                      (False, eg) \<Rightarrow> ((0, None), eg)
                    | (True, eg) \<Rightarrow>
                        (case h3q_queue_pop slot (hd ms) eg of
                           (None, eg) \<Rightarrow> ((0, None), eg)
                         | (Some m, eg) \<Rightarrow> ((rv, Some m), note_peer (dg_peer m) eg)))
              else ((rv, None), eg))"

definition h3q_peer_addr_bio_destroy :: "h3q_engine \<Rightarrow> int \<times> h3q_engine" where
  "h3q_peer_addr_bio_destroy eg = (1, h3q_peer_addr_queue_clear eg)"

text \<open>\<open>dup\<close> and \<open>stored\<close>: copying the address and storing it succeed.\<close>

definition h3q_new_pending_conn_cb :: "bool \<Rightarrow> bool \<Rightarrow> cptr \<Rightarrow> h3q_engine \<Rightarrow> int \<times> h3q_engine" where
  "h3q_new_pending_conn_cb dup stored conn eg =
     (if eg_peer_addr_ex_index eg < 0 \<or> eg_current_peer_addr eg = AF_UNSPEC then (1, eg)
      else if \<not> dup \<or> \<not> stored then (0, eg)
      else (1, eg\<lparr>eg_peers := (eg_peers eg)(conn := Some (eg_current_peer_addr eg))\<rparr>))"

section \<open>Reading a connection's peer\<close>

datatype sockaddr = sockaddr_in "byte list" apr_port_t | sockaddr_in6 "byte list" apr_port_t

definition h3q_engine_peer_addr :: "h3q_engine option \<Rightarrow> cptr option \<Rightarrow> sockaddr option" where
  "h3q_engine_peer_addr engine conn =
     (case (engine, conn) of
        (Some eg, Some c) \<Rightarrow>
          if eg_peer_addr_ex_index eg < 0 then None
          else (case eg_peers eg c of
                  Some (AF_INET raw port) \<Rightarrow> if length raw = 4 then Some (sockaddr_in raw port) else None
                | Some (AF_INET6 raw port) \<Rightarrow> if length raw = 16 then Some (sockaddr_in6 raw port) else None
                | _ \<Rightarrow> None)
      | _ \<Rightarrow> None)"

section \<open>Driving OpenSSL\<close>

text \<open>
  \<^verbatim>\<open>SSL_handle_events\<close>: a tree of the receive calls (with the slot offered and what the socket
  gives) and new-connection callbacks it makes, ending with its result.
\<close>

datatype (dead 'w) ev_prog =
    EvDone 'w int
  | EvRecv 'w "nat \<Rightarrow> bool" "int \<times> h3q_datagram list" bio_slot h3q_datagram "int \<times> h3q_datagram option \<Rightarrow> 'w ev_prog"
  | EvPending 'w bool bool cptr "int \<Rightarrow> 'w ev_prog"

primrec run_events :: "'w ev_prog \<Rightarrow> h3q_engine \<Rightarrow> (int \<times> 'w) \<times> h3q_engine" where
  "run_events (EvDone w rv) eg = ((rv, w), eg)"
| "run_events (EvRecv w alloc recv slot old k) eg =
     (case h3q_peer_addr_bio_recvmmsg alloc recv slot old eg of (res, eg) \<Rightarrow> run_events (k res) eg)"
| "run_events (EvPending w dup stored conn k) eg =
     (case h3q_new_pending_conn_cb dup stored conn eg of (rv, eg) \<Rightarrow> run_events (k rv) eg)"

text \<open>The loop that hands on what is queued; it ends when OpenSSL takes datagrams off the queue.\<close>

partial_function (option) pump_loop ::
  "('w \<Rightarrow> 'w ev_prog) \<Rightarrow> int \<Rightarrow> 'w \<Rightarrow> h3q_engine \<Rightarrow> ((int \<times> 'w) \<times> h3q_engine) option" where
  "pump_loop handle work w eg =
     (if eg_queue eg = [] then Some ((work, w), eg)
      else case run_events (handle w) eg of
             ((rv, w), eg) \<Rightarrow> if rv \<noteq> 1 then Some ((- 1, w), eg) else pump_loop handle 1 w eg)"

definition h3q_engine_pump ::
  "('w \<Rightarrow> 'w ev_prog) \<Rightarrow> 'w \<Rightarrow> h3q_engine option \<Rightarrow> ((int \<times> 'w) \<times> h3q_engine option) option" where
  "h3q_engine_pump handle w engine =
     (case engine of
        None \<Rightarrow> Some ((0, w), None)
      | Some eg \<Rightarrow>
          if \<not> eg_listener eg then Some ((0, w), Some eg)
          else case run_events (handle w) eg of
                 ((rv, w), eg) \<Rightarrow>
                   if rv \<noteq> 1 then Some ((- 1, w), Some eg)
                   else map_option (\<lambda>(res, eg). (res, Some eg)) (pump_loop handle 0 w eg))"

text \<open>\<open>timeout\<close>: seconds and microseconds until the next timer, unless there is none.\<close>

definition h3q_engine_want ::
  "h3q_engine option \<Rightarrow> bool \<Rightarrow> bool \<Rightarrow> (int \<times> int) option \<Rightarrow> int \<Rightarrow> (bool \<times> bool) \<times> int" where
  "h3q_engine_want engine read_desired write_desired timeout timeout_ms =
     (case engine of
        None \<Rightarrow> ((False, False), 1000)
      | Some eg \<Rightarrow>
          if \<not> eg_listener eg then ((False, False), 1000)
          else
            let t = (case timeout of
                       None \<Rightarrow> timeout_ms
                     | Some (tv_sec, tv_usec) \<Rightarrow>
                         let ms = tv_sec * 1000 + (sgn tv_usec * (\<bar>tv_usec\<bar> div 1000))
                         in if ms \<ge> 0 \<and> ms < timeout_ms then ms else timeout_ms)
            in ((read_desired, write_desired), if t < 1 then 1 else t))"

definition h3q_engine_accept_conn ::
  "('w \<Rightarrow> cptr option \<times> 'w) \<Rightarrow> h3q_engine option \<Rightarrow> 'w \<Rightarrow> cptr option \<times> 'w" where
  "h3q_engine_accept_conn SSL_accept_connection engine w =
     (case engine of
        None \<Rightarrow> (None, w)
      | Some eg \<Rightarrow> if \<not> eg_listener eg then (None, w) else SSL_accept_connection w)"

section \<open>Creating and destroying the listener\<close>

text \<open>
  The objects the engine acquires; once the two BIOs are given to the listener they are released
  with it.
\<close>

datatype resource = REngine | RCtx | RMethod | RAddr | RListener | RBio | RFilter

text \<open>What the calls made by \<^verbatim>\<open>h3q_tls_ctx_create\<close> and \<^verbatim>\<open>h3q_engine_create\<close> return.\<close>

record engine_calls =
  calloc_ok :: bool
  SSL_CTX_new_ok :: bool
  SSL_CTX_use_certificate_chain_file_rv :: int
  SSL_CTX_use_PrivateKey_file_rv :: int
  BIO_meth_new_ok :: bool
  BIO_meth_set_ctrl_ok :: bool
  BIO_meth_set_sendmmsg_ok :: bool
  BIO_meth_set_recvmmsg_ok :: bool
  BIO_meth_set_destroy_ok :: bool
  BIO_ADDR_new_ok :: bool
  SSL_get_ex_new_index_rv :: int
  SSL_new_listener_ok :: bool
  BIO_new_dgram_ok :: bool
  BIO_new_ok :: bool
  SSL_listen_ok :: bool
  listener_nonblocking_ok :: bool

record h3q_config =
  cfg_cert_path :: string
  cfg_key_path :: string
  cfg_address_validation :: bool
  cfg_session_tickets :: bool

text \<open>The settings of the TLS context.\<close>

record tls_ctx =
  tls_min_version :: string
  tls_max_version :: string
  tls_cert :: string
  tls_key :: string
  tls_sid_ctx :: string
  tls_no_tickets :: bool
  tls_alpn_h3 :: bool
  tls_keylog :: bool

definition h3q_tls_ctx_create ::
  "engine_calls \<Rightarrow> bool \<Rightarrow> h3q_config \<Rightarrow> resource list \<Rightarrow> tls_ctx option \<times> resource list" where
  "h3q_tls_ctx_create calls keylogfile cfg held =
     (if \<not> SSL_CTX_new_ok calls then (None, held)
      else if SSL_CTX_use_certificate_chain_file_rv calls \<le> 0 \<or> SSL_CTX_use_PrivateKey_file_rv calls \<le> 0
      then (None, remove1 RCtx (RCtx # held))
      else (Some \<lparr>tls_min_version = ''TLSv1.3'', tls_max_version = ''TLSv1.3'',
                  tls_cert = cfg_cert_path cfg, tls_key = cfg_key_path cfg, tls_sid_ctx = ''mod_http3'',
                  tls_no_tickets = (\<not> cfg_session_tickets cfg), tls_alpn_h3 = True, tls_keylog = keylogfile\<rparr>,
            RCtx # held))"

text \<open>Releasing what is held; the listener takes the BIOs pushed onto it along.\<close>

definition free_listener :: "bool \<Rightarrow> resource list \<Rightarrow> resource list" where
  "free_listener owns_bios held =
     (let held = remove1 RListener held
      in if owns_bios then remove1 RBio (remove1 RFilter held) else held)"

definition h3q_engine_destroy :: "bool \<Rightarrow> resource list \<Rightarrow> resource list" where
  "h3q_engine_destroy owns_bios held =
     (let held = (if RListener \<in> set held then free_listener owns_bios held else held);
          held = (if RAddr \<in> set held then remove1 RAddr held else held);
          held = (if RMethod \<in> set held then remove1 RMethod held else held);
          held = (if RCtx \<in> set held then remove1 RCtx held else held)
      in remove1 REngine held)"

definition new_engine :: "int \<Rightarrow> h3q_engine" where
  "new_engine ex_index = \<lparr>eg_listener = True, eg_current_peer_addr = AF_UNSPEC, eg_peer_addr_ex_index = ex_index,
     eg_queue = [], eg_peers = (\<lambda>_. None)\<rparr>"

definition create_bios :: "engine_calls \<Rightarrow> resource list \<Rightarrow> h3q_engine option \<times> resource list" where
  "create_bios calls held =
     (if \<not> BIO_new_dgram_ok calls then (None, h3q_engine_destroy False held)
      else if \<not> BIO_new_ok calls then (None, h3q_engine_destroy False (remove1 RBio (RBio # held)))
      else
        let held = RFilter # RBio # held
        in if \<not> SSL_listen_ok calls \<or> \<not> listener_nonblocking_ok calls
           then (None, h3q_engine_destroy True held)
           else (Some (new_engine (SSL_get_ex_new_index_rv calls)), held))"

definition h3q_engine_create ::
  "engine_calls \<Rightarrow> bool \<Rightarrow> h3q_config \<Rightarrow> (h3q_engine \<times> tls_ctx \<times> bool) option \<times> resource list" where
  "h3q_engine_create calls keylogfile cfg =
     (if \<not> calloc_ok calls then (None, [])
      else case h3q_tls_ctx_create calls keylogfile cfg [REngine] of
        (None, held) \<Rightarrow> (None, h3q_engine_destroy False held)
      | (Some tls, held) \<Rightarrow>
          if \<not> BIO_meth_new_ok calls then (None, h3q_engine_destroy False held)
          else
            let held = RMethod # held
            in if \<not> BIO_meth_set_ctrl_ok calls \<or> \<not> BIO_meth_set_sendmmsg_ok calls \<or>
                  \<not> BIO_meth_set_recvmmsg_ok calls \<or> \<not> BIO_meth_set_destroy_ok calls
               then (None, h3q_engine_destroy False held)
               else
                 let held = (if BIO_ADDR_new_ok calls then RAddr # held else held)
                 in if \<not> BIO_ADDR_new_ok calls \<or> SSL_get_ex_new_index_rv calls < 0
                    then (None, h3q_engine_destroy False held)
                    else if \<not> SSL_new_listener_ok calls then (None, h3q_engine_destroy False held)
                    else (case create_bios calls (RListener # held) of
                            (engine, held) \<Rightarrow>
                              (map_option (\<lambda>eg. (eg, tls, \<not> cfg_address_validation cfg)) engine, held)))"

text \<open>
  The message \<^verbatim>\<open>h3q_tls_error\<close> leaves in a buffer of \<open>errlen\<close> bytes: the text, and the library's
  detail when there is one and it fits.
\<close>

definition h3q_tls_error :: "nat \<Rightarrow> string \<Rightarrow> string option \<Rightarrow> string option" where
  "h3q_tls_error errlen msg detail =
     (if errlen = 0 then None
      else let n = length msg in
           case detail of
             Some d \<Rightarrow>
               if n > 0 \<and> n + 2 < errlen
               then Some (take (errlen - 1) msg @ take (errlen - n - 1) ('': '' @ take 255 d))
               else Some (take (errlen - 1) msg)
           | None \<Rightarrow> Some (take (errlen - 1) msg))"

text \<open>\<open>select\<close>: \<^verbatim>\<open>SSL_select_next_proto\<close> with the server's list, agreeing when it gives a name.\<close>

definition h3q_tls_alpn_select_cb :: "(string list \<Rightarrow> string list \<Rightarrow> string option) \<Rightarrow> string list \<Rightarrow> string option" where
  "h3q_tls_alpn_select_cb select offered = select [''h3''] offered"

section \<open>Creation does not leak\<close>

text \<open>
  Creating the listener either succeeds with everything it needs held exactly once, or fails
  with every object it had acquired released, whichever call fails; and destroying a created
  listener releases everything.
\<close>

theorem engine_create_no_leak:
  "case h3q_engine_create calls keylogfile cfg of
     (None, held) \<Rightarrow> held = []
   | (Some (eg, tls, no_validate), held) \<Rightarrow>
       held = [RFilter, RBio, RListener, RAddr, RMethod, RCtx, REngine] \<and> h3q_engine_destroy True held = [] \<and>
       eg_queue eg = [] \<and> 0 \<le> eg_peer_addr_ex_index eg \<and>
       tls_min_version tls = ''TLSv1.3'' \<and> (no_validate \<longleftrightarrow> \<not> cfg_address_validation cfg)"
  by (simp add: h3q_engine_create_def h3q_tls_ctx_create_def create_bios_def h3q_engine_destroy_def
      free_listener_def new_engine_def Let_def)

text \<open>
  However long the message and the detail, the text left in the error buffer fits it with its
  terminator, and starts with as much of the message as fits.
\<close>

theorem tls_error_fits:
  "case h3q_tls_error errlen msg detail of
     None \<Rightarrow> errlen = 0
   | Some text \<Rightarrow> length text < errlen \<and> take (min (length msg) (errlen - 1)) text = take (errlen - 1) msg"
  by (auto simp: h3q_tls_error_def Let_def split: option.split)

text \<open>
  The poll timeout is never below a millisecond, so a due timer cannot make the event loop
  spin, never above what the caller asked for, and not later than the next timer OpenSSL reports.
\<close>

theorem engine_want_timeout:
  assumes "h3q_engine_want (Some eg) rd wr timeout timeout_ms = (want, t)" and "eg_listener eg" and "1 \<le> timeout_ms"
  shows "1 \<le> t \<and> t \<le> timeout_ms \<and>
    (\<forall>s u. timeout = Some (s, u) \<longrightarrow> 0 \<le> s \<longrightarrow> 0 \<le> u \<longrightarrow> t \<le> max 1 (s * 1000 + u div 1000))"
  using assms by (auto simp: h3q_engine_want_def Let_def sgn_if split: option.splits if_splits prod.splits)

theorem engine_want_timeout_witness:
  "\<exists>want t. h3q_engine_want (Some (new_engine 0)) True False (Some (0, 2500)) 1000 = (want, t) \<and> t = 2 \<and> 1 \<le> t \<and> t \<le> 1000"
proof -
  have l: "eg_listener (new_engine 0)" by (simp add: new_engine_def)
  have w: "h3q_engine_want (Some (new_engine 0)) True False (Some (0, 2500)) 1000 = ((True, False), 2)"
    by (simp add: h3q_engine_want_def new_engine_def)
  from engine_want_timeout [OF w l] w show ?thesis by auto
qed

section \<open>Datagrams arrive in order with their sender\<close>

text \<open>
  OpenSSL calling the filter \<open>n\<close> times over a socket that gives the batches \<open>net\<close>: the datagrams
  delivered, each with the peer address the engine then holds.
\<close>

fun receive ::
  "bio_slot \<Rightarrow> h3q_datagram \<Rightarrow> nat \<Rightarrow> h3q_datagram list list \<Rightarrow> h3q_engine \<Rightarrow>
   (h3q_datagram \<times> bio_addr) list \<times> h3q_datagram list list \<times> h3q_engine" where
  "receive slot old 0 net eg = ([], net, eg)"
| "receive slot old (Suc n) net eg =
     (case h3q_peer_addr_bio_recvmmsg (\<lambda>_. True) (if net = [] then (0, []) else (1, hd net)) slot old eg of
        ((rv, m), eg') \<Rightarrow>
          let net' = (if eg_queue eg = [] then tl net else net);
              (ds, net'', eg'') = receive slot old n net' eg'
          in (case m of None \<Rightarrow> ds | Some d \<Rightarrow> (d, eg_current_peer_addr eg') # ds, net'', eg''))"

definition plain_datagram :: "bio_slot \<Rightarrow> h3q_datagram \<Rightarrow> bool" where
  "plain_datagram slot d \<longleftrightarrow>
     dg_data d \<noteq> [] \<and> length (dg_data d) \<le> sl_room slot \<and> dg_peer d \<noteq> None \<and> dg_local d \<noteq> None"

lemma queue_fill_all:
  "list_all (\<lambda>d. dg_data d \<noteq> []) ms \<Longrightarrow>
   h3q_queue_fill (\<lambda>_. True) i ms eg = (True, eg\<lparr>eg_queue := eg_queue eg @ ms\<rparr>)"
  by (induction ms arbitrary: i eg) simp_all

lemma queue_pop_plain:
  assumes "eg_queue eg = d # ds" and "plain_datagram slot d" and "sl_peer slot" and "sl_local slot"
  shows "h3q_queue_pop slot old eg = (Some d, eg\<lparr>eg_queue := ds\<rparr>)"
  using assms by (auto simp: h3q_queue_pop_def plain_datagram_def slot_addr_def h3q_queue_drop_head_def)

lemma recvmmsg_plain:
  assumes "sl_peer slot" and "sl_local slot" and "list_all (plain_datagram slot) (eg_queue eg)"
    and "eg_queue eg = [] \<Longrightarrow> list_all (plain_datagram slot) ms"
  shows "(case if eg_queue eg = [] then ms else eg_queue eg of
      [] \<Rightarrow> h3q_peer_addr_bio_recvmmsg (\<lambda>_. True) (1, ms) slot old eg =
              ((1, None), eg\<lparr>eg_current_peer_addr := AF_UNSPEC\<rparr>)
    | d # ds \<Rightarrow> h3q_peer_addr_bio_recvmmsg (\<lambda>_. True) (1, ms) slot old eg =
              ((1, Some d), eg\<lparr>eg_current_peer_addr := the (dg_peer d), eg_queue := ds\<rparr>))"
proof (cases "eg_queue eg")
  case (Cons d ds)
  let ?eg = "eg\<lparr>eg_current_peer_addr := AF_UNSPEC\<rparr>"
  have pop: "h3q_queue_pop slot old ?eg = (Some d, ?eg\<lparr>eg_queue := ds\<rparr>)"
    using Cons assms(1-3) by (intro queue_pop_plain) auto
  have "dg_peer d \<noteq> None" using Cons assms(3) by (simp add: plain_datagram_def)
  then show ?thesis using Cons pop by (auto simp: h3q_peer_addr_bio_recvmmsg_def Let_def note_peer_def)
next
  case Nil
  show ?thesis
  proof (cases ms)
    case (Cons d ds)
    have plain: "list_all (plain_datagram slot) (d # ds)" using Nil assms(4) Cons by simp
    then have ne: "list_all (\<lambda>d. dg_data d \<noteq> []) (d # ds)" by (auto simp: list_all_iff plain_datagram_def)
    let ?eg = "eg\<lparr>eg_current_peer_addr := AF_UNSPEC\<rparr>"
    have fill: "h3q_queue_fill (\<lambda>_. True) 0 ms ?eg = (True, ?eg\<lparr>eg_queue := d # ds\<rparr>)"
      using queue_fill_all [OF ne, of 0 ?eg] Nil Cons by simp
    have pop: "h3q_queue_pop slot (hd ms) (?eg\<lparr>eg_queue := d # ds\<rparr>) = (Some d, ?eg\<lparr>eg_queue := ds\<rparr>)"
      using queue_pop_plain [of "?eg\<lparr>eg_queue := d # ds\<rparr>" d ds slot "hd ms"] plain assms(1,2) by simp
    have "dg_peer d \<noteq> None" using plain by (simp add: plain_datagram_def)
    then show ?thesis
      using Nil Cons fill pop by (auto simp: h3q_peer_addr_bio_recvmmsg_def Let_def note_peer_def)
  qed (simp add: Nil h3q_peer_addr_bio_recvmmsg_def Let_def)
qed


definition wide_slot :: bio_slot where
  "wide_slot = \<lparr>sl_room = 1500, sl_peer = True, sl_local = True\<rparr>"

definition dgram :: "byte \<Rightarrow> apr_port_t \<Rightarrow> h3q_datagram" where
  "dgram b port = \<lparr>dg_data = [b], dg_peer = Some (AF_INET [127, 0, 0, 1] port), dg_local = Some AF_UNSPEC\<rparr>"


text \<open>
  One datagram without payload in a batch makes the receive call fail and loses every other
  datagram of that batch.
\<close>

theorem empty_datagram_loses_batch:
  assumes "eg_queue eg = []" and "\<exists>d\<in>set ms. dg_data d = []" and "rv \<noteq> 0"
  shows "\<exists>eg'. h3q_peer_addr_bio_recvmmsg (\<lambda>_. True) (rv, ms) slot old eg = ((0, None), eg') \<and> eg_queue eg' = []"
proof -
  have fill: "\<exists>d\<in>set ms. dg_data d = [] \<Longrightarrow> \<exists>eg'. h3q_queue_fill (\<lambda>_. True) i ms eg = (False, eg') \<and> eg_queue eg' = []" for i eg
    by (induction ms arbitrary: i eg) (auto simp: h3q_peer_addr_queue_clear_def)
  obtain eg' where "h3q_queue_fill (\<lambda>_. True) 0 ms (eg\<lparr>eg_current_peer_addr := AF_UNSPEC\<rparr>) = (False, eg')" "eg_queue eg' = []"
    using fill [OF assms(2)] by blast
  moreover have "ms \<noteq> []" using assms(2) by auto
  ultimately show ?thesis using assms(1,3) by (simp add: h3q_peer_addr_bio_recvmmsg_def Let_def)
qed

theorem empty_datagram_loses_batch_witness:
  "\<exists>eg'. h3q_peer_addr_bio_recvmmsg (\<lambda>_. True) (1, [dgram 1 1001, (dgram 2 1002)\<lparr>dg_data := []\<rparr>]) wide_slot (dgram 0 0) (new_engine 0) =
     ((0, None), eg') \<and> eg_queue eg' = []"
  by (rule empty_datagram_loses_batch) (simp_all add: new_engine_def)

section \<open>The recorded peer\<close>

text \<open>
  The address \<^verbatim>\<open>h3q_engine_peer_addr\<close> reports for a connection is the IPv4 or IPv6 address and
  port of the datagram OpenSSL was handling when it announced the connection, whatever other
  connections were announced since.
\<close>

theorem peer_addr_round_trip:
  assumes "h3q_new_pending_conn_cb True True c eg = (rv, eg1)" and "0 \<le> eg_peer_addr_ex_index eg"
    and "eg_current_peer_addr eg = AF_INET a p \<and> length a = 4 \<and> addr = sockaddr_in a p \<or>
         eg_current_peer_addr eg = AF_INET6 a p \<and> length a = 16 \<and> addr = sockaddr_in6 a p"
    and "h3q_new_pending_conn_cb dup stored c' (eg1\<lparr>eg_current_peer_addr := other, eg_queue := q\<rparr>) = (rv', eg2)" and "c' \<noteq> c"
  shows "rv = 1 \<and> h3q_engine_peer_addr (Some eg2) (Some c) = Some addr"
  using assms by (auto simp: h3q_new_pending_conn_cb_def h3q_engine_peer_addr_def split: if_splits)

theorem peer_addr_round_trip_witness:
  "\<exists>rv eg1 rv' eg2. h3q_new_pending_conn_cb True True 7 ((new_engine 0)\<lparr>eg_current_peer_addr := AF_INET [127, 0, 0, 1] 4433\<rparr>) = (rv, eg1) \<and>
     h3q_new_pending_conn_cb True True 8 (eg1\<lparr>eg_current_peer_addr := AF_INET [10, 0, 0, 1] 5, eg_queue := []\<rparr>) = (rv', eg2) \<and>
     h3q_engine_peer_addr (Some eg2) (Some 7) = Some (sockaddr_in [127, 0, 0, 1] 4433)"
proof -
  let ?eg = "(new_engine 0)\<lparr>eg_current_peer_addr := AF_INET [127, 0, 0, 1] 4433\<rparr>"
  obtain rv eg1 where one: "h3q_new_pending_conn_cb True True 7 ?eg = (rv, eg1)" by force
  obtain rv' eg2 where two: "h3q_new_pending_conn_cb True True 8
      (eg1\<lparr>eg_current_peer_addr := AF_INET [10, 0, 0, 1] 5, eg_queue := []\<rparr>) = (rv', eg2)" by force
  from peer_addr_round_trip [OF one _ _ two, of "[127, 0, 0, 1]" 4433 "sockaddr_in [127, 0, 0, 1] 4433"] one two
  show ?thesis by (auto simp: new_engine_def)
qed

section \<open>The pump ends\<close>

lemma pump_loop_ends:
  assumes "\<And>w eg w' eg'. eg_queue eg \<noteq> [] \<Longrightarrow> run_events (handle w) eg = ((1, w'), eg') \<Longrightarrow>
      length (eg_queue eg') + left w' < length (eg_queue eg) + left w"
  shows "\<exists>rv w' eg'. pump_loop handle work w eg = Some ((rv, w'), eg') \<and> (rv = - 1 \<or> eg_queue eg' = [])"
proof (induction "length (eg_queue eg) + left w" arbitrary: work w eg rule: less_induct)
  case less
  obtain rv w1 eg1 where e: "run_events (handle w) eg = ((rv, w1), eg1)" by (metis surj_pair)
  show ?case
  proof (cases "eg_queue eg \<noteq> [] \<and> rv = 1")
    case True
    then show ?thesis using less [of eg1 w1 1] assms [of eg w w1 eg1] e by (subst pump_loop.simps) auto
  qed (use e in \<open>subst pump_loop.simps, auto\<close>)
qed


text \<open>An OpenSSL that takes one datagram per call.\<close>

definition one_at_a_time :: "nat \<Rightarrow> nat ev_prog" where
  "one_at_a_time w = EvRecv w (\<lambda>_. True) (0, []) wide_slot (dgram 0 0) (\<lambda>res. EvDone (Suc w) 1)"


end
