(* ===== verification/H3_Request.thy ===== *)
theory H3_Request
  imports H3_Filter H3Q_Engine
begin

text \<open>
  Requests (\<^verbatim>\<open>h3_request.c\<close>): the connection record made for a session, the hand-over of a
  completed stream to a worker, and the worker's program. A worker's actions are executed one at a
  time on the session, so that the event thread and other workers may run in between.
\<close>

section \<open>The connection record\<close>

text \<open>
  \<^verbatim>\<open>strtoul\<close> in base ten: the value and the rest of the text; without digits nothing is consumed.
  A value beyond the range of \<^verbatim>\<open>unsigned long\<close> gives its maximum, a minus sign negates.
\<close>

definition is_digit :: "char \<Rightarrow> bool" where
  "is_digit c \<longleftrightarrow> (48 :: nat) \<le> of_char c \<and> of_char c \<le> (57 :: nat)"

definition strtoul :: "string \<Rightarrow> uint64_t \<times> string" where
  "strtoul s =
     (let t = dropWhile apr_isspace s;
          neg = (take 1 t = ''-'');
          u = (if neg \<or> take 1 t = ''+'' then drop 1 t else t);
          ds = takeWhile is_digit u;
          v = foldl (\<lambda>n c. 10 * n + (of_char c - 48)) (0 :: nat) ds
      in if ds = [] then (0, s)
         else (if v \<ge> 2 ^ 64 then - 1 else if neg then - of_nat v else of_nat v, dropWhile is_digit u))"

record addr_api =
  getnameinfo :: "sockaddr \<Rightarrow> (string \<times> string) option"
  apr_sockaddr_info_get :: "string \<Rightarrow> apr_port_t \<Rightarrow> (string \<times> apr_port_t) option"
  apr_sockaddr_ip_get :: "string \<times> apr_port_t \<Rightarrow> string option"

definition peer_addr_resolve ::
  "addr_api \<Rightarrow> h3q_engine option \<Rightarrow> cptr option \<Rightarrow> ((string \<times> apr_port_t) \<times> string) option" where
  "peer_addr_resolve aa engine qconn = do {
     peer \<leftarrow> h3q_engine_peer_addr engine qconn;
     (host, serv) \<leftarrow> getnameinfo aa peer;
     let (port, end) = strtoul serv;
     (if serv = [] \<or> end \<noteq> [] \<or> port > 65535 then None
      else do {
        resolved \<leftarrow> apr_sockaddr_info_get aa host (ucast port);
        ip \<leftarrow> apr_sockaddr_ip_get aa resolved;
        Some (resolved, ip)
      })
   }"

text \<open>
  \<open>child_io\<close> is \<^const>\<open>None\<close> when \<^verbatim>\<open>child_h3_io\<close> is NULL, else its engine; \<open>seq\<close> is
  \<^verbatim>\<open>h3_conn_id_seq\<close> and \<open>logio\<close> says whether mod_logio is loaded.
\<close>

definition h3_synth_conn ::
  "'w h3_env \<Rightarrow> addr_api \<Rightarrow> h3q_engine option option \<Rightarrow> bool \<Rightarrow> apr_uint32_t \<Rightarrow> 'w h3_st \<Rightarrow>
   conn_rec option \<times> apr_uint32_t \<times> 'w h3_st" where
  "h3_synth_conn env aa child_io logio seq sx =
     (case apr_pool_create env (sx_world sx) of
        (False, w) \<Rightarrow> (None, seq, sx\<lparr>sx_world := w\<rparr>)
      | (True, w) \<Rightarrow>
          let conf = se_conf (sx_session sx);
              vhost_port = (if host_port conf \<noteq> 0 then host_port conf else h3_port conf);
              c = \<lparr>c_id = uint seq, c_local_ip = ''0.0.0.0'', c_client_ip = ''0.0.0.0'',
                   c_remote_host = Some ''unknown'',
                   c_client_addr = apr_sockaddr_info_get aa ''0.0.0.0'' 0,
                   c_local_addr = apr_sockaddr_info_get aa ''0.0.0.0'' vhost_port,
                   c_notes = [(''IS_mod_http3'', ''1''), (''ssl-bypass'', ''1'')], c_logio = logio,
                   c_is_master = True\<rparr>;
              c = (case Option.bind child_io (\<lambda>engine. peer_addr_resolve aa engine (se_qconn (sx_session sx))) of
                     None \<Rightarrow> c
                   | Some (addr, ip) \<Rightarrow>
                       c\<lparr>c_client_addr := Some addr, c_client_ip := ip, c_remote_host := None\<rparr>)
          in (Some c, seq + 1, on_session (\<lambda>se. se\<lparr>se_c := Some c\<rparr>) (sx\<lparr>sx_world := w\<rparr>)))"

section \<open>Handing a stream to a worker\<close>

definition set_stream_dispatched :: "stream_ref \<Rightarrow> bool \<Rightarrow> 'w h3_st \<Rightarrow> 'w h3_st" where
  "set_stream_dispatched r b = on_session (upd_stream r (\<lambda>st. st\<lparr>st_dispatched := b\<rparr>))"

text \<open>
  The second connection record, made for the request: a copy of the session's, with its own notes
  table and logio configuration.
\<close>

definition request_conn :: "bool \<Rightarrow> conn_rec \<Rightarrow> conn_rec" where
  "request_conn logio c = c\<lparr>c_is_master := False, c_logio := logio\<rparr>"

text \<open>
  \<open>push\<close> is \<^verbatim>\<open>apr_thread_pool_push\<close>. The result is the connection record of the task queued, or
  \<^const>\<open>None\<close> when none was; outside, \<^const>\<open>None\<close> is the session without a connection record.
\<close>

definition add_tasks :: "apr_uint32_t \<Rightarrow> 'w h3_st \<Rightarrow> 'w h3_st" where
  "add_tasks n = on_session (\<lambda>se. se\<lparr>se_active_tasks := se_active_tasks se + n\<rparr>)"

definition h3_process_request ::
  "'w h3_env \<Rightarrow> ('w \<Rightarrow> bool \<times> 'w) \<Rightarrow> bool \<Rightarrow> stream_ref \<Rightarrow> 'w h3_st \<Rightarrow> (conn_rec option \<times> 'w h3_st) option" where
  "h3_process_request env push logio r sx =
     (if st_dispatched (stream_of r sx) then Some (None, sx)
      else
        let sx = set_stream_dispatched r True sx;
            (alloc_ok, w) = apr_allocator_create env (sx_world sx);
            (pool_ok, w) = (if alloc_ok then apr_pool_create_ex env w else (False, w));
            sx = sx\<lparr>sx_world := w\<rparr>
        in if \<not> pool_ok then Some (None, set_stream_dispatched r False sx)
           else (case se_c (sx_session sx) of
                   None \<Rightarrow> None
                 | Some master \<Rightarrow>
                     let c = request_conn logio master;
                         sx = add_tasks 1 sx;
                         (ok, w) = push (sx_world sx);
                         sx = sx\<lparr>sx_world := w\<rparr>
                     in Some (if ok then (Some c, sx)
                              else (None, add_tasks (- 1) (set_stream_dispatched r False sx)))))"

section \<open>The worker\<close>

definition HTTP_OK :: int where "HTTP_OK = 200"
definition HTTP_REQUEST_ENTITY_TOO_LARGE :: int where "HTTP_REQUEST_ENTITY_TOO_LARGE = 413"
definition HTTP_INTERNAL_SERVER_ERROR :: int where "HTTP_INTERNAL_SERVER_ERROR = 500"

text \<open>The request as the worker fills it in from the stream; \<open>r\<close> is fresh from \<^verbatim>\<open>ap_create_request\<close>.\<close>

definition worker_request :: "'t httpd_api \<Rightarrow> apr_time_t \<Rightarrow> h3_stream \<Rightarrow> 't request_rec \<Rightarrow> 't request_rec" where
  "worker_request api now st r =
     (let str = (\<lambda>v. string_of_bytes v);
          meth = (case st_method st of Some m \<Rightarrow> str m | None \<Rightarrow> ''GET'');
          r = r\<lparr>r_request_time := now, r_protocol := ''HTTP/3.0'', r_proto_num := 3000, r_method := meth,
                r_method_number := ap_method_number_of api meth,
                r_header_only := (ap_method_number_of api meth = ap_M_GET api \<and> take 1 meth = ''H'')\<rparr>;
          r = (case st_path st of
                 Some p \<Rightarrow>
                   let r = ap_parse_uri api (str p) r
                   in r\<lparr>r_the_request := Some (r_method r @ '' '' @ r_unparsed_uri r @ '' '' @ r_protocol r)\<rparr>
               | None \<Rightarrow> r);
          set_in = (\<lambda>k v r. r\<lparr>r_headers_in := apr_table_set (tb api) k v (r_headers_in r)\<rparr>);
          r = (case st_authority st of Some a \<Rightarrow> set_in ''Host'' (str a) r | None \<Rightarrow> r);
          r = (case st_scheme st of Some s \<Rightarrow> set_in ''Scheme'' (str s) r | None \<Rightarrow> r);
          r = (case st_headers st of
                 Some hs \<Rightarrow>
                   r\<lparr>r_headers_in := apr_table_overlap_set (tb api) (r_headers_in r)
                       (fold (\<lambda>(k, v). apr_table_add (tb api) (str k) (str v)) hs (apr_table_empty (tb api)))\<rparr>
               | None \<Rightarrow> r)
      in if st_request_body_len st > 0
         then set_in ''Content-Length'' (show_nat (unat (st_request_body_len st))) r else r)"

definition worker_ctx :: "server_rec \<Rightarrow> stream_ref \<Rightarrow> 't h3_conn_ctx" where
  "worker_ctx s r =
     \<lparr>ctx_resp_status = 0, ctx_resp_headers = None, ctx_dataheap = [], ctx_dataheapcap = 0, ctx_server = s,
      ctx_response_too_large = False, ctx_stream = Some r,
      ctx_streaming = (h3_max_response_body_size (module_config s) = H3_MAX_RESPONSE_BODY_SIZE_DEFAULT)\<rparr>"

text \<open>The two early returns; and the end of a served request.\<close>

definition worker_give_up :: "unit wprog" where
  "worker_give_up = wbind (w_unit (ActDispatched False)) (\<lambda>_. w_unit ActDecTasks)"

definition worker_finish :: "unit wprog" where
  "worker_finish = wbind (w_unit ActComplete) (\<lambda>_. wbind (w_unit ActWorkerDone) (\<lambda>_. w_unit ActDecTasks))"

definition oversized_msg :: string where
  "oversized_msg = ''Response exceeded H3MaxResponseBodySize'' @ [CHR 0x0A]"

definition worker_respond ::
  "'t httpd_api \<Rightarrow> bool \<Rightarrow> 't request_rec \<Rightarrow> 't h3_conn_ctx \<Rightarrow> (apr_status_t \<times> byte list) wprog" where
  "worker_respond api devel r ctx =
     (if ctx_response_too_large ctx
      then wbind (submit_response_nva [('':status'', show_int HTTP_INTERNAL_SERVER_ERROR), (''content-type'', ''text/plain'')])
             (\<lambda>rv. WRet (rv, bytes_of_string oversized_msg))
      else wbind (h3_response_start api devel r ctx) (\<lambda>(rv, r, ctx).
             WRet (rv, if \<not> ctx_streaming ctx then ctx_dataheap ctx else [])))"

text \<open>Running the request and sending what the filters did not send already.\<close>

definition worker_serve ::
  "'t httpd_api \<Rightarrow> bool \<Rightarrow> 't req_prog \<Rightarrow> 't h3_conn_ctx \<Rightarrow> unit wprog" where
  "worker_serve api devel prog ctx =
     wbind (run_request api devel prog ctx) (\<lambda>(r, ctx).
       wbind (worker_respond api devel r ctx) (\<lambda>(rv, body).
         if rv = APR_SUCCESS \<and> body \<noteq> [] then wbind (w_append body) (\<lambda>_. WRet ()) else WRet ()))"

text \<open>
  \<open>created\<close> and \<open>pool_ok\<close>: the request \<^verbatim>\<open>ap_create_request\<close> gave, if any, and whether the pool
  for the context could be made. \<open>st\<close> is the stream as the worker finds it: once it is dispatched
  its request fields do not change.
\<close>

definition stream_worker ::
  "'t httpd_api \<Rightarrow> bool \<Rightarrow> 't request_rec option \<Rightarrow> bool \<Rightarrow> apr_time_t \<Rightarrow> server_rec \<Rightarrow> stream_ref \<Rightarrow> h3_stream \<Rightarrow>
   unit wprog" where
  "stream_worker api devel created pool_ok now s ref st =
     (case created of
        None \<Rightarrow> worker_give_up
      | Some r \<Rightarrow>
          let r = worker_request api now st r
          in if \<not> pool_ok then worker_give_up
             else
               let r = ap_update_vhost_from_headers api r;
                   prog = (if r_status r \<noteq> HTTP_OK then ap_die api (r_status r) (r\<lparr>r_status := HTTP_OK\<rparr>)
                           else if st_request_body_overflow st
                           then ap_die api HTTP_REQUEST_ENTITY_TOO_LARGE r
                           else ap_process_request api r)
               in wbind (worker_serve api devel prog (worker_ctx s ref)) (\<lambda>_. worker_finish))"

section \<open>Executing a worker's actions\<close>

text \<open>\<open>wake\<close> is \<^verbatim>\<open>wake_event_thread\<close>, on the world outside.\<close>

definition do_submit ::
  "'w h3_env \<Rightarrow> ('w \<Rightarrow> 'w) \<Rightarrow> stream_ref \<Rightarrow> (byte list \<times> byte list) list \<Rightarrow> 'w h3_st \<Rightarrow>
   (apr_status_t \<times> 'w h3_st) option" where
  "do_submit env wake r nva sx =
     (let h3s = stream_of r sx; se = sx_session sx
      in if response_submitted h3s then Some (APR_SUCCESS, sx)
         else if response_cancelled h3s \<or> se_aborted se \<or> se_ngh3_dead se \<or> \<not> se_ngh3 se
         then Some (APR_ECONNABORTED, sx)
         else do {
           (rv, sx) \<leftarrow> call_ng env (nghttp3_conn_submit_response (env_ng env) (st_id h3s) nva) sx;
           Some (if rv = 0
                 then (APR_SUCCESS, on_world wake
                        (on_session (upd_stream r (\<lambda>st. st\<lparr>response_submitted := True\<rparr>)) sx))
                 else (APR_EGENERAL, on_session (upd_stream r h3_stream_response_cancel_locked) sx))
         })"

definition do_append ::
  "'w h3_env \<Rightarrow> malloc \<Rightarrow> ('w \<Rightarrow> 'w) \<Rightarrow> stream_ref \<Rightarrow> byte list \<Rightarrow> size_t \<Rightarrow> 'w h3_st \<Rightarrow>
   (append_result \<times> 'w h3_st) option" where
  "do_append env malloc wake r data offset sx =
     (let se = sx_session sx
      in map_option (\<lambda>(st, res).
           (res,
            case res of
              AppQueued n \<Rightarrow>
                on_world (\<lambda>w. wake (if response_submitted st
                                    then nghttp3_conn_resume_stream (env_ng env) (st_id st) w else w))
                  (on_session (upd_stream r (\<lambda>_. st)) sx)
            | _ \<Rightarrow> on_session (upd_stream r (\<lambda>_. st)) sx))
         (response_append_section malloc (se_aborted se) (se_ngh3_dead se) (se_ngh3 se) data
            (of_nat (length data)) offset (stream_of r sx)))"

definition do_complete :: "'w h3_env \<Rightarrow> ('w \<Rightarrow> 'w) \<Rightarrow> stream_ref \<Rightarrow> 'w h3_st \<Rightarrow> 'w h3_st" where
  "do_complete env wake r sx =
     (case h3_stream_response_complete (se_ngh3_dead (sx_session sx)) (se_ngh3 (sx_session sx)) (stream_of r sx) of
        (st, resume) \<Rightarrow>
          on_world (\<lambda>w. wake (if resume then nghttp3_conn_resume_stream (env_ng env) (st_id st) w else w))
            (on_session (upd_stream r (\<lambda>_. st)) sx))"

fun do_action ::
  "'w h3_env \<Rightarrow> malloc \<Rightarrow> ('w \<Rightarrow> 'w) \<Rightarrow> stream_ref \<Rightarrow> w_action \<Rightarrow> 'w h3_st \<Rightarrow> (act_result \<times> 'w h3_st) option" where
  "do_action env malloc wake r (ActSubmit nva) sx =
     map_option (\<lambda>(rv, sx). (RStatus rv, sx)) (do_submit env wake r nva sx)"
| "do_action env malloc wake r (ActAppend data offset) sx =
     map_option (\<lambda>(res, sx). (RAppend res, sx)) (do_append env malloc wake r data offset sx)"
| "do_action env malloc wake r ActComplete sx = Some (RUnit, do_complete env wake r sx)"
| "do_action env malloc wake r (ActServe mode n) sx =
     (case serve_request_body mode n (stream_of r sx) of
        ((rv, bb), st) \<Rightarrow> Some (RBrigade rv bb, on_session (upd_stream r (\<lambda>_. st)) sx))"
| "do_action env malloc wake r (ActDispatched b) sx = Some (RUnit, set_stream_dispatched r b sx)"
| "do_action env malloc wake r ActWorkerDone sx =
     Some (RUnit, on_session (upd_stream r (\<lambda>st. st\<lparr>st_worker_done := True\<rparr>)) sx)"
| "do_action env malloc wake r ActDecTasks sx = Some (RUnit, add_tasks (- 1) sx)"

text \<open>
  One step of a worker. The loop of \<^verbatim>\<open>h3_stream_response_append\<close> repeats its action: while the
  queue is full (\<open>wait\<close> is then the result of the timed wait) and until every byte is queued.
\<close>

definition after_append ::
  "apr_status_t \<Rightarrow> byte list \<Rightarrow> size_t \<Rightarrow> append_result \<Rightarrow> (act_result \<Rightarrow> 'r wprog) \<Rightarrow> 'r wprog" where
  "after_append wait data offset res k =
     (case res of
        AppWait \<Rightarrow>
          if wait \<noteq> APR_SUCCESS \<and> wait \<noteq> APR_TIMEUP then k (RStatus wait) else WDo (ActAppend data offset) k
      | AppReturn rv \<Rightarrow> k (RStatus rv)
      | AppQueued n \<Rightarrow>
          if offset + n < of_nat (length data) then WDo (ActAppend data (offset + n)) k
          else k (RStatus APR_SUCCESS))"

fun worker_step ::
  "'w h3_env \<Rightarrow> malloc \<Rightarrow> ('w \<Rightarrow> 'w) \<Rightarrow> apr_status_t \<Rightarrow> stream_ref \<Rightarrow> 'r wprog \<Rightarrow> 'w h3_st \<Rightarrow>
   ('r wprog \<times> 'w h3_st) option" where
  "worker_step env malloc wake wait r (WDo a k) sx =
     map_option (\<lambda>(y, sx).
       (case (a, y) of
          (ActAppend data offset, RAppend res) \<Rightarrow> after_append wait data offset res k
        | _ \<Rightarrow> k y, sx)) (do_action env malloc wake r a sx)"
| "worker_step env malloc wake wait r p sx = None"

section \<open>What a worker may do\<close>

text \<open>The actions that serve the request, as against those that end the task.\<close>

fun request_action :: "w_action \<Rightarrow> bool" where
  "request_action (ActSubmit nva) = True"
| "request_action (ActAppend data offset) = True"
| "request_action ActComplete = True"
| "request_action (ActServe mode n) = True"
| "request_action _ = False"

text \<open>
  \<open>wsafe A Q b p\<close>: every action of \<open>p\<close> is in \<open>A\<close>; none queues body bytes unless the head has been
  submitted (\<open>b\<close>, or a submission on the way that succeeded); and where \<open>p\<close> ends, \<open>Q\<close> holds of
  whether the head has been submitted and of the result.
\<close>

definition submits :: "w_action \<Rightarrow> act_result \<Rightarrow> bool" where
  "submits a y \<longleftrightarrow> (\<exists>nva. a = ActSubmit nva) \<and> y = RStatus APR_SUCCESS"

primrec wsafe :: "(w_action \<Rightarrow> bool) \<Rightarrow> (bool \<Rightarrow> 'r \<Rightarrow> bool) \<Rightarrow> bool \<Rightarrow> 'r wprog \<Rightarrow> bool" where
  "wsafe A Q b (WRet x) = Q b x"
| "wsafe A Q b WFail = True"
| "wsafe A Q b (WDo a k) =
     (A a \<and> ((\<exists>data offset. a = ActAppend data offset) \<longrightarrow> b) \<and> (\<forall>y. wsafe A Q (b \<or> submits a y) (k y)))"

lemma wsafe_bind:
  "wsafe A R b p \<Longrightarrow> (\<And>b x. R b x \<Longrightarrow> wsafe A Q b (f x)) \<Longrightarrow> wsafe A Q b (wbind p f)"
  by (induction p arbitrary: b) auto

lemma wsafe_mono: "wsafe A R b p \<Longrightarrow> (\<And>b x. R b x \<Longrightarrow> Q b x) \<Longrightarrow> wsafe A Q b p"
  by (induction p arbitrary: b) auto

definition starts :: "bool \<Rightarrow> apr_status_t \<times> 'a \<Rightarrow> bool" where
  "starts b x \<longleftrightarrow> (fst x = APR_SUCCESS \<longrightarrow> b)"

lemma wsafe_submit: "wsafe request_action (\<lambda>b rv. rv = APR_SUCCESS \<longrightarrow> b) b (submit_response_nva nva)"
  by (simp add: submit_response_nva_def w_status_def submits_def split: act_result.split)

lemma wsafe_append: "b \<Longrightarrow> wsafe request_action (\<lambda>b rv. b) b (w_append data)"
  by (simp add: w_append_def w_status_def)

lemma wsafe_complete: "wsafe request_action (\<lambda>_ _. True) b (w_unit ActComplete)"
  by (simp add: w_unit_def)

lemma wsafe_start: "wsafe request_action starts b (h3_response_start api devel r ctx)"
  by (auto simp: h3_response_start_def Let_def starts_def split: prod.split
      intro!: wsafe_bind [OF wsafe_submit])

lemma wsafe_take_bucket: "wsafe request_action (\<lambda>_ _. True) b (take_bucket api devel bk r ctx)"
proof -
  have resp: "wsafe request_action (\<lambda>_ _. True) b (take_response_bucket api status headers r ctx)" for status headers r ctx
    by (auto simp: take_response_bucket_def Let_def intro!: wsafe_bind [OF wsafe_start])
  have data: "wsafe request_action (\<lambda>_ _. True) b (take_data_bucket api devel brv bs r ctx)" for devel brv bs r ctx
    by (auto simp: take_data_bucket_def starts_def split: option.split
        intro!: wsafe_bind [OF wsafe_start] wsafe_bind [OF wsafe_append])
  have fin: "wsafe request_action (\<lambda>_ _. True) b (take_end_bucket api devel bk r ctx)" for devel bk r ctx
    by (auto simp: take_end_bucket_def intro!: wsafe_bind [OF wsafe_start] wsafe_bind [OF wsafe_complete])
  show ?thesis
    by (auto simp: take_bucket_def Let_def resp data fin split: bucket.split bool.split prod.split)
qed

lemma wsafe_out_loop: "wsafe request_action (\<lambda>_ _. True) b (out_loop api devel bb r ctx)"
  by (induction bb arbitrary: b r ctx) (auto split: option.split intro!: wsafe_bind [OF wsafe_take_bucket])

lemma wsafe_filters:
  "wsafe request_action (\<lambda>_ _. True) b (h3_filter_out_proto api devel bb r ctx)"
  "wsafe request_action (\<lambda>_ _. True) b (h3_filter_in_proto ctx mode n)"
  by (auto simp: h3_filter_out_proto_def h3_filter_in_proto_def split: option.split
      intro!: wsafe_bind [OF wsafe_out_loop])

lemma wsafe_run_request: "wsafe request_action (\<lambda>_ _. True) b (run_request api devel prog ctx)"
proof (induction prog arbitrary: b ctx)
  case (RpOut r bb k)
  then show ?case by (auto intro!: wsafe_bind [OF wsafe_filters(1)] RpOut.IH [OF rangeI rangeI])
next
  case (RpIn r mode n k)
  then show ?case by (auto intro!: wsafe_bind [OF wsafe_filters(2)] RpIn.IH [OF rangeI rangeI])
qed simp

lemma wsafe_respond: "wsafe request_action starts b (worker_respond api devel r ctx)"
  by (auto simp: worker_respond_def starts_def
      intro!: wsafe_bind [OF wsafe_submit] wsafe_bind [OF wsafe_start])

section \<open>The worker's protocol\<close>

text \<open>A run of a program to its end: its actions with the results they had.\<close>

inductive wpath :: "'r wprog \<Rightarrow> (w_action \<times> act_result) list \<Rightarrow> 'r \<Rightarrow> bool" where
  wpath_ret: "wpath (WRet x) [] x"
| wpath_do: "wpath (k y) tr x \<Longrightarrow> wpath (WDo a k) ((a, y) # tr) x"

inductive_cases wpath_retE: "wpath (WRet x) tr z"
inductive_cases wpath_failE: "wpath WFail tr z"
inductive_cases wpath_doE: "wpath (WDo a k) tr z"

lemma wpath_bindE:
  assumes "wpath (wbind p f) tr z"
  obtains tr1 tr2 x where "tr = tr1 @ tr2" "wpath p tr1 x" "wpath (f x) tr2 z"
  using assms
proof (induction p arbitrary: tr thesis)
  case (WRet x)
  then show ?case using wpath_ret [of x] by fastforce
next
  case WFail
  then show ?case by (auto elim: wpath_failE)
next
  case (WDo a k)
  from WDo.prems(2) obtain y tr0 where tr: "tr = (a, y) # tr0" and rest: "wpath (wbind (k y) f) tr0 z"
    by (auto elim: wpath_doE)
  show ?case
  proof (rule WDo.IH [OF rangeI _ rest])
    fix tr1 tr2 x
    assume "tr0 = tr1 @ tr2" "wpath (k y) tr1 x" "wpath (f x) tr2 z"
    then show thesis using WDo.prems(1) [of "(a, y) # tr1" tr2 x] tr by (auto intro: wpath_do)
  qed
qed

lemma wpath_unit: "wpath (w_unit a) tr z \<Longrightarrow> \<exists>y. tr = [(a, y)]"
  by (auto simp: w_unit_def elim!: wpath_doE wpath_retE)

text \<open>\<open>head_first\<close>: body bytes are queued only after a submission of the head that succeeded.\<close>

definition head_first :: "bool \<Rightarrow> (w_action \<times> act_result) list \<Rightarrow> bool" where
  "head_first b tr \<longleftrightarrow>
     (\<forall>pre data offset y post. tr = pre @ (ActAppend data offset, y) # post \<longrightarrow>
        b \<or> (\<exists>(a, y) \<in> set pre. submits a y))"

lemma head_first_Cons:
  "head_first b ((a, y) # tr) \<longleftrightarrow>
     ((\<exists>data offset. a = ActAppend data offset) \<longrightarrow> b) \<and> head_first (b \<or> submits a y) tr"
proof
  assume h: "head_first b ((a, y) # tr)"
  have "b" if "a = ActAppend data offset" for data offset
    using h that unfolding head_first_def by (metis append_Nil empty_iff list.set(1))
  moreover have "head_first (b \<or> submits a y) tr"
    unfolding head_first_def
  proof (intro allI impI)
    fix pre data offset y' post
    assume "tr = pre @ (ActAppend data offset, y') # post"
    then have "(a, y) # tr = ((a, y) # pre) @ (ActAppend data offset, y') # post" by simp
    with h have "b \<or> (\<exists>(a, y) \<in> set ((a, y) # pre). submits a y)" unfolding head_first_def by blast
    then show "(b \<or> submits a y) \<or> (\<exists>(a, y) \<in> set pre. submits a y)" by auto
  qed
  ultimately show "((\<exists>data offset. a = ActAppend data offset) \<longrightarrow> b) \<and> head_first (b \<or> submits a y) tr" by blast
next
  assume h: "((\<exists>data offset. a = ActAppend data offset) \<longrightarrow> b) \<and> head_first (b \<or> submits a y) tr"
  show "head_first b ((a, y) # tr)"
    unfolding head_first_def
  proof (intro allI impI)
    fix pre data offset y' post
    assume eq: "(a, y) # tr = pre @ (ActAppend data offset, y') # post"
    show "b \<or> (\<exists>(a, y) \<in> set pre. submits a y)"
    proof (cases pre)
      case Nil
      then show ?thesis using h eq by auto
    next
      case (Cons e pre')
      then have "tr = pre' @ (ActAppend data offset, y') # post" "e = (a, y)" using eq by auto
      then show ?thesis using h Cons unfolding head_first_def by force
    qed
  qed
qed

lemma wpath_wsafe:
  "wpath p tr x \<Longrightarrow> wsafe A Q b p \<Longrightarrow>
   list_all (\<lambda>(a, y). A a) tr \<and> head_first b tr \<and> Q (b \<or> (\<exists>(a, y) \<in> set tr. submits a y)) x"
proof (induction arbitrary: b rule: wpath.induct)
  case (wpath_ret x)
  then show ?case by (simp add: head_first_def)
next
  case (wpath_do k y tr x a)
  have "wsafe A Q (b \<or> submits a y) (k y)" using wpath_do.prems by simp
  from wpath_do.IH [OF this] wpath_do.prems show ?case by (auto simp: head_first_Cons disj_ac)
qed

lemma head_first_append:
  "head_first b tr \<Longrightarrow> list_all (\<lambda>(a, y). \<not> (\<exists>data offset. a = ActAppend data offset)) tr' \<Longrightarrow> head_first b (tr @ tr')"
proof (induction tr arbitrary: b)
  case Nil
  then show ?case by (induction tr' arbitrary: b) (auto simp: head_first_Cons, auto simp: head_first_def)
next
  case (Cons e tr)
  then show ?case by (cases e) (simp add: head_first_Cons)
qed

lemma worker_give_up_path: "wpath worker_give_up tr z \<Longrightarrow> map fst tr = [ActDispatched False, ActDecTasks]"
  by (auto simp: worker_give_up_def elim!: wpath_bindE dest!: wpath_unit)

lemma worker_finish_path: "wpath worker_finish tr z \<Longrightarrow> map fst tr = [ActComplete, ActWorkerDone, ActDecTasks]"
  by (auto simp: worker_finish_def elim!: wpath_bindE dest!: wpath_unit)

text \<open>
  C12: Whatever httpd and its handlers do, a worker that returns has either only put its stream back
  (when no request could be made), or served it and then, in this order and exactly once, completed
  the response, marked itself done, and released its task; the release is its last access to the
  session. Body bytes are queued only after the response head was submitted.
\<close>

theorem worker_protocol:
  assumes "wpath (stream_worker api devel created pool_ok now s ref st) tr ()"
  shows "map fst tr = [ActDispatched False, ActDecTasks] \<or>
    (\<exists>body. map fst tr = body @ [ActComplete, ActWorkerDone, ActDecTasks] \<and> list_all request_action body \<and>
       head_first False tr)"
proof (cases "\<exists>r. created = Some r \<and> pool_ok")
  case False
  then have "wpath worker_give_up tr ()"
    using assms by (auto simp: stream_worker_def Let_def split: option.splits)
  then show ?thesis using worker_give_up_path by blast
next
  case True
  let ?serve = "\<lambda>prog. worker_serve api devel prog (worker_ctx s ref)"
  have "\<exists>prog. stream_worker api devel created pool_ok now s ref st = wbind (?serve prog) (\<lambda>_. worker_finish)"
    using True by (auto simp: stream_worker_def Let_def)
  then obtain prog where "wpath (wbind (?serve prog) (\<lambda>_. worker_finish)) tr ()" using assms by auto
  then obtain tr1 tr2 x where tr: "tr = tr1 @ tr2" and one: "wpath (?serve prog) tr1 x" and two: "wpath worker_finish tr2 ()"
    by (rule wpath_bindE)
  have "wsafe request_action (\<lambda>_ _. True) False (?serve prog)"
    by (auto simp: worker_serve_def starts_def intro!: wsafe_bind [OF wsafe_run_request]
        wsafe_bind [OF wsafe_respond] wsafe_bind [OF wsafe_append])
  from wpath_wsafe [OF one this] have s: "list_all (\<lambda>(a, y). request_action a) tr1" "head_first False tr1" by blast+
  have f: "map fst tr2 = [ActComplete, ActWorkerDone, ActDecTasks]" by (rule worker_finish_path [OF two])
  then have "list_all (\<lambda>(a, y). \<not> (\<exists>data offset. a = ActAppend data offset)) tr2"
    by (auto simp: list_all_iff map_eq_Cons_conv)
  then have "head_first False tr" using head_first_append [OF s(2)] tr by blast
  moreover have "list_all request_action (map fst tr1)" using s(1) by (simp add: list_all_iff split_beta)
  ultimately show ?thesis using f tr by auto
qed

text \<open>Following a program with results given for its actions.\<close>

primrec follow :: "(w_action \<Rightarrow> act_result) \<Rightarrow> 'r wprog \<Rightarrow> ((w_action \<times> act_result) list \<times> 'r) option" where
  "follow f (WRet x) = Some ([], x)"
| "follow f WFail = None"
| "follow f (WDo a k) = map_option (\<lambda>(tr, x). ((a, f a) # tr, x)) (follow f (k (f a)))"

lemma follow_wpath: "follow f p = Some (tr, x) \<Longrightarrow> wpath p tr x"
  by (induction p arbitrary: tr) (auto intro: wpath.intros)

definition all_well :: "w_action \<Rightarrow> act_result" where
  "all_well a = (case a of ActServe _ _ \<Rightarrow> RBrigade APR_SUCCESS [BEos] | _ \<Rightarrow> RStatus APR_SUCCESS)"

lemma follow_wbind:
  "follow f (wbind p k) =
     (case follow f p of None \<Rightarrow> None | Some (tr, x) \<Rightarrow> map_option (\<lambda>(tr', y). (tr @ tr', y)) (follow f (k x)))"
  by (induction p) (auto split: option.splits simp: map_option_case)

lemma streamed_run:
  assumes "ctx_streaming ctx" "ctx_stream ctx \<noteq> None" "\<not> ctx_response_too_large ctx" "\<not> r_main r" "d \<noteq> []"
  shows "\<exists>tr. follow all_well (worker_serve api True (RpOut r [BData APR_SUCCESS d, BEos] (\<lambda>res r. RpDone r)) ctx) =
      Some (tr, ()) \<and> (ActAppend d 0, RStatus APR_SUCCESS) \<in> set tr"
proof -
  have "follow all_well (h3_response_start api True r ctx) =
      Some ([(ActSubmit (nv_bytes (build_response_nva api 64 r ctx)), RStatus APR_SUCCESS)], APR_SUCCESS, r, ctx)"
    using assms by (simp add: h3_response_start_def submit_response_nva_def w_status_def all_well_def)
  moreover have "follow all_well (w_append d) = Some ([(ActAppend d 0, RStatus APR_SUCCESS)], APR_SUCCESS)"
    by (simp add: w_append_def w_status_def all_well_def)
  moreover have "follow all_well (w_unit ActComplete) = Some ([(ActComplete, RStatus APR_SUCCESS)], ())"
    by (simp add: w_unit_def all_well_def)
  ultimately show ?thesis
    using assms by (simp add: worker_serve_def h3_filter_out_proto_def take_bucket_def take_data_bucket_def
        take_end_bucket_def worker_respond_def follow_wbind Let_def)
qed

lemma sample_worker_run:
  "\<exists>tr. follow all_well (stream_worker alist_httpd True (Some sample_request) True 0
      (small_server\<lparr>module_config := small_conf\<lparr>h3_max_response_body_size := - 1\<rparr>\<rparr>) 0 (blank_stream 0 8)) = Some (tr, ()) \<and>
    (ActAppend [104, 105] 0, RStatus APR_SUCCESS) \<in> set tr"
proof -
  let ?s = "small_server\<lparr>module_config := small_conf\<lparr>h3_max_response_body_size := - 1\<rparr>\<rparr>"
  define r where "r = worker_request alist_httpd 0 (blank_stream 0 8) sample_request"
  define ctx :: "(string \<times> string) list h3_conn_ctx" where "ctx = worker_ctx ?s 0"
  have r: "r_status r = HTTP_OK" "\<not> r_main r"
    by (simp_all add: r_def worker_request_def blank_stream_def h3_response.defs fresh_response_def sample_request_def HTTP_OK_def Let_def)
  have c: "ctx_streaming ctx" "ctx_stream ctx \<noteq> None" "\<not> ctx_response_too_large ctx"
    by (simp_all add: ctx_def worker_ctx_def H3_MAX_RESPONSE_BODY_SIZE_DEFAULT_def)
  have p: "ap_process_request alist_httpd r = RpOut r [BData APR_SUCCESS [104, 105], BEos] (\<lambda>res r. RpDone r)"
    and v: "ap_update_vhost_from_headers alist_httpd r = r" by (simp_all add: alist_httpd_def)
  obtain tr where t: "follow all_well (worker_serve alist_httpd True
        (RpOut r [BData APR_SUCCESS [104, 105], BEos] (\<lambda>res r. RpDone r)) ctx) = Some (tr, ())"
      "(ActAppend [104, 105] 0, RStatus APR_SUCCESS) \<in> set tr"
    using streamed_run [OF c r(2), of "[104, 105]" alist_httpd] by auto
  have o: "\<not> st_request_body_overflow (blank_stream 0 8)"
    by (simp add: blank_stream_def h3_response.defs fresh_response_def)
  have f: "follow all_well worker_finish = Some ([(ActComplete, RStatus APR_SUCCESS),
      (ActWorkerDone, RStatus APR_SUCCESS), (ActDecTasks, RStatus APR_SUCCESS)], ())"
    by (simp add: worker_finish_def w_unit_def all_well_def)
  show ?thesis
    using t(2) by (simp add: stream_worker_def Let_def r_def [symmetric] ctx_def [symmetric] v r p follow_wbind t(1) f o)
qed

theorem worker_protocol_witness:
  "\<exists>tr body. wpath (stream_worker alist_httpd True (Some sample_request) True 0
       (small_server\<lparr>module_config := small_conf\<lparr>h3_max_response_body_size := - 1\<rparr>\<rparr>) 0 (blank_stream 0 8)) tr () \<and>
     map fst tr = body @ [ActComplete, ActWorkerDone, ActDecTasks] \<and> ActAppend [104, 105] 0 \<in> set (map fst tr) \<and>
     head_first False tr"
proof -
  let ?p = "stream_worker alist_httpd True (Some sample_request) True 0
      (small_server\<lparr>module_config := small_conf\<lparr>h3_max_response_body_size := - 1\<rparr>\<rparr>) 0 (blank_stream 0 8)"
  obtain tr where f: "follow all_well ?p = Some (tr, ())" and m: "(ActAppend [104, 105] 0, RStatus APR_SUCCESS) \<in> set tr"
    using sample_worker_run by blast
  have "ActAppend [104, 105] 0 \<in> set (map fst tr)" using m by force
  with worker_protocol [OF follow_wpath [OF f]] follow_wpath [OF f] show ?thesis by auto
qed

section \<open>Dispatching\<close>

text \<open>
  Handing a stream over counts exactly the tasks that are queued: either a task is queued for a
  stream that had none, marked dispatched and counted; or, whatever failed, the stream's mark and
  the count are as before. No other stream changes.
\<close>

theorem process_request_accounting:
  assumes "h3_process_request env push logio r sx = Some (res, sx')"
  shows "(case res of
       Some c \<Rightarrow> \<not> st_dispatched (stream_of r sx) \<and> st_dispatched (stream_of r sx') \<and>
         se_active_tasks (sx_session sx') = se_active_tasks (sx_session sx) + 1 \<and> \<not> c_is_master c
     | None \<Rightarrow> st_dispatched (stream_of r sx') = st_dispatched (stream_of r sx) \<and>
         se_active_tasks (sx_session sx') = se_active_tasks (sx_session sx)) \<and>
    (\<forall>r'. r' \<noteq> r \<longrightarrow> stream_of r' sx' = stream_of r' sx)"
  using assms
  by (auto simp: h3_process_request_def set_stream_dispatched_def add_tasks_def stream_of_def request_conn_def Let_def
      split: if_splits option.splits prod.splits)

theorem process_request_accounting_witness:
  "\<exists>c sx'. h3_process_request quiet_env (\<lambda>w. (True, w)) False 0
       (on_session (\<lambda>se. se\<lparr>se_c := Some sample_conn\<rparr>) sample_st) = Some (Some c, sx') \<and>
     st_dispatched (stream_of 0 sx') \<and> se_active_tasks (sx_session sx') = 1"
proof -
  let ?sx = "on_session (\<lambda>se. se\<lparr>se_c := Some sample_conn\<rparr>) sample_st"
  have "\<exists>c sx'. h3_process_request quiet_env (\<lambda>w. (True, w)) False 0 ?sx = Some (Some c, sx')"
    by (simp add: h3_process_request_def quiet_env_def sample_st_def sample_session_def stream_of_def
        set_stream_dispatched_def add_tasks_def upd_stream_def Let_def)
  then obtain c sx' where p: "h3_process_request quiet_env (\<lambda>w. (True, w)) False 0 ?sx = Some (Some c, sx')" by blast
  from process_request_accounting [OF p] p show ?thesis by (simp add: sample_st_def sample_session_def)
qed

end
