(* ===== verification/H3_Pass.thy ===== *)
theory H3_Pass
  imports H3_Request H3_Session
begin

text \<open>
  One pass of the event thread over a session (\<^verbatim>\<open>service_session_pass\<close> of \<^verbatim>\<open>h3_io.c\<close>), beside the
  workers the session has in the thread pool. The pass takes the session lock several times; where
  it does not hold the lock the workers may run, each one action at a time.

  \<open>live\<close> is a session with its tasks in the pool: for each task its stream and what is left of the
  worker's program. What is left of a program is not stored anywhere in C; it is where the thread
  stands in \<^verbatim>\<open>stream_worker\<close>.
\<close>

section \<open>A session and its workers\<close>

type_synonym task = "stream_ref \<times> unit wprog"

record 'w live =
  lv_st :: "'w h3_st"
  lv_tasks :: "task list"

text \<open>
  What the workers of a session can do while the event thread does not hold the lock: one of them
  does its next action, a finished one leaves the pool, or something happens outside the session.
\<close>

inductive worker_moves :: "'w h3_env \<Rightarrow> 'w live \<Rightarrow> 'w live \<Rightarrow> bool" for env where
  worker_acts:
    "lv_tasks lv = pre @ (r, p) # post \<Longrightarrow>
     worker_step env malloc wake wait r p (lv_st lv) = Some (p', sx') \<Longrightarrow>
     worker_moves env lv (lv\<lparr>lv_st := sx', lv_tasks := pre @ (r, p') # post\<rparr>)"
| worker_leaves:
    "lv_tasks lv = pre @ (r, WRet ()) # post \<Longrightarrow> worker_moves env lv (lv\<lparr>lv_tasks := pre @ post\<rparr>)"
| world_moves: "worker_moves env lv (lv\<lparr>lv_st := (lv_st lv)\<lparr>sx_world := w\<rparr>\<rparr>)"

text \<open>
  What the pass finds around it. \<open>px_workers\<close> is what happens while it holds no lock,
  \<open>px_draining\<close> and \<open>px_running\<close> the two flags of the listener as they are read, and the rest what a
  worker started now finds: httpd, the request httpd creates, and whether its pool can be made.
\<close>

record ('w, 't) pass_env =
  px_env :: "'w h3_env"
  px_workers :: "'w live \<Rightarrow> 'w live option"
  px_draining :: "'w \<Rightarrow> bool"
  px_running :: "'w \<Rightarrow> bool"
  px_push :: "'w \<Rightarrow> bool \<times> 'w"
  px_logio :: bool
  px_api :: "'t httpd_api"
  px_devel :: bool
  px_create_request :: "'w \<Rightarrow> conn_rec \<Rightarrow> 't request_rec option"
  px_ctx_pool :: "'w \<Rightarrow> bool"

definition workers_ok :: "('w, 't) pass_env \<Rightarrow> bool" where
  "workers_ok pe \<longleftrightarrow> (\<forall>lv lv'. px_workers pe lv = Some lv' \<longrightarrow> (worker_moves (px_env pe))\<^sup>*\<^sup>* lv lv')"

definition on_lv :: "('w h3_st \<Rightarrow> 'w h3_st) \<Rightarrow> 'w live \<Rightarrow> 'w live" where
  "on_lv f lv = lv\<lparr>lv_st := f (lv_st lv)\<rparr>"

definition lv_session :: "'w live \<Rightarrow> h3_session" where
  "lv_session lv = sx_session (lv_st lv)"

definition lv_world :: "'w live \<Rightarrow> 'w" where
  "lv_world lv = sx_world (lv_st lv)"

text \<open>A section with the lock held, and what the workers do after it.\<close>

definition locked ::
  "('w, 't) pass_env \<Rightarrow> ('w h3_st \<Rightarrow> ('a \<times> 'w h3_st) option) \<Rightarrow> 'w live \<Rightarrow> ('a \<times> 'w live) option" where
  "locked pe f lv = do {
     (x, sx) \<leftarrow> f (lv_st lv);
     lv \<leftarrow> px_workers pe (lv\<lparr>lv_st := sx\<rparr>);
     Some (x, lv)
   }"

definition tell :: "('w, 't) pass_env \<Rightarrow> 'w live \<Rightarrow> apr_time_t \<times> 'w live" where
  "tell pe lv = (case apr_time_now (px_env pe) (lv_world lv) of (t, w) \<Rightarrow> (t, on_lv (\<lambda>sx. sx\<lparr>sx_world := w\<rparr>) lv))"

section \<open>Stalled responses\<close>

definition stalled :: "apr_time_t \<Rightarrow> apr_time_t \<Rightarrow> h3_stream \<Rightarrow> bool" where
  "stalled stall_timeout now st \<longleftrightarrow>
     \<not> (response_cancelled st \<or> response_complete st) \<and>
     \<not> response_buffered st < response_buffer_limit st \<and>
     \<not> now - response_progress_at st < stall_timeout"

fun abandon_each ::
  "apr_time_t \<Rightarrow> apr_time_t \<Rightarrow> (stream_id_t \<times> stream_ref) list \<Rightarrow> h3_session \<Rightarrow> h3_session" where
  "abandon_each stall_timeout now [] se = se"
| "abandon_each stall_timeout now ((sid, r) # es) se =
     abandon_each stall_timeout now es
       (if stalled stall_timeout now (se_store se r) then upd_stream r h3_stream_response_cancel_locked se else se)"

definition abandon_stalled_responses :: "'w h3_env \<Rightarrow> apr_time_t \<Rightarrow> 'w h3_st \<Rightarrow> 'w h3_st" where
  "abandon_stalled_responses env stall_timeout sx =
     (if stall_timeout \<le> 0 then sx
      else (case apr_time_now env (sx_world sx) of
              (now, w) \<Rightarrow>
                on_session (\<lambda>se. abandon_each stall_timeout now (apr_hash_order env (se_streams se)) se)
                  (sx\<lparr>sx_world := w\<rparr>)))"

definition stall_timeout_of :: "h3_session \<Rightarrow> apr_time_t" where
  "stall_timeout_of se =
     (if h3_stream_timeout (se_conf se) \<noteq> 0 then apr_time_from_sec (unat (h3_stream_timeout (se_conf se)))
      else s_timeout (se_server se))"

section \<open>Going away\<close>

definition H3_GOAWAY_GRACE_SECS :: nat where "H3_GOAWAY_GRACE_SECS = 3"

definition set_aborted :: "'w live \<Rightarrow> 'w live" where
  "set_aborted = on_lv (on_session (\<lambda>se. se\<lparr>se_aborted := True\<rparr>))"

text \<open>The lock-held part: the first notice, and what is to be sent; is the connection drained?\<close>

definition goaway_flush :: "'w h3_env \<Rightarrow> 'w h3_st \<Rightarrow> (bool \<times> 'w h3_st) option" where
  "goaway_flush env sx = do {
     sx \<leftarrow> (if se_goaway_sent (sx_session sx) then Some sx
            else map_option snd (call_ng env (nghttp3_conn_submit_shutdown_notice (env_ng env)) sx));
     sx \<leftarrow> flush_nghttp3 env sx;
     Some (nghttp3_conn_is_drained2 (env_ng env) (sx_world sx), sx)
   }"

definition final_flush :: "'w h3_env \<Rightarrow> 'w h3_st \<Rightarrow> (unit \<times> 'w h3_st) option" where
  "final_flush env sx = do {
     (_, sx) \<leftarrow> call_ng env (nghttp3_conn_shutdown (env_ng env)) sx;
     sx \<leftarrow> flush_nghttp3 env sx;
     Some ((), sx)
   }"

text \<open>The deadline is set once the listener stops; the result says whether the pass ends here.\<close>

definition set_deadline :: "('w, 't) pass_env \<Rightarrow> 'w live \<Rightarrow> 'w live" where
  "set_deadline pe lv =
     (if \<not> px_running pe (lv_world lv) \<and> se_goaway_deadline (lv_session lv) = 0
      then (case tell pe lv of
              (now, lv) \<Rightarrow>
                on_lv (on_session (\<lambda>se. se\<lparr>se_goaway_deadline := now + apr_time_from_sec H3_GOAWAY_GRACE_SECS\<rparr>)) lv)
      else lv)"

definition goaway_over :: "('w, 't) pass_env \<Rightarrow> bool \<Rightarrow> 'w live \<Rightarrow> bool \<times> 'w live" where
  "goaway_over pe drained lv =
     (if drained then (True, lv)
      else if se_goaway_deadline (lv_session lv) = 0 then (False, lv)
      else (case tell pe lv of (now, lv) \<Rightarrow> (now \<ge> se_goaway_deadline (lv_session lv), lv)))"

definition goaway_part :: "('w, 't) pass_env \<Rightarrow> 'w live \<Rightarrow> (bool \<times> 'w live) option" where
  "goaway_part pe lv =
     (if \<not> (px_draining pe (lv_world lv) \<or> \<not> px_running pe (lv_world lv)) then Some (False, lv)
      else do {
        (drained, lv) \<leftarrow> locked pe (goaway_flush (px_env pe)) lv;
        let lv = set_deadline pe (on_lv (on_session (\<lambda>se. se\<lparr>se_goaway_sent := True\<rparr>)) lv);
        let (over, lv) = goaway_over pe drained lv;
        (if \<not> over then Some (False, lv)
         else do {
           (_, lv) \<leftarrow> locked pe (final_flush (px_env pe)) lv;
           Some (True, set_aborted lv)
         })
      })"

section \<open>The pass\<close>

text \<open>Accepting streams until OpenSSL has none: whether there was one, and how many \<^verbatim>\<open>total_streams\<close> counts.\<close>

definition take_stream :: "'w h3_env \<Rightarrow> stream_id_t \<Rightarrow> qptr \<Rightarrow> 'w h3_st \<Rightarrow> (unit \<times> 'w h3_st) option" where
  "take_stream env sid q sx = do {
     (tracked, sx) \<leftarrow> track_stream env sid q sx;
     Some ((), if tracked = None then on_world (h3q_stream_free (env_ssl env) (Some q)) sx else sx)
   }"

partial_function (option) accept_streams ::
  "('w, 't) pass_env \<Rightarrow> bool \<times> apr_uint32_t \<Rightarrow> 'w live \<Rightarrow> ((bool \<times> apr_uint32_t) \<times> 'w live) option" where
  "accept_streams pe n lv =
     (case h3q_conn_accept_stream (env_ssl (px_env pe)) (se_qconn (lv_session lv)) (lv_world lv) of
        (None, w) \<Rightarrow> Some (n, on_lv (\<lambda>sx. sx\<lparr>sx_world := w\<rparr>) lv)
      | (Some q, w) \<Rightarrow>
          let sid = h3q_stream_id (env_ssl (px_env pe)) (Some q) w;
              lv = on_lv (\<lambda>sx. sx\<lparr>sx_world := w\<rparr>) lv
          in if sid < 0
             then accept_streams pe (True, snd n + 1) (on_lv (on_world (h3q_stream_free (env_ssl (px_env pe)) (Some q))) lv)
             else (case locked pe (take_stream (px_env pe) sid q) lv of
                     None \<Rightarrow> None
                   | Some (_, lv) \<Rightarrow> accept_streams pe (True, snd n + 1) lv))"

definition drain_flush :: "'w h3_env \<Rightarrow> 'w h3_st \<Rightarrow> ((stream_ref list \<times> bool) \<times> 'w h3_st) option" where
  "drain_flush env sx = do {
     (res, sx) \<leftarrow> drain_ready_streams env sx;
     sx \<leftarrow> flush_nghttp3 env sx;
     Some (res, sx)
   }"

definition worker_task :: "('w, 't) pass_env \<Rightarrow> conn_rec \<Rightarrow> stream_ref \<Rightarrow> 'w h3_st \<Rightarrow> task" where
  "worker_task pe c r sx =
     (r, stream_worker (px_api pe) (px_devel pe) (px_create_request pe (sx_world sx) c) (px_ctx_pool pe (sx_world sx))
           (fst (apr_time_now (px_env pe) (sx_world sx))) (se_server (sx_session sx)) r (stream_of r sx))"

fun dispatch_all :: "('w, 't) pass_env \<Rightarrow> stream_ref list \<Rightarrow> 'w live \<Rightarrow> 'w live option" where
  "dispatch_all pe [] lv = Some lv"
| "dispatch_all pe (r # rs) lv = do {
     (queued, sx) \<leftarrow> h3_process_request (px_env pe) (px_push pe) (px_logio pe) r (lv_st lv);
     let tasks = (case queued of None \<Rightarrow> [] | Some c \<Rightarrow> [worker_task pe c r sx]);
     lv \<leftarrow> px_workers pe (lv\<lparr>lv_st := sx, lv_tasks := lv_tasks lv @ tasks\<rparr>);
     dispatch_all pe rs lv
   }"

definition last_flush :: "'w h3_env \<Rightarrow> 'w h3_st \<Rightarrow> (unit \<times> 'w h3_st) option" where
  "last_flush env sx = do {
     sx \<leftarrow> flush_nghttp3 env sx;
     Some ((), abandon_stalled_responses env (stall_timeout_of (sx_session sx)) sx)
   }"

definition note_activity :: "('w, 't) pass_env \<Rightarrow> bool \<Rightarrow> 'w live \<Rightarrow> 'w live" where
  "note_activity pe had_activity lv =
     (if had_activity
      then (case tell pe lv of (now, lv) \<Rightarrow> on_lv (on_session (\<lambda>se. se\<lparr>se_last_activity := now\<rparr>)) lv)
      else if px_running pe (lv_world lv) \<and> se_active_tasks (lv_session lv) = 0
      then (case tell pe lv of
              (now, lv) \<Rightarrow>
                if now - se_last_activity (lv_session lv) \<ge>
                     apr_time_from_sec (unat (h3_idle_timeout (se_conf (lv_session lv))))
                then set_aborted lv else lv)
      else lv)"

text \<open>The part after the streams are accepted: drain, dispatch, flush.\<close>

definition serve_part ::
  "('w, 't) pass_env \<Rightarrow> bool \<Rightarrow> 'w live \<Rightarrow> (bool \<times> 'w live) option" where
  "serve_part pe had_activity lv = do {
     ((completed, data_read), lv) \<leftarrow> locked pe (drain_flush (px_env pe)) lv;
     (if se_ngh3_dead (lv_session lv) then Some (False, set_aborted lv)
      else do {
        lv \<leftarrow> dispatch_all pe completed lv;
        (_, lv) \<leftarrow> locked pe (last_flush (px_env pe)) lv;
        Some (data_read, note_activity pe (had_activity \<or> data_read \<or> completed \<noteq> []) lv)
      })
   }"

definition service_session_pass ::
  "('w, 't) pass_env \<Rightarrow> 'w live \<Rightarrow> ((bool \<times> apr_uint32_t) \<times> 'w live) option" where
  "service_session_pass pe lv =
     (if se_aborted (lv_session lv) then Some ((False, 0), lv)
      else do {
        (over, lv) \<leftarrow> goaway_part pe lv;
        (if over then Some ((False, 0), lv)
         else if h3q_conn_is_closed (env_ssl (px_env pe)) (se_qconn (lv_session lv)) (lv_world lv)
         then Some ((False, 0), set_aborted lv)
         else
           let (ok, w) = apr_pool_create (px_env pe) (lv_world lv);
               lv = on_lv (\<lambda>sx. sx\<lparr>sx_world := w\<rparr>) lv
           in if \<not> ok then Some ((False, 0), lv)
              else do {
                ((had_activity, n), lv) \<leftarrow> accept_streams pe (False, 0) lv;
                (again, lv) \<leftarrow> serve_part pe had_activity lv;
                Some ((again, n), lv)
              })
      })"

section \<open>Where a worker stands\<close>

text \<open>
  \<open>holding\<close>: the worker still uses its stream; it will give the stream up by clearing
  \<^verbatim>\<open>dispatched\<close> or by setting \<^verbatim>\<open>worker_done\<close>, and after that only leaves the task count
  (\<open>leaving\<close>).
\<close>

definition leaving :: "unit wprog \<Rightarrow> bool" where
  "leaving p \<longleftrightarrow> p = w_unit ActDecTasks"

fun gives_up :: "w_action \<Rightarrow> bool" where
  "gives_up ActWorkerDone = True"
| "gives_up (ActDispatched b) = (\<not> b)"
| "gives_up _ = False"

primrec holding :: "unit wprog \<Rightarrow> bool" where
  "holding (WRet x) = False"
| "holding WFail = True"
| "holding (WDo a k) =
     (if gives_up a then \<forall>y. leaving (k y) else request_action a \<and> (\<forall>y. holding (k y)))"

lemma leaving_not_holding [simp]: "leaving p \<Longrightarrow> \<not> holding p" "leaving p \<Longrightarrow> p \<noteq> WRet ()" "holding p \<Longrightarrow> p \<noteq> WRet ()"
  by (auto simp: leaving_def w_unit_def)

lemma request_action_not_gives_up [simp]: "request_action a \<Longrightarrow> \<not> gives_up a"
  by (cases a) auto

lemma holding_bind:
  "wsafe request_action Q b p \<Longrightarrow> (\<And>x. holding (f x)) \<Longrightarrow> holding (wbind p f)"
  by (induction p arbitrary: b) auto

lemma wsafe_serve: "wsafe request_action (\<lambda>_ _. True) b (worker_serve api devel prog ctx)"
  by (auto simp: worker_serve_def starts_def intro!: wsafe_bind [OF wsafe_run_request]
      wsafe_bind [OF wsafe_respond] wsafe_bind [OF wsafe_append])

lemma stream_worker_holding: "holding (stream_worker api devel created pool_ok now s r st)"
proof -
  have "holding worker_finish" "holding worker_give_up"
    by (simp_all add: worker_finish_def worker_give_up_def w_unit_def leaving_def)
  then show ?thesis
    by (auto simp: stream_worker_def Let_def split: option.split intro!: holding_bind [OF wsafe_serve])
qed

section \<open>The invariant of a session and its workers\<close>

definition held :: "stream_ref \<Rightarrow> h3_session \<Rightarrow> bool" where
  "held r se \<longleftrightarrow>
     r \<in> snd ` set (se_streams se) \<and> st_dispatched (se_store se r) \<and> \<not> st_worker_done (se_store se r)"

lemma held_count [simp]: "held r (se\<lparr>se_active_tasks := n\<rparr>) = held r se"
  by (simp add: held_def)

text \<open>
  Every worker that still uses its stream has it to itself: the stream is in the hash, marked
  dispatched and not done, and no other worker has it. The task count is the number of workers
  that have not left it.
\<close>

definition tasks_ok :: "task list \<Rightarrow> h3_session \<Rightarrow> bool" where
  "tasks_ok ts se \<longleftrightarrow>
     (\<forall>t\<in>set ts. if holding (snd t) then held (fst t) se else leaving (snd t) \<or> snd t = WRet ()) \<and>
     distinct (map fst (filter (\<lambda>t. holding (snd t)) ts)) \<and>
     se_active_tasks se = of_nat (length (filter (\<lambda>t. snd t \<noteq> WRet ()) ts)) \<and>
     (\<forall>r\<in>snd ` set (se_streams se). st_worker_done (se_store se r) \<longrightarrow> st_dispatched (se_store se r))"

definition live_inv :: "'w live \<Rightarrow> bool" where
  "live_inv lv \<longleftrightarrow>
     hash_inv (lv_session lv) \<and> tasks_ok (lv_tasks lv) (lv_session lv) \<and> se_c (lv_session lv) \<noteq> None"

lemma cb_frame_same_hash: "cb_frame se se' \<Longrightarrow> same_hash se se'"
  by (simp add: cb_frame_def same_hash_def)

lemma tasks_ok_same: "same_hash se se' \<Longrightarrow> tasks_ok ts se' = tasks_ok ts se"
  by (simp add: tasks_ok_def held_def same_hash_def)

lemma tasks_ok_reclaim:
  assumes "hash_inv se" and "tasks_ok ts se" and "(sid, r) \<in> set (se_streams se)" and "reclaimable (se_store se r)"
    and "reclaim_stream r se = Some se'"
  shows "tasks_ok ts se'"
proof -
  have e: "set (se_streams se') = {e \<in> set (se_streams se). snd e \<noteq> r}"
    using reclaim_entries(1) [OF assms(1,3,5)] hash_entry_iff [OF assms(1,3)] by auto
  have f: "same_flags se se'" by (rule reclaim_flags [OF assms(5)])
  have "held r' se'" if "held r' se" for r'
  proof -
    have "r' \<noteq> r" using that assms(4) by (auto simp: held_def reclaimable_def)
    then show ?thesis using that f e by (auto simp: held_def same_flags_def)
  qed
  then show ?thesis using assms(2) f e by (auto simp: tasks_ok_def same_flags_def)
qed

text \<open>The invariant is one of those the pump keeps.\<close>

definition session_inv :: "task list \<Rightarrow> h3_session \<Rightarrow> bool" where
  "session_inv ts se \<longleftrightarrow> hash_inv se \<and> tasks_ok ts se \<and> se_c se \<noteq> None"

lemma live_inv_session: "live_inv lv \<longleftrightarrow> session_inv (lv_tasks lv) (lv_session lv)"
  by (simp add: live_inv_def session_inv_def)

lemma session_inv_same:
  "same_hash se se' \<Longrightarrow> hash_inv se' \<Longrightarrow> session_inv ts se \<Longrightarrow> session_inv ts se'"
  by (auto simp: session_inv_def tasks_ok_same) (simp add: same_hash_def)

lemma session_inv_frame: "cb_frame se se' \<Longrightarrow> session_inv ts se \<Longrightarrow> session_inv ts se'"
  by (rule session_inv_same [OF cb_frame_same_hash]) (auto simp: session_inv_def hash_inv_frame)

interpretation tasks_sc: session_contract env "session_inv ts"
proof unfold_locales
  show "session_inv ts (sx_session sx')" if "session_inv ts (sx_session sx)" "h3_callback env cb sx = Some (x, sx')"
    for sx cb x sx'
    by (rule session_inv_frame [OF callback_frame [OF that(2)] that(1)])
  show "session_inv ts se'" if "session_inv ts se" "aux_eq se se'" for se se'
  proof (rule session_inv_same [OF _ _ that(1)])
    show "same_hash se se'" using that(2) by (simp add: same_hash_def aux_eq_def)
    show "hash_inv se'" using that(1) by (auto simp: session_inv_def intro: hash_sc.aux_law [OF _ that(2)])
  qed
  show "session_inv ts (note_unblocked r se)" if "session_inv ts se" "(sid, r) \<in> set (se_streams se)" "st_write_blocked (se_store se r)"
    for se sid r
  proof (rule session_inv_same [OF _ _ that(1)])
    show "same_hash se (note_unblocked r se)" by (simp add: same_hash_def note_unblocked_def)
    show "hash_inv (note_unblocked r se)" using that(1) by (auto simp: session_inv_def intro: hash_inv_unblock [OF _ that(2,3)])
  qed
  show "session_inv ts (note_blocked r se)" if "session_inv ts se" "(sid, r) \<in> set (se_streams se)" "\<not> st_write_blocked (se_store se r)"
    for se sid r
  proof (rule session_inv_same [OF _ _ that(1)])
    show "same_hash se (note_blocked r se)" by (simp add: same_hash_def note_blocked_def)
    show "hash_inv (note_blocked r se)" using that(1) by (auto simp: session_inv_def intro: hash_inv_block [OF _ that(2,3)])
  qed
  show "session_inv ts (se\<lparr>se_pending_free := []\<rparr>)" if "session_inv ts se" for se
  proof (rule session_inv_same [OF _ _ that])
    show "hash_inv (se\<lparr>se_pending_free := []\<rparr>)" using that by (auto simp: session_inv_def intro: hash_sc.freed_law)
  qed (simp add: same_hash_def)
  show "session_inv ts se'" if "session_inv ts se" "(sid, r) \<in> set (se_streams se)" "reclaimable (se_store se r)"
      "reclaim_stream r se = Some se'" for se sid r se'
    using that tasks_ok_reclaim [OF _ _ that(2-4)] hash_inv_reclaim [OF _ that(2,4)] reclaim_flags [OF that(4)]
    by (auto simp: session_inv_def same_flags_def)
qed (auto intro!: session_inv_frame [OF cb_frame_upd] simp: keeps_def)

section \<open>Workers keep the invariant\<close>

lemma append_section_more:
  assumes "response_append_section m ab dead ng bs len off q = Some (q', res)"
  shows "h3_response.more q' = h3_response.more q"
  using assms by (auto simp: response_append_section_def link_chunk_def Let_def frame_simps split: if_splits option.splits)

lemma request_action_frame:
  assumes "request_action a" and "do_action env malloc wake r a sx = Some (y, sx')"
  shows "cb_frame (sx_session sx) (sx_session sx')"
proof (cases a)
  case (ActSubmit nva)
  have "cb_frame (sx_session sx) (sx_session sx')" if "do_submit env wake r nva sx = Some (rv, sx')" for rv
    using that
    by (auto simp: do_submit_def Let_def split: if_splits bind_splits dest!: call_ng_frame)
      (erule cb_frame_trans, rule cb_frame_upd, rule keeps_more, simp add: frame_simps)+
  then show ?thesis using assms by (auto simp: ActSubmit)
next
  case (ActAppend data offset)
  then show ?thesis
    using assms by (auto simp: do_append_def Let_def stream_of_def split: append_result.splits
        intro!: cb_frame_upd keeps_more dest!: append_section_more) (metis append_result.exhaust)
next
  case ActComplete
  then show ?thesis
    using assms by (auto simp: do_complete_def h3_stream_response_complete_def stream_of_def Let_def frame_simps
        split: prod.splits if_splits intro!: cb_frame_upd keeps_more)
next
  case (ActServe mode n)
  have "keeps (\<lambda>_. snd (serve_request_body mode n st)) st" for st
    by (simp add: serve_request_body_def keeps_def Let_def)
  then show ?thesis
    using assms by (auto simp: ActServe stream_of_def split: prod.splits intro!: cb_frame_upd) (metis snd_conv)
qed (use assms in auto)

text \<open>One action of a worker that still holds its stream.\<close>

lemma holding_step:
  assumes "holding p" and "worker_step env malloc wake wait r p sx = Some (p', sx')"
  shows "holding p' \<and> cb_frame (sx_session sx) (sx_session sx') \<or>
    leaving p' \<and> (sx_session sx' = upd_stream r (\<lambda>st. st\<lparr>st_dispatched := False\<rparr>) (sx_session sx) \<or>
                sx_session sx' = upd_stream r (\<lambda>st. st\<lparr>st_worker_done := True\<rparr>) (sx_session sx))"
proof (cases p)
  case (WDo a k)
  obtain y where y: "do_action env malloc wake r a sx = Some (y, sx')"
    and p': "p' = (case (a, y) of (ActAppend data offset, RAppend res) \<Rightarrow> after_append wait data offset res k | _ \<Rightarrow> k y)"
    using assms(2) by (auto simp: WDo)
  show ?thesis
  proof (cases "gives_up a")
    case True
    then show ?thesis
      using y p' assms(1) by (cases a) (auto simp: WDo set_stream_dispatched_def)
  next
    case False
    then have req: "request_action a" and k: "\<And>y. holding (k y)" using assms(1) by (auto simp: WDo)
    have "holding (after_append wait data offset res k)" for data offset res
      by (auto simp: after_append_def k split: append_result.split)
    then have "holding p'" using k by (auto simp: p' split: w_action.split act_result.split)
    then show ?thesis using request_action_frame [OF req y] by simp
  qed
qed (use assms in auto)

lemma leaving_step:
  assumes "leaving p" and "worker_step env malloc wake wait r p sx = Some (p', sx')"
  shows "p' = WRet () \<and> sx_session sx' = (sx_session sx)\<lparr>se_active_tasks := se_active_tasks (sx_session sx) - 1\<rparr>"
  using assms by (auto simp: leaving_def w_unit_def add_tasks_def)

lemma hash_inv_flags:
  "hash_inv (upd_stream r (\<lambda>st. st\<lparr>st_dispatched := b\<rparr>) se) = hash_inv se"
  "hash_inv (upd_stream r (\<lambda>st. st\<lparr>st_worker_done := b\<rparr>) se) = hash_inv se"
proof -
  have "st_write_blocked (se_store (upd_stream r f se) r') = st_write_blocked (se_store se r') \<and>
    st_id (se_store (upd_stream r f se) r') = st_id (se_store se r')"
    if "f = (\<lambda>st. st\<lparr>st_dispatched := b\<rparr>) \<or> f = (\<lambda>st. st\<lparr>st_worker_done := b\<rparr>)" for f r'
    using that by auto
  then show "hash_inv (upd_stream r (\<lambda>st. st\<lparr>st_dispatched := b\<rparr>) se) = hash_inv se"
    "hash_inv (upd_stream r (\<lambda>st. st\<lparr>st_worker_done := b\<rparr>) se) = hash_inv se"
    unfolding hash_inv_def hash_ok_def blocked_count_def by simp_all
qed

text \<open>Replacing one task in the list.\<close>

lemma tasks_ok_holding:
  assumes "tasks_ok (pre @ (r, p) # post) se" and "holding p" and "holding p'"
  shows "tasks_ok (pre @ (r, p') # post) se"
  using assms by (auto simp: tasks_ok_def)

lemma tasks_ok_gives_up:
  assumes "tasks_ok (pre @ (r, p) # post) se" and "holding p" and "leaving p'"
    and "f = (\<lambda>st. st\<lparr>st_dispatched := False\<rparr>) \<or> f = (\<lambda>st. st\<lparr>st_worker_done := True\<rparr>)"
  shows "tasks_ok (pre @ (r, p') # post) (upd_stream r f se)"
proof -
  have h: "held r se" using assms(1,2) by (auto simp: tasks_ok_def)
  have other: "held (fst t) (upd_stream r f se)" if "t \<in> set pre \<union> set post" "holding (snd t)" for t
  proof -
    have "fst t \<in> fst ` {t \<in> set pre \<union> set post. holding (snd t)}" using that by blast
    moreover have "r \<notin> fst ` {t \<in> set pre \<union> set post. holding (snd t)}"
      using assms(1,2) by (auto simp: tasks_ok_def)
    ultimately have "fst t \<noteq> r" by metis
    moreover have "held (fst t) se" using assms(1) that by (auto simp: tasks_ok_def split: if_splits)
    ultimately show ?thesis by (simp add: held_def)
  qed
  have flags: "\<forall>r'\<in>snd ` set (se_streams se). st_worker_done (se_store (upd_stream r f se) r') \<longrightarrow>
      st_dispatched (se_store (upd_stream r f se) r')"
    using assms(1,4) h by (auto simp: tasks_ok_def held_def)
  show ?thesis
    using assms(1-3) other flags by (auto simp: tasks_ok_def)
qed

lemma tasks_ok_leaves:
  assumes "tasks_ok (pre @ (r, p) # post) se" and "leaving p"
  shows "tasks_ok (pre @ (r, WRet ()) # post) (se\<lparr>se_active_tasks := se_active_tasks se - 1\<rparr>)"
  using assms by (auto simp: tasks_ok_def)

lemma tasks_ok_gone:
  assumes "tasks_ok (pre @ (r, WRet ()) # post) se"
  shows "tasks_ok (pre @ post) se"
  using assms by (auto simp: tasks_ok_def)

lemma worker_moves_keep:
  "worker_moves env lv lv' \<Longrightarrow> live_inv lv \<Longrightarrow>
   live_inv lv' \<and> se_streams (lv_session lv') = se_streams (lv_session lv)"
proof (induction rule: worker_moves.induct)
  case (worker_acts lv pre r p post malloc wake wait p' sx')
  let ?se = "sx_session (lv_st lv)"
  have inv: "hash_inv ?se" "tasks_ok (pre @ (r, p) # post) ?se" "se_c ?se \<noteq> None"
    using worker_acts by (simp_all add: live_inv_def lv_session_def)
  consider "holding p" | "leaving p" | "p = WRet ()"
    using inv(2) by (fastforce simp: tasks_ok_def)
  then show ?case
  proof cases
    case 1
    show ?thesis
      using holding_step [OF 1 worker_acts(2)]
    proof (elim disjE conjE)
      assume "holding p'" and f: "cb_frame ?se (sx_session sx')"
      then have "session_inv (pre @ (r, p') # post) (sx_session sx')"
        using session_inv_frame [OF f] tasks_ok_holding [OF inv(2) 1] inv by (simp add: session_inv_def)
      then show ?thesis using f by (simp add: live_inv_session lv_session_def cb_frame_def)
    qed (use tasks_ok_gives_up [OF inv(2) 1] inv in \<open>auto simp: live_inv_def lv_session_def hash_inv_flags\<close>)
  next
    case 2
    then show ?thesis
      using leaving_step [OF 2 worker_acts(2)] tasks_ok_leaves [OF inv(2) 2] inv
      by (simp add: live_inv_def lv_session_def hash_inv_def hash_ok_def blocked_count_def)
  qed (use worker_acts(2) in simp)
next
  case (worker_leaves lv pre r post)
  then show ?case using tasks_ok_gone [of pre r post] by (simp add: live_inv_def lv_session_def)
qed (simp add: live_inv_def lv_session_def)

lemma workers_keep:
  "(worker_moves env)\<^sup>*\<^sup>* lv lv' \<Longrightarrow> live_inv lv \<Longrightarrow>
   live_inv lv' \<and> se_streams (lv_session lv') = se_streams (lv_session lv)"
  by (induction rule: rtranclp_induct) (auto dest: worker_moves_keep)

section \<open>The pass keeps the invariant\<close>

lemma locked_keeps:
  assumes "workers_ok pe" and "locked pe f lv = Some (x, lv')"
    and "\<And>sx'. f (lv_st lv) = Some (x, sx') \<Longrightarrow> session_inv (lv_tasks lv) (sx_session sx')"
  shows "live_inv lv' \<and> (\<exists>sx'. f (lv_st lv) = Some (x, sx') \<and> se_streams (lv_session lv') = se_streams (sx_session sx'))"
proof -
  obtain sx' where f: "f (lv_st lv) = Some (x, sx')" and w: "px_workers pe (lv\<lparr>lv_st := sx'\<rparr>) = Some lv'"
    using assms(2) by (auto simp: locked_def split: bind_splits)
  have "live_inv (lv\<lparr>lv_st := sx'\<rparr>)" using assms(3) [OF f] by (simp add: live_inv_session lv_session_def)
  then have "live_inv lv' \<and> se_streams (lv_session lv') = se_streams (lv_session (lv\<lparr>lv_st := sx'\<rparr>))"
    using workers_keep assms(1) w unfolding workers_ok_def by blast
  then show ?thesis using f by (simp add: lv_session_def)
qed

lemma locked_inv:
  assumes "workers_ok pe" and "live_inv lv" and "locked pe f lv = Some (x, lv')"
    and "\<And>ts sx x sx'. session_inv ts (sx_session sx) \<Longrightarrow> f sx = Some (x, sx') \<Longrightarrow> session_inv ts (sx_session sx')"
  shows "live_inv lv'"
  using locked_keeps [OF assms(1,3)] assms(4) [of "lv_tasks lv" "lv_st lv"] assms(2)
  by (simp add: live_inv_session lv_session_def)

lemma abandon_each_frame: "cb_frame se (abandon_each t now es se)"
proof (induction es arbitrary: se)
  case (Cons e es)
  obtain sid r where e: "e = (sid, r)" by (cases e)
  show ?case
    using Cons [of "upd_stream r h3_stream_response_cancel_locked se"] Cons [of se]
      cb_frame_trans [OF cb_frame_upd [OF keeps_cancel]]
    by (auto simp: e)
qed simp

lemma abandon_frame: "cb_frame (sx_session sx) (sx_session (abandon_stalled_responses env t sx))"
  by (auto simp: abandon_stalled_responses_def abandon_each_frame split: prod.split)

lemma track_core:
  assumes h: "hash_inv (sx_session sx)" and t: "tasks_ok ts (sx_session sx)" and "track_stream env sid q sx = Some (res, sx')"
  shows "hash_inv (sx_session sx') \<and> tasks_ok ts (sx_session sx') \<and> se_c (sx_session sx') = se_c (sx_session sx)"
  using assms(3)
proof (cases rule: track_cases)
  case (found r)
  have f: "cb_frame (sx_session sx) (sx_session sx')" by (simp add: found cb_frame_upd keeps_def)
  then show ?thesis
    using h t hash_inv_frame [OF f] tasks_ok_same [OF cb_frame_same_hash [OF f]] by (simp add: cb_frame_def)
next
  case (new w now)
  let ?se = "sx_session sx"
  have old: "r \<in> snd ` set (se_streams ?se) \<Longrightarrow> r \<noteq> se_next ?se" for r
    using h by (auto simp: hash_inv_def hash_ok_def)
  have "held r (sx_session sx')" if "held r ?se" for r
    using that old [of r] by (auto simp: held_def new insert_stream_def)
  moreover have "\<not> st_worker_done (h3_zero_stream sid q l now)" for l
    by (simp add: h3_zero_stream_def blank_stream_def h3_response.defs fresh_response_def)
  ultimately have "tasks_ok ts (sx_session sx')"
    using t old by (auto simp: tasks_ok_def new insert_stream_def)
  then show ?thesis
    using insert_stream_hash [OF h, of sid] new(1)
    by (auto simp: new(3) h3_stream_find_def) (simp_all add: insert_stream_def)
qed (use h t in simp)

lemma track_inv:
  "session_inv ts (sx_session sx) \<Longrightarrow> track_stream env sid q sx = Some (res, sx') \<Longrightarrow> session_inv ts (sx_session sx')"
  using track_core [of sx ts env sid q res sx'] by (simp add: session_inv_def)

lemma take_stream_inv:
  "session_inv ts (sx_session sx) \<Longrightarrow> take_stream env sid q sx = Some (u, sx') \<Longrightarrow> session_inv ts (sx_session sx')"
  by (auto simp: take_stream_def split: bind_splits if_splits dest: track_inv)

lemma process_request_cases:
  assumes "h3_process_request env push logio r sx = Some (res, sx')"
  shows "case res of None \<Rightarrow> cb_frame (sx_session sx) (sx_session sx')
    | Some c \<Rightarrow> \<not> st_dispatched (stream_of r sx) \<and> (\<exists>w. sx' = (add_tasks 1 (set_stream_dispatched r True sx))\<lparr>sx_world := w\<rparr>)"
  using assms
  by (auto simp: h3_process_request_def set_stream_dispatched_def add_tasks_def stream_of_def cb_frame_def on_session_def Let_def
      split: if_splits option.splits prod.splits)

lemma dispatch_inv:
  assumes "session_inv ts se" and "r \<in> snd ` set (se_streams se)" and "\<not> st_dispatched (se_store se r)" and "holding p"
  shows "session_inv (ts @ [(r, p)])
    ((upd_stream r (\<lambda>st. st\<lparr>st_dispatched := True\<rparr>) se)\<lparr>se_active_tasks := se_active_tasks se + 1\<rparr>)"
proof -
  have ok: "tasks_ok ts se" using assms(1) by (simp add: session_inv_def)
  then have nd: "\<not> st_worker_done (se_store se r)" using assms(2,3) by (auto simp: tasks_ok_def)
  have "r \<notin> fst ` {t \<in> set ts. holding (snd t)}"
    using ok assms(3) by (auto simp: tasks_ok_def held_def split: if_splits)
  moreover have "held r' (upd_stream r (\<lambda>st. st\<lparr>st_dispatched := True\<rparr>) se)" if "held r' se \<or> r' = r" for r'
    using that nd assms(2) by (auto simp: held_def)
  ultimately have "tasks_ok (ts @ [(r, p)])
      ((upd_stream r (\<lambda>st. st\<lparr>st_dispatched := True\<rparr>) se)\<lparr>se_active_tasks := se_active_tasks se + 1\<rparr>)"
    using ok assms(4) by (auto simp: tasks_ok_def)
  then show ?thesis
    using assms(1) hash_inv_flags(1) [of r True se]
    by (simp add: session_inv_def hash_inv_def hash_ok_def blocked_count_def)
qed

lemma dispatch_one_inv:
  assumes p: "h3_process_request (px_env pe) push logio r (lv_st lv) = Some (res, sx1)"
    and "live_inv lv" and "r \<in> snd ` set (se_streams (lv_session lv))"
  shows "live_inv (lv\<lparr>lv_st := sx1, lv_tasks := lv_tasks lv @ (case res of None \<Rightarrow> [] | Some c \<Rightarrow> [worker_task pe c r sx1])\<rparr>) \<and>
    se_streams (sx_session sx1) = se_streams (lv_session lv)"
proof -
  let ?se = "sx_session (lv_st lv)"
  have inv: "session_inv (lv_tasks lv) ?se" using assms(2) by (simp add: live_inv_session lv_session_def)
  have r: "r \<in> snd ` set (se_streams ?se)" using assms(3) by (simp add: lv_session_def)
  have "session_inv (lv_tasks lv @ (case res of None \<Rightarrow> [] | Some c \<Rightarrow> [worker_task pe c r sx1])) (sx_session sx1) \<and>
      se_streams (sx_session sx1) = se_streams ?se"
  proof (cases res)
    case None
    then show ?thesis
      using process_request_cases [OF p] session_inv_frame [OF _ inv] by (simp add: cb_frame_def)
  next
    case (Some c)
    have h: "holding (snd (worker_task pe c r sx1))" and f: "fst (worker_task pe c r sx1) = r"
      by (simp_all add: worker_task_def stream_worker_holding)
    show ?thesis
      using process_request_cases [OF p] dispatch_inv [OF inv r _ h] f
      by (auto simp: Some stream_of_def set_stream_dispatched_def add_tasks_def on_session_def)
        (metis prod.collapse)
  qed
  then show ?thesis by (simp add: live_inv_session lv_session_def)
qed

lemma dispatch_all_step:
  assumes "dispatch_all pe (r # rs) lv = Some lv'"
  obtains res sx1 lv1 where "h3_process_request (px_env pe) (px_push pe) (px_logio pe) r (lv_st lv) = Some (res, sx1)"
    "px_workers pe (lv\<lparr>lv_st := sx1, lv_tasks := lv_tasks lv @ (case res of None \<Rightarrow> [] | Some c \<Rightarrow> [worker_task pe c r sx1])\<rparr>) = Some lv1"
    "dispatch_all pe rs lv1 = Some lv'"
  using assms by (auto split: bind_splits)

lemma dispatch_all_keeps:
  assumes "workers_ok pe"
  shows "dispatch_all pe rs lv = Some lv' \<Longrightarrow> live_inv lv \<Longrightarrow> set rs \<subseteq> snd ` set (se_streams (lv_session lv)) \<Longrightarrow> live_inv lv'"
proof (induction rs arbitrary: lv)
  case (Cons r rs)
  from Cons.prems(1) show ?case
  proof (rule dispatch_all_step)
    fix res sx1 lv1
    let ?lv = "lv\<lparr>lv_st := sx1, lv_tasks := lv_tasks lv @ (case res of None \<Rightarrow> [] | Some c \<Rightarrow> [worker_task pe c r sx1])\<rparr>"
    assume p: "h3_process_request (px_env pe) (px_push pe) (px_logio pe) r (lv_st lv) = Some (res, sx1)"
      and w: "px_workers pe ?lv = Some lv1" and rest: "dispatch_all pe rs lv1 = Some lv'"
    have l: "live_inv ?lv" and s: "se_streams (lv_session ?lv) = se_streams (lv_session lv)"
      using dispatch_one_inv [OF p Cons.prems(2)] Cons.prems(3) by (simp_all add: lv_session_def)
    have "(worker_moves (px_env pe))\<^sup>*\<^sup>* ?lv lv1" using assms w by (simp add: workers_ok_def)
    from workers_keep [OF this l] show ?case using Cons.IH [OF rest] Cons.prems(3) s by simp
  qed
qed simp

lemma lv_fields [simp]:
  "lv_tasks (on_lv f lv) = lv_tasks lv" "lv_session (on_lv f lv) = sx_session (f (lv_st lv))"
  "lv_st (on_lv f lv) = f (lv_st lv)"
  by (simp_all add: on_lv_def lv_session_def)

lemma world_keeps [simp]: "live_inv (on_lv (\<lambda>sx. sx\<lparr>sx_world := w\<rparr>) lv) = live_inv lv"
  "live_inv (on_lv (on_world g) lv) = live_inv lv"
  by (simp_all add: live_inv_def lv_session_def)

lemma aux_keeps: "live_inv lv \<Longrightarrow> (\<And>se. aux_eq se (f se)) \<Longrightarrow> live_inv (on_lv (on_session f) lv)"
  using tasks_sc.aux_law [of "lv_tasks lv" "lv_session lv" "f (lv_session lv)"]
  by (simp add: live_inv_session lv_session_def)

lemma tell_keeps: "tell pe lv = (t, lv') \<Longrightarrow> live_inv lv \<Longrightarrow> live_inv lv'"
  by (auto simp: tell_def split: prod.splits)

lemma set_aborted_keeps: "live_inv lv \<Longrightarrow> live_inv (set_aborted lv)"
  unfolding set_aborted_def by (erule aux_keeps) (simp add: aux_eq_def)

lemma accept_streams_keeps:
  assumes "workers_ok pe" and "accept_streams pe n lv = Some (m, lv')" and "live_inv lv"
  shows "live_inv lv'"
proof -
  have "workers_ok pe \<longrightarrow> live_inv lv \<longrightarrow> live_inv (snd (m, lv'))"
  proof (rule accept_streams.raw_induct
      [where P = "\<lambda>pe n lv x. workers_ok pe \<longrightarrow> live_inv lv \<longrightarrow> live_inv (snd x)", OF _ assms(2)], intro impI)
    fix loop :: "('a, 'b) pass_env \<Rightarrow> bool \<times> apr_uint32_t \<Rightarrow> 'a live \<Rightarrow> ((bool \<times> apr_uint32_t) \<times> 'a live) option"
      and pe n lv x
    assume IH: "\<And>pe n lv x. loop pe n lv = Some x \<Longrightarrow> workers_ok pe \<longrightarrow> live_inv lv \<longrightarrow> live_inv (snd x)"
      and ok: "workers_ok pe" and inv: "live_inv lv"
      and body: "(case h3q_conn_accept_stream (env_ssl (px_env pe)) (se_qconn (lv_session lv)) (lv_world lv) of
        (None, w) \<Rightarrow> Some (n, on_lv (\<lambda>sx. sx\<lparr>sx_world := w\<rparr>) lv)
      | (Some q, w) \<Rightarrow>
          let sid = h3q_stream_id (env_ssl (px_env pe)) (Some q) w;
              lv = on_lv (\<lambda>sx. sx\<lparr>sx_world := w\<rparr>) lv
          in if sid < 0
             then loop pe (True, snd n + 1) (on_lv (on_world (h3q_stream_free (env_ssl (px_env pe)) (Some q))) lv)
             else (case locked pe (take_stream (px_env pe) sid q) lv of
                     None \<Rightarrow> None
                   | Some (_, lv) \<Rightarrow> loop pe (True, snd n + 1) lv)) = Some x"
    have take: "live_inv lv2" if "locked pe (take_stream (px_env pe) sid q) (on_lv (\<lambda>sx. sx\<lparr>sx_world := w\<rparr>) lv) = Some (u, lv2)"
      for sid q w u lv2
      by (rule locked_inv [OF ok _ that]) (use inv take_stream_inv in auto)
    show "live_inv (snd x)"
      using body inv take IH ok
      by (auto simp: Let_def split: prod.splits option.splits if_splits)
  qed
  then show ?thesis using assms by simp
qed

lemma flush_inv:
  "hash_order_ok env \<Longrightarrow> session_inv ts (sx_session sx) \<Longrightarrow> flush_nghttp3 env sx = Some sx' \<Longrightarrow> session_inv ts (sx_session sx')"
  by (rule tasks_sc.flush_keeps)

lemma goaway_flush_inv:
  "hash_order_ok env \<Longrightarrow> session_inv ts (sx_session sx) \<Longrightarrow> goaway_flush env sx = Some (d, sx') \<Longrightarrow> session_inv ts (sx_session sx')"
  by (auto simp: goaway_flush_def split: bind_splits if_splits intro: flush_inv tasks_sc.call_ng_keeps)

lemma final_flush_inv:
  "hash_order_ok env \<Longrightarrow> session_inv ts (sx_session sx) \<Longrightarrow> final_flush env sx = Some (u, sx') \<Longrightarrow> session_inv ts (sx_session sx')"
  by (auto simp: final_flush_def split: bind_splits intro: flush_inv tasks_sc.call_ng_keeps)

lemma last_flush_inv:
  "hash_order_ok env \<Longrightarrow> session_inv ts (sx_session sx) \<Longrightarrow> last_flush env sx = Some (u, sx') \<Longrightarrow> session_inv ts (sx_session sx')"
  by (auto simp: last_flush_def split: bind_splits intro: session_inv_frame [OF abandon_frame] flush_inv)

lemma live_inv_deadline [simp]:
  "live_inv (on_lv (on_session (\<lambda>se. se\<lparr>se_goaway_deadline := d\<rparr>)) lv) = live_inv lv"
  by (simp add: live_inv_def lv_session_def hash_inv_def hash_ok_def blocked_count_def tasks_ok_def held_def)

lemma set_deadline_keeps: "live_inv lv \<Longrightarrow> live_inv (set_deadline pe lv)"
  by (auto simp: set_deadline_def split: prod.split dest: tell_keeps)

lemma goaway_part_keeps:
  assumes "workers_ok pe" and "hash_order_ok (px_env pe)" and "live_inv lv" and "goaway_part pe lv = Some (over, lv')"
  shows "live_inv lv'"
proof (cases "px_draining pe (lv_world lv) \<or> \<not> px_running pe (lv_world lv)")
  case True
  then obtain drained lv1 where l: "locked pe (goaway_flush (px_env pe)) lv = Some (drained, lv1)"
    using assms(4) by (auto simp: goaway_part_def split: bind_splits)
  define lv2 where "lv2 = set_deadline pe (on_lv (on_session (\<lambda>se. se\<lparr>se_goaway_sent := True\<rparr>)) lv1)"
  obtain b lv3 where g: "goaway_over pe drained lv2 = (b, lv3)" by force
  have "live_inv lv1" by (rule locked_inv [OF assms(1,3) l goaway_flush_inv [OF assms(2)]])
  then have "live_inv (on_lv (on_session (\<lambda>se. se\<lparr>se_goaway_sent := True\<rparr>)) lv1)"
    by (rule aux_keeps) (simp add: aux_eq_def)
  then have "live_inv lv2" unfolding lv2_def by (rule set_deadline_keeps)
  then have inv: "live_inv lv3" using g by (auto simp: goaway_over_def split: if_splits prod.splits dest: tell_keeps)
  have rest: "(if \<not> b then Some (False, lv3)
      else Option.bind (locked pe (final_flush (px_env pe)) lv3) (\<lambda>(_, lv). Some (True, set_aborted lv))) = Some (over, lv')"
    using assms(4) True l g by (simp add: goaway_part_def lv2_def)
  show ?thesis
  proof (cases b)
    case True
    then obtain u lv4 where f: "locked pe (final_flush (px_env pe)) lv3 = Some (u, lv4)" and lv': "lv' = set_aborted lv4"
      using rest by (auto split: bind_splits)
    have "live_inv lv4" by (rule locked_inv [OF assms(1) inv f final_flush_inv [OF assms(2)]])
    then show ?thesis by (simp add: lv' set_aborted_keeps)
  qed (use rest inv in simp)
qed (use assms(3,4) in \<open>simp add: goaway_part_def\<close>)

lemma note_activity_keeps: "live_inv lv \<Longrightarrow> live_inv (note_activity pe b lv)"
  by (auto simp: note_activity_def aux_eq_def split: prod.split intro!: aux_keeps set_aborted_keeps dest: tell_keeps)

lemma note_activity_tasks: "lv_tasks (note_activity pe b lv) = lv_tasks lv"
  by (simp add: note_activity_def tell_def set_aborted_def split: prod.split)

lemma drain_flush_inv:
  assumes "hash_order_ok env" and "session_inv ts (sx_session sx)" and "drain_flush env sx = Some ((completed, read), sx')"
  shows "session_inv ts (sx_session sx') \<and> set completed \<subseteq> snd ` set (se_streams (sx_session sx'))"
proof -
  obtain sx1 where d: "drain_ready_streams env sx = Some ((completed, read), sx1)" and f: "flush_nghttp3 env sx1 = Some sx'"
    using assms(3) by (auto simp: drain_flush_def split: bind_splits)
  have h: "hash_inv (sx_session sx)" using assms(2) by (simp add: session_inv_def)
  have 1: "session_inv ts (sx_session sx1)" using tasks_sc.drain_ready_keeps [OF assms(1,2) h d] by simp
  have "same_hash (sx_session sx1) (sx_session sx')" by (rule same_hash_ss.flush_keeps [OF assms(1) same_hash_refl f])
  moreover have "set completed \<subseteq> snd ` set (se_streams (sx_session sx1))"
    using drain_completed_stay [OF assms(1) h d] by force
  ultimately show ?thesis using flush_inv [OF assms(1) 1 f] by (simp add: same_hash_def)
qed

lemma serve_part_keeps:
  assumes "workers_ok pe" and "hash_order_ok (px_env pe)" and "live_inv lv" and "serve_part pe b lv = Some (again, lv')"
  shows "live_inv lv'"
proof -
  obtain completed read lv1 where l: "locked pe (drain_flush (px_env pe)) lv = Some ((completed, read), lv1)"
    using assms(4) by (auto simp: serve_part_def split: bind_splits)
  have inv: "session_inv (lv_tasks lv) (sx_session (lv_st lv))" using assms(3) by (simp add: live_inv_session lv_session_def)
  note d = drain_flush_inv [OF assms(2) inv]
  have 1: "live_inv lv1 \<and> (\<exists>sx'. drain_flush (px_env pe) (lv_st lv) = Some ((completed, read), sx') \<and>
      se_streams (lv_session lv1) = se_streams (sx_session sx'))"
    by (rule locked_keeps [OF assms(1) l]) (use d in blast)
  then have c: "set completed \<subseteq> snd ` set (se_streams (lv_session lv1))" using d by fastforce
  show ?thesis
  proof (cases "se_ngh3_dead (lv_session lv1)")
    case True
    then show ?thesis using assms(4) l 1 by (auto simp: serve_part_def set_aborted_keeps)
  next
    case False
    then obtain lv2 u lv3 where a: "dispatch_all pe completed lv1 = Some lv2"
      and f: "locked pe (last_flush (px_env pe)) lv2 = Some (u, lv3)"
      and lv': "lv' = note_activity pe (b \<or> read \<or> completed \<noteq> []) lv3"
      using assms(4) l by (auto simp: serve_part_def split: bind_splits)
    have 2: "live_inv lv2" by (rule dispatch_all_keeps [OF assms(1) a]) (use 1 c in auto)
    have "live_inv lv3" by (rule locked_inv [OF assms(1) 2 f last_flush_inv [OF assms(2)]])
    then show ?thesis by (simp add: lv' note_activity_keeps)
  qed
qed

lemma service_pass_inv:
  assumes "workers_ok pe" and "hash_order_ok (px_env pe)" and "live_inv lv"
    and "service_session_pass pe lv = Some (res, lv')"
  shows "live_inv lv'"
proof (cases "se_aborted (lv_session lv)")
  case False
  then obtain over lv1 where g: "goaway_part pe lv = Some (over, lv1)"
    using assms(4) by (auto simp: service_session_pass_def split: bind_splits)
  have 1: "live_inv lv1" by (rule goaway_part_keeps [OF assms(1-3) g])
  obtain ok w where pool: "apr_pool_create (px_env pe) (lv_world lv1) = (ok, w)" by force
  show ?thesis
  proof (cases "over \<or> h3q_conn_is_closed (env_ssl (px_env pe)) (se_qconn (lv_session lv1)) (lv_world lv1) \<or> \<not> ok")
    case True
    then show ?thesis
      using assms(4) False g 1 pool by (auto simp: service_session_pass_def set_aborted_keeps split: if_splits)
  next
    case False
    then obtain n lv2 again lv3 where a: "accept_streams pe (False, 0) (on_lv (\<lambda>sx. sx\<lparr>sx_world := w\<rparr>) lv1) = Some (n, lv2)"
      and s: "serve_part pe (fst n) lv2 = Some (again, lv3)" and lv': "lv' = lv3"
      using assms(4) \<open>\<not> se_aborted (lv_session lv)\<close> g pool
      by (auto simp: service_session_pass_def split: bind_splits)
    have "live_inv lv2" by (rule accept_streams_keeps [OF assms(1) a]) (simp add: 1)
    then show ?thesis using serve_part_keeps [OF assms(1,2) _ s] by (simp add: lv')
  qed
qed (use assms(3,4) in \<open>simp add: service_session_pass_def\<close>)

section \<open>What holds over the life of a session\<close>

text \<open>The workers and the event thread in turn.\<close>

inductive session_step :: "('w, 't) pass_env \<Rightarrow> 'w live \<Rightarrow> 'w live \<Rightarrow> bool" for pe where
  workers_step: "worker_moves (px_env pe) lv lv' \<Longrightarrow> session_step pe lv lv'"
| pass_step: "service_session_pass pe lv = Some (res, lv') \<Longrightarrow> session_step pe lv lv'"

lemma session_run_inv:
  assumes "workers_ok pe" and "hash_order_ok (px_env pe)"
  shows "(session_step pe)\<^sup>*\<^sup>* lv lv' \<Longrightarrow> live_inv lv \<Longrightarrow> live_inv lv'"
proof (induction rule: rtranclp_induct)
  case (step lv1 lv2)
  then show ?case
    by (auto elim!: session_step.cases dest: worker_moves_keep service_pass_inv [OF assms])
qed simp

lemma fresh_live_inv:
  "lv_tasks lv = [] \<Longrightarrow> hash_inv (lv_session lv) \<Longrightarrow> se_c (lv_session lv) \<noteq> None \<Longrightarrow>
   se_active_tasks (lv_session lv) = 0 \<Longrightarrow> \<forall>r. \<not> st_worker_done (se_store (lv_session lv) r) \<Longrightarrow> live_inv lv"
  by (simp add: live_inv_def tasks_ok_def)


definition demo_pe :: "(nat, (string \<times> string) list) pass_env" where
  "demo_pe = \<lparr>px_env = demo_env, px_workers = Some, px_draining = (\<lambda>w. False), px_running = (\<lambda>w. True),
     px_push = (\<lambda>w. (True, w)), px_logio = False, px_api = alist_httpd, px_devel = True,
     px_create_request = (\<lambda>w c. Some (sample_request\<lparr>r_connection := c\<rparr>)), px_ctx_pool = (\<lambda>w. True)\<rparr>"

definition demo_live :: "nat live" where
  "demo_live = \<lparr>lv_st = on_session (\<lambda>se. se\<lparr>se_c := Some sample_conn, se_server := small_server\<lparr>module_config :=
     small_conf\<lparr>h3_stream_buffer_size := 64, h3_stream_timeout := 0\<rparr>\<rparr>\<rparr>) demo_st, lv_tasks = []\<rparr>"

lemma demo_drained:
  "\<exists>sx'. drain_ready_streams demo_env (lv_st demo_live) = Some (([0], True), sx') \<and> \<not> se_ngh3_dead (sx_session sx') \<and>
     se_blocked_streams (sx_session sx') = 0 \<and> se_pending_free (sx_session sx') = [] \<and> se_c (sx_session sx') = Some sample_conn \<and>
     \<not> st_dispatched (stream_of 0 sx') \<and> stall_timeout_of (sx_session sx') = 0"
  by (simp add: drain_eval demo_env_def demo_st_def quiet_env_def quiet_ssl_def quiet_ng_def sample_st_def
      sample_session_def small_server_def small_conf_def demo_live_def stall_timeout_of_def)

lemma demo_flush:
  "\<not> se_ngh3_dead (sx_session sx) \<Longrightarrow> se_blocked_streams (sx_session sx) = 0 \<Longrightarrow> se_pending_free (sx_session sx) = [] \<Longrightarrow>
   flush_nghttp3 demo_env sx = Some sx"
  by (simp add: flush_nghttp3_def flush_loop.simps unblock_writable_streams_def free_pending_def call_ng_def demo_env_def
      quiet_env_def quiet_ng_def on_session_def)

lemma demo_dispatch:
  assumes "\<not> st_dispatched (stream_of 0 sx)" "se_c (sx_session sx) = Some sample_conn"
  shows "\<exists>sx' c. h3_process_request demo_env (\<lambda>w. (True, w)) False 0 sx = Some (Some c, sx') \<and>
    sx_session sx' = (upd_stream 0 (\<lambda>st. st\<lparr>st_dispatched := True\<rparr>) (sx_session sx))\<lparr>se_active_tasks := se_active_tasks (sx_session sx) + 1\<rparr>"
  using assms by (simp add: h3_process_request_def demo_env_def quiet_env_def set_stream_dispatched_def add_tasks_def Let_def)

lemma demo_pass: "\<exists>lv' p. service_session_pass demo_pe demo_live = Some ((True, 0), lv') \<and> lv_tasks lv' = [(0, p)] \<and> holding p"
proof -
  obtain sx1 where d: "drain_ready_streams demo_env (lv_st demo_live) = Some (([0], True), sx1)"
    and e: "\<not> se_ngh3_dead (sx_session sx1)" "se_blocked_streams (sx_session sx1) = 0" "se_pending_free (sx_session sx1) = []"
      "se_c (sx_session sx1) = Some sample_conn" "\<not> st_dispatched (stream_of 0 sx1)" "stall_timeout_of (sx_session sx1) = 0"
    using demo_drained by blast
  have 1: "drain_flush demo_env (lv_st demo_live) = Some (([0], True), sx1)"
    using d demo_flush [OF e(1-3)] by (simp add: drain_flush_def)
  obtain sx2 c where p: "h3_process_request demo_env (\<lambda>w. (True, w)) False 0 sx1 = Some (Some c, sx2)"
    and s2: "sx_session sx2 = (upd_stream 0 (\<lambda>st. st\<lparr>st_dispatched := True\<rparr>) (sx_session sx1))\<lparr>se_active_tasks := se_active_tasks (sx_session sx1) + 1\<rparr>"
    using demo_dispatch [OF e(5,4)] by blast
  have "flush_nghttp3 demo_env sx2 = Some sx2" using e by (intro demo_flush) (simp_all add: s2)
  moreover have "stall_timeout_of (sx_session sx2) = 0" unfolding e(6) [symmetric] by (simp add: s2 stall_timeout_of_def se_conf_def)
  ultimately have 2: "last_flush demo_env sx2 = Some ((), sx2)"
    by (simp add: last_flush_def abandon_stalled_responses_def)
  have no_tasks: "lv_tasks demo_live = []" by (simp add: demo_live_def)
  have 3: "goaway_part demo_pe demo_live = Some (False, demo_live)" by (simp add: goaway_part_def demo_pe_def)
  have 4: "\<not> se_aborted (lv_session demo_live)" "se_qconn (lv_session demo_live) = Some 50"
    by (simp_all add: demo_live_def demo_st_def sample_session_def lv_session_def)
  have w: "on_lv (\<lambda>sx. sx\<lparr>sx_world := lv_world demo_live\<rparr>) demo_live = demo_live"
    by (simp add: on_lv_def lv_world_def)
  have pe: "px_env demo_pe = demo_env" "px_workers demo_pe = Some" "px_push demo_pe = (\<lambda>w. (True, w))" "\<not> px_logio demo_pe"
    by (simp_all add: demo_pe_def)
  have env: "SSL_get_shutdown (env_ssl demo_env) = (\<lambda>c w. 0)" "apr_pool_create demo_env = (\<lambda>w. (True, w))"
    "SSL_accept_stream (env_ssl demo_env) = (\<lambda>c w. (None, w))"
    by (simp_all add: demo_env_def quiet_env_def quiet_ssl_def)
  have 5: "accept_streams demo_pe (False, 0) demo_live = Some ((False, 0), demo_live)"
    by (subst accept_streams.simps) (simp add: h3q_conn_accept_stream_def 4 pe env w)
  define lv' where "lv' = note_activity demo_pe True (demo_live\<lparr>lv_tasks := [worker_task demo_pe c 0 sx2], lv_st := sx2\<rparr>)"
  have 6: "serve_part demo_pe False demo_live = Some (True, lv')"
    using e(1) by (simp add: serve_part_def locked_def pe 1 lv_session_def p 2 no_tasks lv'_def)
  have 7: "lv_tasks lv' = [(0, snd (worker_task demo_pe c 0 sx2))]" "holding (snd (worker_task demo_pe c 0 sx2))"
    by (simp_all add: lv'_def note_activity_tasks worker_task_def stream_worker_holding)
  have "service_session_pass demo_pe demo_live = Some ((True, 0), lv')"
    by (simp add: service_session_pass_def 3 4 5 6 pe env h3q_conn_is_closed_def w)
  from this 7 show ?thesis by (intro exI conjI)
qed


section \<open>Stalled responses are abandoned\<close>

lemma abandon_each_store:
  "distinct (map snd es) \<Longrightarrow>
   se_store (abandon_each t now es se) r =
     (if r \<in> snd ` set es \<and> stalled t now (se_store se r) then h3_stream_response_cancel_locked (se_store se r)
      else se_store se r)"
proof (induction es arbitrary: se)
  case (Cons e es)
  obtain sid r' where e: "e = (sid, r')" by (cases e)
  have "r' \<notin> snd ` set es" using Cons.prems by (simp add: e)
  then show ?case using Cons.IH Cons.prems by (auto simp: e)
qed simp

text \<open>
  With a stall timeout, a pass cancels exactly those responses of the session whose queue is
  full and has made no progress for that long, and that are neither complete nor cancelled; every
  other stream stays as it is. Without a timeout nothing is cancelled.
\<close>

theorem stalled_responses_cancelled:
  assumes "hash_order_ok env" and "hash_inv (sx_session sx)"
    and "apr_time_now env (sx_world sx) = (now, w)"
  shows "stream_of r (abandon_stalled_responses env t sx) =
    (if 0 < t \<and> r \<in> snd ` set (se_streams (sx_session sx)) \<and> \<not> response_cancelled (stream_of r sx) \<and>
        \<not> response_complete (stream_of r sx) \<and> response_buffer_limit (stream_of r sx) \<le> response_buffered (stream_of r sx) \<and>
        t \<le> now - response_progress_at (stream_of r sx)
     then h3_stream_response_cancel_locked (stream_of r sx) else stream_of r sx)"
proof -
  note facts = hash_order_facts(2,3) [OF assms(1,2)]
  have "snd ` set (apr_hash_order env (se_streams (sx_session sx))) = snd ` set (se_streams (sx_session sx))"
    using facts(2) by simp
  then show ?thesis
    using abandon_each_store [OF facts(1), of t now "sx_session sx" r] assms(3)
    by (auto simp: abandon_stalled_responses_def stream_of_def stalled_def not_less)
qed

theorem stalled_responses_cancelled_witness:
  "response_cancelled (stream_of 0 (abandon_stalled_responses quiet_env 5
     (sample_st\<lparr>sx_world := 9, sx_session := upd_stream 0 (\<lambda>st. st\<lparr>response_buffered := 8\<rparr>) sample_session\<rparr>)))"
proof -
  let ?sx = "sample_st\<lparr>sx_world := 9, sx_session := upd_stream 0 (\<lambda>st. st\<lparr>response_buffered := 8\<rparr>) sample_session\<rparr>"
  have o: "hash_order_ok quiet_env" by (simp add: hash_order_ok_def quiet_env_def)
  have h: "hash_inv (sx_session ?sx)"
    by (simp add: sample_session_def hash_inv_def hash_ok_def blocked_count_def)
  have t: "apr_time_now quiet_env (sx_world ?sx) = (9, 10)" by (simp add: quiet_env_def)
  have "stream_of 0 (abandon_stalled_responses quiet_env 5 ?sx) = h3_stream_response_cancel_locked (stream_of 0 ?sx)"
    unfolding stalled_responses_cancelled [OF o h t, of 0 5]
    by (simp add: stream_of_def sample_session_def blank_stream_def h3_response.defs fresh_response_def)
  then show ?thesis by (simp add: h3_stream_response_cancel_locked_def cond_broadcast_def Let_def)
qed

end
