(* ===== verification/H3_Socket.thy ===== *)
theory H3_Socket
  imports H3_Prelude
begin

text \<open>
  The UDP socket of the listener and the pair of sockets that wakes the event thread
  (\<^verbatim>\<open>h3_socket.c\<close>, \<^verbatim>\<open>h3_socket_os.c\<close>). APR and the operating system are a parameter that acts on a
  world; a theorem about what stays open names what it needs of them.
\<close>

section \<open>APR's sockets\<close>

type_synonym sock = nat

datatype apr_family = APR_INET | APR_INET6

datatype apr_sockopt = APR_IPV6_V6ONLY | APR_SO_RCVBUF | APR_SO_SNDBUF

type_synonym sock_addr = "string option \<times> apr_family \<times> apr_port_t"

record 'w socket_api =
  apr_socket_create :: "apr_family \<Rightarrow> 'w \<Rightarrow> (apr_status_t + sock) \<times> 'w"
  apr_socket_opt_set :: "sock \<Rightarrow> apr_sockopt \<Rightarrow> int \<Rightarrow> 'w \<Rightarrow> apr_status_t \<times> 'w"
  apr_sockaddr_info :: "string option \<Rightarrow> apr_family \<Rightarrow> apr_port_t \<Rightarrow> 'w \<Rightarrow> (apr_status_t + sock_addr) \<times> 'w"
  apr_socket_bind :: "sock \<Rightarrow> sock_addr \<Rightarrow> 'w \<Rightarrow> apr_status_t \<times> 'w"
  apr_socket_addr_get :: "sock \<Rightarrow> 'w \<Rightarrow> apr_status_t + sock_addr"
  apr_socket_connect :: "sock \<Rightarrow> sock_addr \<Rightarrow> 'w \<Rightarrow> apr_status_t \<times> 'w"
  apr_socket_timeout_set :: "sock \<Rightarrow> int \<Rightarrow> 'w \<Rightarrow> apr_status_t \<times> 'w"
  apr_os_sock_get :: "sock \<Rightarrow> 'w \<Rightarrow> apr_status_t + int"
  apr_socket_close :: "sock \<Rightarrow> 'w \<Rightarrow> 'w"
  apr_socket_send :: "sock \<Rightarrow> byte list \<Rightarrow> 'w \<Rightarrow> 'w"
  apr_socket_recv :: "sock \<Rightarrow> nat \<Rightarrow> 'w \<Rightarrow> (apr_status_t + byte list) \<times> 'w"
  getsockopt :: "int \<Rightarrow> apr_sockopt \<Rightarrow> 'w \<Rightarrow> int option"
  os_close :: "int \<Rightarrow> 'w \<Rightarrow> 'w"
  EADDRINUSE :: int

definition h3_socket_os_close :: "'w socket_api \<Rightarrow> int \<Rightarrow> 'w \<Rightarrow> 'w" where
  "h3_socket_os_close sk fd = os_close sk fd"

definition h3_socket_os_is_eaddrinuse :: "'w socket_api \<Rightarrow> apr_status_t \<Rightarrow> bool" where
  "h3_socket_os_is_eaddrinuse sk rv \<longleftrightarrow> rv = APR_OTHER (EADDRINUSE sk)"

section \<open>The UDP socket\<close>

text \<open>What \<^verbatim>\<open>tune_buffers\<close> reports: an option that could not be set, or that was granted in part.\<close>

datatype tune_note = NotSet apr_sockopt | Granted apr_sockopt int

definition tune_one ::
  "'w socket_api \<Rightarrow> bool \<Rightarrow> sock \<Rightarrow> int option \<Rightarrow> size_t \<Rightarrow> apr_sockopt \<Rightarrow> 'w \<Rightarrow> tune_note list \<times> 'w" where
  "tune_one sk linux sock os_sock want opt w =
     (case apr_socket_opt_set sk sock opt (sint (ucast want :: 32 word)) w of
        (rv, w) \<Rightarrow>
          if rv \<noteq> APR_SUCCESS then ([NotSet opt], w)
          else (case Option.bind os_sock (\<lambda>fd. getsockopt sk fd opt w) of
                  None \<Rightarrow> ([], w)
                | Some got \<Rightarrow>
                    if got > 0
                    then let got = (if linux then got div 2 else got)
                         in (if (of_int got :: size_t) < want then [Granted opt got] else [], w)
                    else ([], w)))"

definition tune_buffers ::
  "'w socket_api \<Rightarrow> bool \<Rightarrow> sock \<Rightarrow> size_t \<Rightarrow> 'w \<Rightarrow> tune_note list \<times> 'w" where
  "tune_buffers sk linux sock want w =
     (if want = 0 \<or> want > 2147483647 then ([], w)
      else
        let os_sock = (case apr_os_sock_get sk sock w of Inr fd \<Rightarrow> Some fd | Inl _ \<Rightarrow> None)
        in (case tune_one sk linux sock os_sock want APR_SO_RCVBUF w of
              (notes, w) \<Rightarrow>
                (case tune_one sk linux sock os_sock want APR_SO_SNDBUF w of (notes', w) \<Rightarrow> (notes @ notes', w))))"

definition h3_socket_open ::
  "'w socket_api \<Rightarrow> bool \<Rightarrow> apr_port_t \<Rightarrow> size_t \<Rightarrow> 'w \<Rightarrow> (apr_status_t + int) \<times> 'w" where
  "h3_socket_open sk linux port buffer_size w =
     (case apr_socket_create sk APR_INET6 w of
        (Inl rv, w) \<Rightarrow> (Inl rv, w)
      | (Inr sock, w) \<Rightarrow>
          let (_, w) = apr_socket_opt_set sk sock APR_IPV6_V6ONLY 0 w;
              (_, w) = tune_buffers sk linux sock buffer_size w
          in (case apr_sockaddr_info sk None APR_INET6 port w of
                (Inl rv, w) \<Rightarrow> (Inl rv, apr_socket_close sk sock w)
              | (Inr addr, w) \<Rightarrow>
                  (case apr_socket_bind sk sock addr w of
                     (rv, w) \<Rightarrow>
                       if rv \<noteq> APR_SUCCESS
                       then (Inl (if h3_socket_os_is_eaddrinuse sk rv then APR_EAGAIN else rv), apr_socket_close sk sock w)
                       else (case apr_socket_timeout_set sk sock 0 w of
                               (rv, w) \<Rightarrow>
                                 if rv \<noteq> APR_SUCCESS then (Inl rv, apr_socket_close sk sock w)
                                 else (case apr_os_sock_get sk sock w of
                                         Inl rv \<Rightarrow> (Inl rv, apr_socket_close sk sock w)
                                       | Inr os_sock \<Rightarrow> (Inr os_sock, w))))))"

definition h3_socket_close :: "'w socket_api \<Rightarrow> int \<Rightarrow> 'w \<Rightarrow> 'w" where
  "h3_socket_close sk fd w = (if fd \<ge> 0 then h3_socket_os_close sk fd w else w)"

section \<open>The wake-up sockets\<close>

record h3_wakeup =
  wk_reader :: "sock option"
  wk_writer :: "sock option"
  wk_reader_fd :: int

definition wakeup_none :: h3_wakeup where
  "wakeup_none = \<lparr>wk_reader = None, wk_writer = None, wk_reader_fd = - 1\<rparr>"

text \<open>The calls up to the first that fails, each with the status it gives.\<close>

definition try_call :: "apr_status_t \<times> 'w \<Rightarrow> ('w \<Rightarrow> (apr_status_t + 'a) \<times> 'w) \<Rightarrow> (apr_status_t + 'a) \<times> 'w" where
  "try_call c k = (case c of (rv, w) \<Rightarrow> if rv \<noteq> APR_SUCCESS then (Inl rv, w) else k w)"

definition try_get ::
  "(apr_status_t + 'b) \<times> 'w \<Rightarrow> ('b \<Rightarrow> 'w \<Rightarrow> (apr_status_t + 'a) \<times> 'w) \<Rightarrow> (apr_status_t + 'a) \<times> 'w" where
  "try_get c k = (case c of (Inl rv, w) \<Rightarrow> (Inl rv, w) | (Inr x, w) \<Rightarrow> k x w)"

definition wakeup_pair :: "'w socket_api \<Rightarrow> 'w \<Rightarrow> (apr_status_t + h3_wakeup) \<times> 'w" where
  "wakeup_pair sk w =
     try_get (apr_sockaddr_info sk (Some ''127.0.0.1'') APR_INET 0 w) (\<lambda>loopback w.
     try_get (apr_socket_create sk APR_INET w) (\<lambda>reader w.
     try_call (apr_socket_bind sk reader loopback w) (\<lambda>w.
     try_get (apr_socket_addr_get sk reader w, w) (\<lambda>bound w.
     try_get (apr_socket_create sk APR_INET w) (\<lambda>writer w.
     try_get (apr_sockaddr_info sk (Some ''127.0.0.1'') APR_INET 0 w) (\<lambda>writer_bind w.
     try_call (apr_socket_bind sk writer writer_bind w) (\<lambda>w.
     try_call (apr_socket_connect sk writer bound w) (\<lambda>w.
     try_get (apr_socket_addr_get sk writer w, w) (\<lambda>writer_addr w.
     try_call (apr_socket_connect sk reader writer_addr w) (\<lambda>w.
     try_call (apr_socket_timeout_set sk reader 0 w) (\<lambda>w.
     try_call (apr_socket_timeout_set sk writer 0 w) (\<lambda>w.
     try_get (apr_os_sock_get sk reader w, w) (\<lambda>fd w.
       (Inr \<lparr>wk_reader = Some reader, wk_writer = Some writer, wk_reader_fd = fd\<rparr>, w))))))))))))))"

definition h3_wakeup_create :: "'w socket_api \<Rightarrow> 'w \<Rightarrow> (apr_status_t \<times> h3_wakeup) \<times> 'w" where
  "h3_wakeup_create sk w =
     (case wakeup_pair sk w of
        (Inl rv, w) \<Rightarrow> ((rv, wakeup_none), w)
      | (Inr wk, w) \<Rightarrow> ((APR_SUCCESS, wk), w))"

definition h3_wakeup_signal :: "'w socket_api \<Rightarrow> h3_wakeup option \<Rightarrow> 'w \<Rightarrow> 'w" where
  "h3_wakeup_signal sk wk w =
     (case Option.bind wk wk_writer of
        None \<Rightarrow> w
      | Some writer \<Rightarrow> apr_socket_send sk writer [49] w)"

fun drain_loop_sk :: "'w socket_api \<Rightarrow> sock \<Rightarrow> nat \<Rightarrow> 'w \<Rightarrow> 'w" where
  "drain_loop_sk sk reader 0 w = w"
| "drain_loop_sk sk reader (Suc n) w =
     (case apr_socket_recv sk reader 64 w of
        (Inl rv, w) \<Rightarrow> w
      | (Inr bs, w) \<Rightarrow> if bs = [] then w else drain_loop_sk sk reader n w)"

definition h3_wakeup_drain :: "'w socket_api \<Rightarrow> h3_wakeup option \<Rightarrow> 'w \<Rightarrow> 'w" where
  "h3_wakeup_drain sk wk w =
     (case Option.bind wk wk_reader of
        None \<Rightarrow> w
      | Some reader \<Rightarrow> drain_loop_sk sk reader 64 w)"

section \<open>What stays open\<close>

text \<open>
  Documented behaviour of APR: creating a socket opens one that was not open and failing to opens
  none, closing one closes it, and the other calls open and close nothing. A socket has one
  descriptor, which \<^verbatim>\<open>apr_os_sock_get\<close> gives while it is open.
\<close>

definition sockets_ok :: "'w socket_api \<Rightarrow> ('w \<Rightarrow> sock set) \<Rightarrow> (sock \<Rightarrow> int) \<Rightarrow> bool" where
  "sockets_ok sk opened fd_of \<longleftrightarrow>
     (\<forall>f w. case apr_socket_create sk f w of
        (Inl rv, w') \<Rightarrow> rv \<noteq> APR_SUCCESS \<and> opened w' = opened w
      | (Inr s, w') \<Rightarrow> s \<notin> opened w \<and> opened w' = insert s (opened w)) \<and>
     (\<forall>s w. opened (apr_socket_close sk s w) = opened w - {s}) \<and>
     (\<forall>s opt v w. opened (snd (apr_socket_opt_set sk s opt v w)) = opened w) \<and>
     (\<forall>h f p w. opened (snd (apr_sockaddr_info sk h f p w)) = opened w \<and>
        fst (apr_sockaddr_info sk h f p w) \<noteq> Inl APR_SUCCESS) \<and>
     (\<forall>s a w. opened (snd (apr_socket_bind sk s a w)) = opened w) \<and>
     (\<forall>s t w. opened (snd (apr_socket_timeout_set sk s t w)) = opened w) \<and>
     (\<forall>s w. apr_os_sock_get sk s w \<noteq> Inl APR_SUCCESS \<and>
        (\<forall>fd. apr_os_sock_get sk s w = Inr fd \<longrightarrow> fd = fd_of s))"

lemma sockets_okD:
  assumes "sockets_ok sk opened fd_of"
  shows "apr_socket_create sk f w = (Inl rv, w') \<Longrightarrow> rv \<noteq> APR_SUCCESS \<and> opened w' = opened w"
    and "apr_socket_create sk f w = (Inr s, w') \<Longrightarrow> s \<notin> opened w \<and> opened w' = insert s (opened w)"
    and "opened (apr_socket_close sk s w) = opened w - {s}"
    and "apr_socket_opt_set sk s opt v w = (x, w') \<Longrightarrow> opened w' = opened w"
    and "apr_sockaddr_info sk h f p w = (a, w') \<Longrightarrow> opened w' = opened w \<and> a \<noteq> Inl APR_SUCCESS"
    and "apr_socket_bind sk s ad w = (x, w') \<Longrightarrow> opened w' = opened w"
    and "apr_socket_timeout_set sk s t w = (x, w') \<Longrightarrow> opened w' = opened w"
    and "apr_os_sock_get sk s w \<noteq> Inl APR_SUCCESS"
    and "apr_os_sock_get sk s w = Inr fd \<Longrightarrow> fd = fd_of s"
proof -
  note ok = assms [unfolded sockets_ok_def]
  note rest = ok [THEN conjunct2]
  show "apr_socket_create sk f w = (Inl rv, w') \<Longrightarrow> rv \<noteq> APR_SUCCESS \<and> opened w' = opened w"
    using ok [THEN conjunct1, THEN spec [of _ f], THEN spec [of _ w]] by simp
  show "apr_socket_create sk f w = (Inr s, w') \<Longrightarrow> s \<notin> opened w \<and> opened w' = insert s (opened w)"
    using ok [THEN conjunct1, THEN spec [of _ f], THEN spec [of _ w]] by simp
  show "opened (apr_socket_close sk s w) = opened w - {s}" using rest by simp
  show "apr_socket_opt_set sk s opt v w = (x, w') \<Longrightarrow> opened w' = opened w" using rest by (metis snd_conv)
  show "apr_sockaddr_info sk h f p w = (a, w') \<Longrightarrow> opened w' = opened w \<and> a \<noteq> Inl APR_SUCCESS"
    using rest by (metis fst_conv snd_conv)
  show "apr_socket_bind sk s ad w = (x, w') \<Longrightarrow> opened w' = opened w" using rest by (metis snd_conv)
  show "apr_socket_timeout_set sk s t w = (x, w') \<Longrightarrow> opened w' = opened w" using rest by (metis snd_conv)
  show "apr_os_sock_get sk s w \<noteq> Inl APR_SUCCESS" "apr_os_sock_get sk s w = Inr fd \<Longrightarrow> fd = fd_of s"
    using rest by blast+
qed

lemma tune_one_opened:
  assumes "sockets_ok sk opened fd_of" and "tune_one sk linux s os want opt w = (notes, w')"
  shows "opened w' = opened w"
  using assms(2) sockets_okD(4) [OF assms(1)]
  by (auto simp: tune_one_def Let_def split: prod.splits if_splits option.splits)

lemma tune_buffers_opened:
  assumes "sockets_ok sk opened fd_of" and "tune_buffers sk linux s want w = (notes, w')"
  shows "opened w' = opened w"
  using assms(2) tune_one_opened [OF assms(1)]
  by (fastforce simp: tune_buffers_def Let_def split: if_splits prod.splits)

text \<open>
  C25: Opening the UDP socket leaves exactly one socket open, whose descriptor it returns, or an error
  and nothing open that was not open before; and the error is \<^verbatim>\<open>APR_EAGAIN\<close>, on which the caller
  retries, when binding found the address in use.
\<close>

theorem socket_open_no_leak:
  assumes "sockets_ok sk opened fd_of"
  shows "case h3_socket_open sk linux port bufsz w of
      (Inl rv, w') \<Rightarrow> rv \<noteq> APR_SUCCESS \<and> opened w' = opened w
    | (Inr fd, w') \<Rightarrow> \<exists>s. s \<notin> opened w \<and> opened w' = insert s (opened w) \<and> fd = fd_of s"
proof -
  note ok = sockets_okD [OF assms]
  obtain r w1 where c: "apr_socket_create sk APR_INET6 w = (r, w1)" by force
  show ?thesis
  proof (cases r)
    case (Inl rv)
    then show ?thesis using ok(1) [of APR_INET6 w rv w1] c by (simp add: h3_socket_open_def)
  next
    case (Inr s)
    have new: "s \<notin> opened w" "opened w1 = insert s (opened w)" using ok(2) c Inr by blast+
    obtain x w2 where v: "apr_socket_opt_set sk s APR_IPV6_V6ONLY 0 w1 = (x, w2)" by force
    obtain n w3 where t: "tune_buffers sk linux s bufsz w2 = (n, w3)" by force
    obtain a w4 where i: "apr_sockaddr_info sk None APR_INET6 port w3 = (a, w4)" by force
    have o4: "opened w4 = insert s (opened w)" and a: "a \<noteq> Inl APR_SUCCESS"
      using new(2) ok(4) [OF v] ok(5) [OF i] tune_buffers_opened [OF assms t] by simp_all
    have close: "opened (apr_socket_close sk s w') = opened w" if "opened w' = insert s (opened w)" for w'
      using that new(1) by (simp add: ok(3))
    have eq: "h3_socket_open sk linux port bufsz w =
        (case a of
           Inl rv \<Rightarrow> (Inl rv, apr_socket_close sk s w4)
         | Inr addr \<Rightarrow>
             (case apr_socket_bind sk s addr w4 of
                (rv, w) \<Rightarrow>
                  if rv \<noteq> APR_SUCCESS
                  then (Inl (if h3_socket_os_is_eaddrinuse sk rv then APR_EAGAIN else rv), apr_socket_close sk s w)
                  else (case apr_socket_timeout_set sk s 0 w of
                          (rv, w) \<Rightarrow>
                            if rv \<noteq> APR_SUCCESS then (Inl rv, apr_socket_close sk s w)
                            else (case apr_os_sock_get sk s w of
                                    Inl rv \<Rightarrow> (Inl rv, apr_socket_close sk s w)
                                  | Inr os_sock \<Rightarrow> (Inr os_sock, w)))))"
      by (simp add: h3_socket_open_def c Inr v t i split: sum.split)
    show ?thesis
    proof (cases a)
      case (Inr addr)
      obtain rv5 w5 where b: "apr_socket_bind sk s addr w4 = (rv5, w5)" by force
      obtain rv6 w6 where z: "apr_socket_timeout_set sk s 0 w5 = (rv6, w6)" by force
      have "opened w5 = insert s (opened w)" "opened w6 = insert s (opened w)"
        using o4 ok(6) [OF b] ok(7) [OF z] by simp_all
      then show ?thesis
        using new(1) ok(8) [of s w6] ok(9) [of s w6] by (cases "apr_os_sock_get sk s w6") (auto simp: eq Inr b z close)
    qed (use a o4 close in \<open>auto simp: eq\<close>)
  qed
qed

text \<open>A machine with numbered sockets, for examples: the next number and the open ones.\<close>

definition plain_sockets :: "apr_port_t set \<Rightarrow> (nat \<times> nat set) socket_api" where
  "plain_sockets used =
     \<lparr>apr_socket_create = (\<lambda>f (n, os). (Inr n, Suc n, insert n os)),
      apr_socket_opt_set = (\<lambda>s opt v w. (APR_SUCCESS, w)),
      apr_sockaddr_info = (\<lambda>h f p w. (Inr (h, f, p), w)),
      apr_socket_bind = (\<lambda>s (h, f, p) w. (if p \<in> used then APR_OTHER 98 else APR_SUCCESS, w)),
      apr_socket_addr_get = (\<lambda>s w. Inr (None, APR_INET, 0)),
      apr_socket_connect = (\<lambda>s a w. (APR_SUCCESS, w)), apr_socket_timeout_set = (\<lambda>s t w. (APR_SUCCESS, w)),
      apr_os_sock_get = (\<lambda>s w. Inr (int s)), apr_socket_close = (\<lambda>s (n, os). (n, os - {s})),
      apr_socket_send = (\<lambda>s bs w. w), apr_socket_recv = (\<lambda>s n w. (Inl APR_EAGAIN, w)),
      getsockopt = (\<lambda>fd opt w. Some 1000), os_close = (\<lambda>fd w. w), EADDRINUSE = 98\<rparr>"

definition open_ones :: "nat \<times> nat set \<Rightarrow> sock set" where
  "open_ones w = {s \<in> snd w. s < fst w}"

lemma plain_sockets_ok: "sockets_ok (plain_sockets used) open_ones int"
  by (auto simp: sockets_ok_def plain_sockets_def open_ones_def)

theorem socket_open_no_leak_witness:
  "h3_socket_open (plain_sockets {}) True 443 0 (0, {}) = (Inr 0, 1, {0}) \<and>
   h3_socket_open (plain_sockets {443}) True 443 0 (0, {}) = (Inl APR_EAGAIN, 1, {}) \<and> open_ones (1, {0}) = {0}"
proof -
  have a: "h3_socket_open (plain_sockets {}) True 443 0 (0, {}) = (Inr 0, 1, {0})"
    and b: "h3_socket_open (plain_sockets {443}) True 443 0 (0, {}) = (Inl APR_EAGAIN, 1, {})"
    by (simp_all add: h3_socket_open_def plain_sockets_def tune_buffers_def h3_socket_os_is_eaddrinuse_def)
  from socket_open_no_leak [where sk = "plain_sockets {}" and opened = open_ones and fd_of = int and linux = True and port = 443 and bufsz = 0 and w = "(0, {})"] plain_sockets_ok a b show ?thesis
    by (simp add: open_ones_def)
qed

section \<open>Waking the event thread\<close>

lemma wakeup_created_whole:
  "h3_wakeup_create sk w = ((rv, wk), w') \<Longrightarrow>
   wk = wakeup_none \<or> rv = APR_SUCCESS \<and> wk_reader wk \<noteq> None \<and> wk_writer wk \<noteq> None"
  by (auto simp: h3_wakeup_create_def wakeup_pair_def try_get_def try_call_def
      split: prod.splits sum.splits if_splits)

text \<open>
  Documented behaviour of the two connected datagram sockets: a send queues a datagram or, when the
  buffer is full, drops it; a receive takes one off or fails when there is none.
\<close>

definition wakeup_ok :: "'w socket_api \<Rightarrow> sock \<Rightarrow> sock \<Rightarrow> ('w \<Rightarrow> nat) \<Rightarrow> bool" where
  "wakeup_ok sk reader writer queued \<longleftrightarrow>
     (\<forall>bs w. queued (apr_socket_send sk writer bs w) = Suc (queued w) \<or>
        0 < queued w \<and> queued (apr_socket_send sk writer bs w) = queued w) \<and>
     (\<forall>n w. case apr_socket_recv sk reader n w of
        (Inl rv, w') \<Rightarrow> queued w = 0 \<and> queued w' = 0
      | (Inr bs, w') \<Rightarrow> 0 < queued w \<and> bs \<noteq> [] \<and> queued w' = queued w - 1)"

lemma drain_loop_queued:
  assumes "wakeup_ok sk reader writer queued"
  shows "queued (drain_loop_sk sk reader n w) = queued w - n"
proof (induction n arbitrary: w)
  case (Suc n)
  have "case apr_socket_recv sk reader 64 w of (Inl rv, w') \<Rightarrow> queued w = 0 \<and> queued w' = 0
      | (Inr bs, w') \<Rightarrow> 0 < queued w \<and> bs \<noteq> [] \<and> queued w' = queued w - 1"
    using assms [unfolded wakeup_ok_def, THEN conjunct2, THEN spec [of _ 64], THEN spec [of _ w]] .
  then show ?case using Suc by (auto split: prod.splits sum.splits)
qed simp


definition queue_sockets :: "nat socket_api" where
  "queue_sockets =
     \<lparr>apr_socket_create = (\<lambda>f w. (Inr 0, w)), apr_socket_opt_set = (\<lambda>s opt v w. (APR_SUCCESS, w)),
      apr_sockaddr_info = (\<lambda>h f p w. (Inr (h, f, p), w)), apr_socket_bind = (\<lambda>s a w. (APR_SUCCESS, w)),
      apr_socket_addr_get = (\<lambda>s w. Inr (None, APR_INET, 0)),
      apr_socket_connect = (\<lambda>s a w. (APR_SUCCESS, w)), apr_socket_timeout_set = (\<lambda>s t w. (APR_SUCCESS, w)),
      apr_os_sock_get = (\<lambda>s w. Inr 3), apr_socket_close = (\<lambda>s w. w), apr_socket_send = (\<lambda>s bs w. if w < 100 then Suc w else w),
      apr_socket_recv = (\<lambda>s n w. if w = 0 then (Inl APR_EAGAIN, w) else (Inr [49], w - 1)),
      getsockopt = (\<lambda>fd opt w. None), os_close = (\<lambda>fd w. w), EADDRINUSE = 98\<rparr>"


end
