(* ===== verification/H3_Io.thy ===== *)
theory H3_Io
  imports H3_Pass H3_Socket
begin

text \<open>
  The listener (\<^verbatim>\<open>h3_io.c\<close>) and the event thread (\<^verbatim>\<open>h3_threads.c\<close>): connections in the handshake, the
  sessions they become, the loop that polls, pumps, accepts and services them, and how it ends.

  The flags \<^verbatim>\<open>thread_running\<close> and \<^verbatim>\<open>draining\<close> are set by another thread; they are memory of the world,
  read and written through \<open>ix_running\<close> and its companions. The array of sessions holds each session
  with its tasks in the worker pool. \<open>io_noted\<close> is not a field of the C structure: it counts the
  calls of \<^verbatim>\<open>note_conn_added\<close> less those of \<^verbatim>\<open>note_conn_removed\<close>, the number of connections the MPM
  waits for.
\<close>

section \<open>State\<close>

type_synonym h3_pending_handshake = "cptr \<times> apr_time_t"

type_synonym serviced = "h3_session \<times> task list"

record h3_io =
  io_qengine :: "h3q_engine option"
  io_held :: "resource list"
  io_server :: server_rec
  io_udp_fd :: int
  io_event_thread :: bool
  io_active_sessions :: "serviced list"
  io_active_session_count :: apr_uint32_t
  io_total_connections :: apr_uint32_t
  io_total_streams :: apr_uint32_t
  io_bytes :: "uint64_t \<times> uint64_t"
  io_wakeup :: h3_wakeup
  io_note_conn :: bool
  io_noted :: int
  io_pending_handshakes :: "h3_pending_handshake list"
  io_worker_pool :: bool
  io_conn_id_seq :: apr_uint32_t

text \<open>
  What surrounds the listener. \<open>ix_pass\<close> is what a session's pass finds (by its connection),
  \<open>ix_workers\<close> what the workers of all sessions do between two passes, \<open>ix_poll\<close> the poll, which
  tells whether it succeeded and whether the wake-up socket is readable, and \<open>ix_note_fns\<close> says which
  of the MPM's two functions exist.
\<close>

record ('w, 't) io_env =
  ix_pass :: "cptr option \<Rightarrow> ('w, 't) pass_env"
  ix_workers :: "serviced list \<Rightarrow> 'w \<Rightarrow> (serviced list \<times> 'w) option"
  ix_running :: "'w \<Rightarrow> bool"
  ix_draining :: "'w \<Rightarrow> bool"
  ix_set_running :: "bool \<Rightarrow> 'w \<Rightarrow> 'w"
  ix_set_draining :: "'w \<Rightarrow> 'w"
  ix_now :: "'w \<Rightarrow> apr_time_t \<times> 'w"
  ix_sleep :: "'w \<Rightarrow> 'w"
  ix_handle_events :: "'w \<Rightarrow> 'w ev_prog"
  ix_accept_connection :: "'w \<Rightarrow> cptr option \<times> 'w"
  ix_net_desired :: "'w \<Rightarrow> bool \<times> bool \<times> (int \<times> int) option"
  ix_poll :: "(int \<times> bool \<times> bool) list \<Rightarrow> int \<Rightarrow> 'w \<Rightarrow> (bool \<times> bool) \<times> 'w"
  ix_sk :: "'w socket_api"
  ix_addr :: addr_api
  ix_thread_pool_create :: "'w \<Rightarrow> bool \<times> 'w"
  ix_thread_create :: "'w \<Rightarrow> bool \<times> 'w"
  ix_engine_calls :: "'w \<Rightarrow> engine_calls"
  ix_keylogfile :: bool
  ix_note_fns :: "bool \<times> bool"

definition conn_ssl :: "('w, 't) io_env \<Rightarrow> cptr \<Rightarrow> 'w ssl_api" where
  "conn_ssl ie conn = env_ssl (px_env (ix_pass ie (Some conn)))"

definition note_added :: "h3_io \<Rightarrow> h3_io" where
  "note_added io = (if io_note_conn io then io\<lparr>io_noted := io_noted io + 1\<rparr> else io)"

definition note_removed :: "h3_io \<Rightarrow> h3_io" where
  "note_removed io = (if io_note_conn io then io\<lparr>io_noted := io_noted io - 1\<rparr> else io)"

section \<open>Connections in the handshake\<close>

definition h3_io_at_connection_limit :: "h3_io \<Rightarrow> bool" where
  "h3_io_at_connection_limit io \<longleftrightarrow>
     of_nat (length (io_active_sessions io)) + of_nat (length (io_pending_handshakes io)) \<ge>
       h3_max_connections (module_config (io_server io))"

text \<open>An index outside the array is undefined.\<close>

definition remove_pending_handshake ::
  "('w, 't) io_env \<Rightarrow> nat \<Rightarrow> bool \<Rightarrow> h3_io \<Rightarrow> 'w \<Rightarrow> (h3_io \<times> 'w) option" where
  "remove_pending_handshake ie index free_conn io w =
     (if length (io_pending_handshakes io) \<le> index then None
      else
        let conn = fst (io_pending_handshakes io ! index);
            w = (if free_conn then h3q_conn_free (conn_ssl ie conn) (Some conn) w else w);
            io = note_removed io
        in Some (io\<lparr>io_pending_handshakes := swap_remove (io_pending_handshakes io) index\<rparr>, w))"

definition with_session :: "h3_io \<Rightarrow> h3_session \<Rightarrow> 'w \<Rightarrow> 'w h3_st" where
  "with_session io se w = \<lparr>sx_world = w, sx_session = se, sx_counters = Some (io_bytes io)\<rparr>"

definition set_bytes :: "'w h3_st \<Rightarrow> h3_io \<Rightarrow> h3_io" where
  "set_bytes sx io = (case sx_counters sx of Some b \<Rightarrow> io\<lparr>io_bytes := b\<rparr> | None \<Rightarrow> io)"

definition add_session :: "h3_session \<Rightarrow> h3_io \<Rightarrow> h3_io" where
  "add_session se io =
     note_added (io\<lparr>io_active_sessions := io_active_sessions io @ [(se, [])],
       io_active_session_count := io_active_session_count io + 1\<rparr>)"

definition spawn_serviced_session ::
  "('w, 't) io_env \<Rightarrow> cptr \<Rightarrow> h3_io \<Rightarrow> 'w \<Rightarrow> (apr_status_t \<times> h3_io \<times> 'w) option" where
  "spawn_serviced_session ie conn io w =
     (let pe = ix_pass ie (Some conn);
          env = px_env pe;
          drop = (\<lambda>w. Some (APR_EGENERAL, io, h3q_conn_free (env_ssl env) (Some conn) w));
          destroy = (\<lambda>io sx. map_option (\<lambda>sx. (APR_EGENERAL, set_bytes sx io, sx_world sx)) (h3_session_destroy env sx));
          (alloc_ok, w) = apr_allocator_create env w;
          (pool_ok, w) = (if alloc_ok then apr_pool_create_ex env w else (False, w))
      in if \<not> pool_ok then drop w
         else case h3_session_create env (io_server io) (Some conn) w of
                (Inl rv, w) \<Rightarrow> drop w
              | (Inr se, w) \<Rightarrow> do {
                  (rv, sx) \<leftarrow> h3_session_create_control_streams env (with_session io se w);
                  (if rv \<noteq> APR_SUCCESS \<or> h3q_conn_is_closed (env_ssl env) (Some conn) (sx_world sx) then destroy io sx
                   else
                     case h3_synth_conn env (ix_addr ie) (Some (io_qengine io)) (px_logio pe) (io_conn_id_seq io) sx of
                       (c, seq, sx) \<Rightarrow>
                         let io = io\<lparr>io_conn_id_seq := seq\<rparr>
                         in if c = None then destroy io sx
                            else Some (APR_SUCCESS, add_session (sx_session sx) (set_bytes sx io), sx_world sx))
                })"

text \<open>
  The loop over the array: \<open>n\<close> entries are left from index \<open>i\<close> on. Each is timed out, found closed,
  turned into a session or left where it is; all but the last remove the entry.
\<close>

fun progress_loop ::
  "('w, 't) io_env \<Rightarrow> apr_time_t \<Rightarrow> apr_time_t \<Rightarrow> nat \<Rightarrow> nat \<Rightarrow> h3_io \<Rightarrow> 'w \<Rightarrow> (h3_io \<times> 'w) option" where
  "progress_loop ie now timeout 0 i io w = Some (io, w)"
| "progress_loop ie now timeout (Suc n) i io w =
     (case io_pending_handshakes io ! i of
        (conn, accepted_at) \<Rightarrow>
          if now - accepted_at \<ge> timeout \<or> h3q_conn_is_closed (conn_ssl ie conn) (Some conn) w
          then do {
            (io, w) \<leftarrow> remove_pending_handshake ie i True io w;
            progress_loop ie now timeout n i io w
          }
          else if h3q_conn_is_handshake_done (conn_ssl ie conn) (Some conn) w
          then do {
            (_, io, w) \<leftarrow> spawn_serviced_session ie conn io w;
            (io, w) \<leftarrow> remove_pending_handshake ie i False io w;
            progress_loop ie now timeout n i io w
          }
          else progress_loop ie now timeout n (Suc i) io w)"

definition progress_pending_handshakes :: "('w, 't) io_env \<Rightarrow> h3_io \<Rightarrow> 'w \<Rightarrow> (h3_io \<times> 'w) option" where
  "progress_pending_handshakes ie io w =
     (case ix_now ie w of
        (now, w) \<Rightarrow>
          progress_loop ie now (apr_time_from_sec (unat (h3_handshake_timeout (module_config (io_server io)))))
            (length (io_pending_handshakes io)) 0 io w)"

definition prepare_accepted_connection :: "('w, 't) io_env \<Rightarrow> cptr \<Rightarrow> h3_io \<Rightarrow> 'w \<Rightarrow> bool \<times> h3_io \<times> 'w" where
  "prepare_accepted_connection ie conn io w =
     (case h3q_conn_prepare (conn_ssl ie conn) (Some conn) (h3_idle_timeout (module_config (io_server io))) w of
        (False, w) \<Rightarrow> (False, io, w)
      | (True, w) \<Rightarrow>
          (case ix_now ie w of
             (now, w) \<Rightarrow>
               (True, note_added (io\<lparr>io_pending_handshakes := io_pending_handshakes io @ [(conn, now)],
                  io_total_connections := io_total_connections io + 1\<rparr>), w)))"

section \<open>Waiting\<close>

definition wait_for_event :: "('w, 't) io_env \<Rightarrow> h3_io \<Rightarrow> 'w \<Rightarrow> 'w" where
  "wait_for_event ie io w =
     (let (rd, wr, timer) = ix_net_desired ie w;
          ((want_read, want_write), timeout_ms) = h3q_engine_want (io_qengine io) rd wr timer 1000;
          udp = (io_udp_fd io, want_read \<or> \<not> want_write, want_write);
          wake = (wk_reader (io_wakeup io) \<noteq> None \<and> wk_reader_fd (io_wakeup io) \<noteq> - 1);
          fds = udp # (if wake then [(wk_reader_fd (io_wakeup io), True, False)] else [])
      in case ix_poll ie fds timeout_ms w of
           ((ok, woken), w) \<Rightarrow>
             if ok \<and> wake \<and> woken then h3_wakeup_drain (ix_sk ie) (Some (io_wakeup io)) w else w)"

section \<open>The event thread\<close>

definition take_conn :: "('w, 't) io_env \<Rightarrow> cptr \<Rightarrow> h3_io \<Rightarrow> 'w \<Rightarrow> h3_io \<times> 'w" where
  "take_conn ie conn io w =
     (if h3_io_at_connection_limit io then (io, h3q_conn_free (conn_ssl ie conn) (Some conn) w)
      else case prepare_accepted_connection ie conn io w of
             (prepared, io, w) \<Rightarrow> (io, if prepared then w else h3q_conn_free (conn_ssl ie conn) (Some conn) w))"

partial_function (option) accept_conns :: "('w, 't) io_env \<Rightarrow> h3_io \<Rightarrow> 'w \<Rightarrow> (h3_io \<times> 'w) option" where
  "accept_conns ie io w =
     (case h3q_engine_accept_conn (ix_accept_connection ie) (io_qengine io) w of
        (conn, w) \<Rightarrow>
          if conn = None then Some (io, w)
          else case take_conn ie (the conn) io w of (io, w) \<Rightarrow> accept_conns ie io w)"

definition intake :: "('w, 't) io_env \<Rightarrow> h3_io \<Rightarrow> 'w \<Rightarrow> (h3_io \<times> 'w) option" where
  "intake ie io w =
     (if ix_running ie w \<and> \<not> ix_draining ie w
      then do { (io, w) \<leftarrow> accept_conns ie io w; progress_pending_handshakes ie io w }
      else Some (io, w))"

text \<open>One session: the pass, and its end once it is aborted, shut down and without tasks.\<close>

definition put_live :: "nat \<Rightarrow> 'w live \<Rightarrow> apr_uint32_t \<Rightarrow> h3_io \<Rightarrow> h3_io" where
  "put_live i lv streams io =
     (set_bytes (lv_st lv) io)\<lparr>io_active_sessions := (io_active_sessions io)[i := (lv_session lv, lv_tasks lv)],
        io_total_streams := io_total_streams io + streams\<rparr>"

definition drop_session :: "nat \<Rightarrow> h3_io \<Rightarrow> h3_io" where
  "drop_session i io =
     (let io = note_removed io
      in io\<lparr>io_active_sessions := swap_remove (io_active_sessions io) i,
            io_active_session_count := io_active_session_count io - 1\<rparr>)"

definition service_one ::
  "('w, 't) io_env \<Rightarrow> nat \<Rightarrow> h3_io \<Rightarrow> 'w \<Rightarrow> ((bool \<times> bool) \<times> h3_io \<times> 'w) option" where
  "service_one ie i io w =
     (case io_active_sessions io ! i of
        (se, tasks) \<Rightarrow>
          let pe = ix_pass ie (se_qconn se); env = px_env pe
          in do {
            ((again, streams), lv) \<leftarrow> service_session_pass pe \<lparr>lv_st = with_session io se w, lv_tasks = tasks\<rparr>;
            let se = lv_session lv;
            let io = put_live i lv streams io;
            (if \<not> se_aborted se then Some ((again, False), io, lv_world lv)
             else
               case h3q_conn_shutdown (env_ssl env) (se_qconn se) (\<not> ix_running ie (lv_world lv))
                      (se_abort_quic_error_code se) (if se_ngh3_dead se then se_abort_reason se else None) (lv_world lv) of
                 (shutdown_done, w) \<Rightarrow>
                   if shutdown_done \<and> se_active_tasks se = 0
                   then do {
                     sx \<leftarrow> h3_session_destroy env (with_session io se w);
                     Some ((again, True), drop_session i (set_bytes sx io), sx_world sx)
                   }
                   else Some ((again, False), io, w))
          })"

text \<open>After each session the workers of all of them may run.\<close>

definition run_workers :: "('w, 't) io_env \<Rightarrow> h3_io \<Rightarrow> 'w \<Rightarrow> (h3_io \<times> 'w) option" where
  "run_workers ie io w =
     map_option (\<lambda>(ss, w). (io\<lparr>io_active_sessions := ss\<rparr>, w)) (ix_workers ie (io_active_sessions io) w)"

fun sessions_loop ::
  "('w, 't) io_env \<Rightarrow> nat \<Rightarrow> nat \<Rightarrow> bool \<Rightarrow> h3_io \<Rightarrow> 'w \<Rightarrow> (bool \<times> h3_io \<times> 'w) option" where
  "sessions_loop ie 0 i work io w = Some (work, io, w)"
| "sessions_loop ie (Suc n) i work io w = do {
     ((again, gone), io, w) \<leftarrow> service_one ie i io w;
     (io, w) \<leftarrow> run_workers ie io w;
     sessions_loop ie n (if gone then i else Suc i) (work \<or> again) io w
   }"

text \<open>One round of the loop; the flag says whether the next round may skip the poll.\<close>

definition event_round :: "('w, 't) io_env \<Rightarrow> bool \<Rightarrow> h3_io \<Rightarrow> 'w \<Rightarrow> (bool \<times> h3_io \<times> 'w) option" where
  "event_round ie work_pending io w = do {
     (io, w) \<leftarrow> run_workers ie io (if work_pending then w else wait_for_event ie io w);
     ((pumped, w), engine) \<leftarrow> h3q_engine_pump (ix_handle_events ie) w (io_qengine io);
     (io, w) \<leftarrow> intake ie (io\<lparr>io_qengine := engine\<rparr>) (if pumped < 0 then ix_sleep ie w else w);
     sessions_loop ie (length (io_active_sessions io)) 0 (pumped > 0) io w
   }"

fun shut_pending :: "('w, 't) io_env \<Rightarrow> nat \<Rightarrow> h3_io \<Rightarrow> 'w \<Rightarrow> (h3_io \<times> 'w) option" where
  "shut_pending ie 0 io w = Some (io, w)"
| "shut_pending ie (Suc n) io w =
     (let conn = fst (io_pending_handshakes io ! 0);
          (_, w) = h3q_conn_shutdown (conn_ssl ie conn) (Some conn) True 0 None w
      in do {
        (io, w) \<leftarrow> remove_pending_handshake ie 0 True io w;
        shut_pending ie n io w
      })"

partial_function (option) event_loop :: "('w, 't) io_env \<Rightarrow> bool \<Rightarrow> h3_io \<Rightarrow> 'w \<Rightarrow> (h3_io \<times> 'w) option" where
  "event_loop ie work_pending io w =
     (if \<not> (ix_running ie w \<or> io_active_sessions io \<noteq> []) then Some (io, w)
      else case event_round ie work_pending io w of
             None \<Rightarrow> None
           | Some (work, io, w) \<Rightarrow> event_loop ie work io w)"

definition h3_event_thread :: "('w, 't) io_env \<Rightarrow> h3_io option \<Rightarrow> 'w \<Rightarrow> (h3_io option \<times> 'w) option" where
  "h3_event_thread ie io w =
     (case io of
        None \<Rightarrow> Some (None, w)
      | Some io \<Rightarrow> do {
          (io, w) \<leftarrow> event_loop ie False io w;
          (io, w) \<leftarrow> shut_pending ie (length (io_pending_handshakes io)) io w;
          Some (Some io, w)
        })"

section \<open>Starting and stopping\<close>

text \<open>
  The child's listener and whether \<^verbatim>\<open>child_h3_io\<close> points to it. Joining the event thread is running it
  from the head of its loop to its end. The loop of \<^verbatim>\<open>teardown\<close> that sleeps until the sessions are
  gone comes after the join, when nothing shortens the array any more: it ends at once or never.
\<close>

record child =
  ch_io :: "h3_io option"
  ch_child_h3_io :: bool

definition join_event_thread :: "('w, 't) io_env \<Rightarrow> h3_io \<Rightarrow> 'w \<Rightarrow> (h3_io \<times> 'w) option" where
  "join_event_thread ie io w =
     (if \<not> io_event_thread io then Some (io, w)
      else do {
        let w = h3_wakeup_signal (ix_sk ie) (Some (io_wakeup io)) (ix_set_running ie False w);
        (io, w) \<leftarrow> h3_event_thread ie (Some io) w;
        Some ((the io)\<lparr>io_event_thread := False\<rparr>, w)
      })"

definition teardown :: "('w, 't) io_env \<Rightarrow> h3_io \<Rightarrow> 'w \<Rightarrow> (h3_io \<times> 'w) option" where
  "teardown ie io w = do {
     (io, w) \<leftarrow> join_event_thread ie io w;
     let io = io\<lparr>io_worker_pool := False\<rparr>;
     (if io_active_sessions io \<noteq> [] then None
      else
        let io = (if io_qengine io = None then io
                  else io\<lparr>io_qengine := None, io_held := h3q_engine_destroy True (io_held io)\<rparr>)
        in if io_udp_fd io \<ge> 0
           then Some (io\<lparr>io_udp_fd := - 1\<rparr>, h3_socket_close (ix_sk ie) (io_udp_fd io) w)
           else Some (io, w))
   }"

definition h3_io_listen_stop :: "('w, 't) io_env \<Rightarrow> child \<Rightarrow> 'w \<Rightarrow> (child \<times> 'w) option" where
  "h3_io_listen_stop ie ch w =
     (case ch_io ch of
        None \<Rightarrow> Some (ch, w)
      | Some io \<Rightarrow> map_option (\<lambda>(io, w). (\<lparr>ch_io = Some io, ch_child_h3_io = False\<rparr>, w)) (teardown ie io w))"

definition listen_stop_cleanup :: "('w, 't) io_env \<Rightarrow> child \<Rightarrow> 'w \<Rightarrow> (child \<times> 'w) option" where
  "listen_stop_cleanup ie ch w =
     (if ch_io ch \<noteq> None \<and> ix_draining ie w then h3_io_listen_stop ie ch w else Some (ch, w))"

definition h3_io_listen_drain :: "('w, 't) io_env \<Rightarrow> h3_io option \<Rightarrow> 'w \<Rightarrow> 'w" where
  "h3_io_listen_drain ie io w =
     (case io of
        None \<Rightarrow> w
      | Some io \<Rightarrow>
          if ix_draining ie w then w
          else h3_wakeup_signal (ix_sk ie) (Some (io_wakeup io)) (ix_set_draining ie w))"

definition new_io :: "server_rec \<Rightarrow> int \<Rightarrow> h3_wakeup \<Rightarrow> h3_io" where
  "new_io s udp_fd wk =
     \<lparr>io_qengine = None, io_held = [], io_server = s, io_udp_fd = udp_fd, io_event_thread = False,
      io_active_sessions = [], io_active_session_count = 0, io_total_connections = 0, io_total_streams = 0,
      io_bytes = (0, 0), io_wakeup = wk, io_note_conn = False, io_noted = 0, io_pending_handshakes = [],
      io_worker_pool = True, io_conn_id_seq = 0\<rparr>"

definition qcfg_of :: "h3_server_conf \<Rightarrow> h3q_config option" where
  "qcfg_of conf = do {
     cert \<leftarrow> h3_cert_path conf;
     key \<leftarrow> h3_key_path conf;
     Some \<lparr>cfg_cert_path = cert, cfg_key_path = key,
       cfg_address_validation = (h3_address_validation conf \<noteq> H3_FLAG_OFF),
       cfg_session_tickets = (h3_session_tickets conf \<noteq> H3_FLAG_OFF)\<rparr>
   }"

text \<open>
  The result is \<^const>\<open>None\<close> when certificate or key are missing, which the callers exclude. The
  second component is the child afterwards; a listener that could not be started is gone with it.
\<close>

definition h3_io_listen_start ::
  "('w, 't) io_env \<Rightarrow> server_rec \<Rightarrow> h3_server_conf \<Rightarrow> int \<Rightarrow> child \<Rightarrow> 'w \<Rightarrow> ((apr_status_t \<times> child) \<times> 'w) option" where
  "h3_io_listen_start ie s conf udp_fd ch w =
     (case h3_wakeup_create (ix_sk ie) w of
        ((rv, wk), w) \<Rightarrow>
          if rv \<noteq> APR_SUCCESS then Some ((APR_EGENERAL, ch), w)
          else (case ix_thread_pool_create ie w of
                  (False, w) \<Rightarrow> Some ((APR_EGENERAL, ch), w)
                | (True, w) \<Rightarrow> do {
                    qcfg \<leftarrow> qcfg_of conf;
                    (case h3q_engine_create (ix_engine_calls ie w) (ix_keylogfile ie) qcfg of
                       (None, rs) \<Rightarrow>
                         map_option (\<lambda>(_, w). ((APR_EGENERAL, ch), w))
                           (teardown ie ((new_io s udp_fd wk)\<lparr>io_held := rs\<rparr>) w)
                     | (Some (engine, _), rs) \<Rightarrow>
                         let io = (new_io s udp_fd wk)\<lparr>io_qengine := Some engine, io_held := rs,
                                    io_note_conn := (fst (ix_note_fns ie) \<and> snd (ix_note_fns ie))\<rparr>;
                             (thread_ok, w) = ix_thread_create ie (ix_set_running ie True w)
                         in if thread_ok
                            then Some ((APR_SUCCESS, \<lparr>ch_io = Some (io\<lparr>io_event_thread := True\<rparr>), ch_child_h3_io = True\<rparr>), w)
                            else map_option (\<lambda>(_, w). ((APR_EGENERAL, \<lparr>ch_io = None, ch_child_h3_io = False\<rparr>), w))
                                   (teardown ie io (ix_set_running ie False w)))
                  }))"

section \<open>A new session satisfies the invariant\<close>

definition core_inv :: "h3_session \<Rightarrow> bool" where
  "core_inv se \<longleftrightarrow> hash_inv se \<and> tasks_ok [] se"

lemma core_inv_fields [simp]:
  "core_inv (se\<lparr>se_ngh3 := b\<rparr>) = core_inv se"
  "core_inv (se\<lparr>se_control_streams_created := b\<rparr>) = core_inv se"
  "session_inv [] (se\<lparr>se_c := Some c\<rparr>) = core_inv se"
  by (simp_all add: core_inv_def session_inv_def hash_inv_def hash_ok_def blocked_count_def tasks_ok_def held_def)

lemma created_core: "h3_session_create env s qconn w = (Inr se, w') \<Longrightarrow> core_inv se"
  by (auto simp: h3_session_create_def new_session_def core_inv_def hash_inv_def hash_ok_def blocked_count_def
      tasks_ok_def Let_def split: prod.splits if_splits)

lemma track_stream_core:
  "core_inv (sx_session sx) \<Longrightarrow> track_stream env sid q sx = Some (res, sx') \<Longrightarrow> core_inv (sx_session sx')"
  using track_core [of sx "[]" env sid q res sx'] by (simp add: core_inv_def)

lemma track_all_core:
  "core_inv (sx_session sx) \<Longrightarrow> track_all env cs sx = Some sx' \<Longrightarrow> core_inv (sx_session sx')"
proof (induction env cs sx rule: track_all.induct)
  case (3 env q sid cs sx)
  from 3(3) obtain res sx1 where t: "track_stream env sid q sx = Some (res, sx1)" and r: "track_all env cs sx1 = Some sx'"
    by (auto split: bind_splits)
  show ?case by (rule 3(1) [OF t refl track_stream_core [OF 3(2) t] r])
qed auto

lemma control_streams_core:
  assumes "core_inv (sx_session sx)" and "h3_session_create_control_streams env sx = Some (rv, sx')"
  shows "core_inv (sx_session sx')"
proof (cases "se_control_streams_created (sx_session sx)")
  case False
  then obtain cs w where o: "open_streams (env_ssl env) (se_qconn (sx_session sx)) 3 (sx_world sx) = Some (cs, w)"
    using assms(2) by (auto simp: h3_session_create_control_streams_def split: bind_splits)
  obtain bound w2 where b: "bind_streams (env_ng env) cs w = (bound, w2)" by force
  show ?thesis
  proof (cases bound)
    case True
    then show ?thesis
      using False assms o b track_all_core [of "sx\<lparr>sx_world := w2\<rparr>"]
      by (auto simp: h3_session_create_control_streams_def split: bind_splits)
  qed (use False assms o b in \<open>auto simp: h3_session_create_control_streams_def Let_def\<close>)
qed (use assms in \<open>simp add: h3_session_create_control_streams_def\<close>)

lemma synth_inv:
  "h3_synth_conn env aa child_io logio seq sx = (Some c, seq', sx') \<Longrightarrow> core_inv (sx_session sx) \<Longrightarrow>
   session_inv [] (sx_session sx')"
  by (auto simp: h3_synth_conn_def Let_def split: prod.splits bool.splits)

section \<open>What the listener keeps\<close>

text \<open>
  \<open>io_ok s k\<close>: the fixed fields are \<open>s\<close>, connections in the handshake and sessions together exceed H3MaxConnections by at most
  \<open>k\<close>, the session counter is exact, the MPM has been told of each of them once, every session has
  its invariant, and the engine's objects are held exactly while there is an engine.
\<close>

definition engine_objects :: "resource list" where
  "engine_objects = [RFilter, RBio, RListener, RAddr, RMethod, RCtx, REngine]"

definition io_load :: "h3_io \<Rightarrow> nat" where
  "io_load io = length (io_active_sessions io) + length (io_pending_handshakes io)"

text \<open>What is fixed once the thread runs.\<close>

type_synonym io_fixed = "server_rec \<times> int \<times> bool \<times> bool \<times> bool \<times> h3_wakeup"

definition io_static :: "h3_io \<Rightarrow> io_fixed" where
  "io_static io = (io_server io, io_udp_fd io, io_event_thread io, io_worker_pool io, io_note_conn io, io_wakeup io)"

definition max_conns :: "server_rec \<Rightarrow> nat" where
  "max_conns s = unat (h3_max_connections (module_config s))"

definition io_ok :: "io_fixed \<Rightarrow> nat \<Rightarrow> h3_io \<Rightarrow> bool" where
  "io_ok s k io \<longleftrightarrow>
     io_static io = s \<and> io_load io \<le> max_conns (fst s) + k \<and>
     io_active_session_count io = of_nat (length (io_active_sessions io)) \<and>
     (io_note_conn io \<longrightarrow> io_noted io = int (io_load io)) \<and>
     (\<forall>s\<in>set (io_active_sessions io). session_inv (snd s) (fst s)) \<and>
     io_held io = (if io_qengine io = None then [] else engine_objects)"

lemma io_load_fields [simp]:
  "io_load (io\<lparr>io_conn_id_seq := n\<rparr>) = io_load io" "io_load (io\<lparr>io_bytes := b\<rparr>) = io_load io"
  "io_load (io\<lparr>io_qengine := q\<rparr>) = io_load io" "io_load (io\<lparr>io_total_connections := m\<rparr>) = io_load io"
  "io_load (io\<lparr>io_total_streams := m\<rparr>) = io_load io" "io_load (io\<lparr>io_noted := i\<rparr>) = io_load io"
  "io_load (io\<lparr>io_active_session_count := m\<rparr>) = io_load io"
  by (simp_all add: io_load_def)

lemma io_ok_fields [simp]:
  "io_ok s k (io\<lparr>io_conn_id_seq := n\<rparr>) = io_ok s k io" "io_ok s k (io\<lparr>io_bytes := b\<rparr>) = io_ok s k io"
  "io_ok s k (io\<lparr>io_total_connections := m\<rparr>) = io_ok s k io" "io_ok s k (io\<lparr>io_total_streams := m\<rparr>) = io_ok s k io"
  by (simp_all add: io_ok_def io_static_def)

lemma set_bytes_fields [simp]:
  "io_active_sessions (set_bytes sx io) = io_active_sessions io" "io_server (set_bytes sx io) = io_server io"
  "io_pending_handshakes (set_bytes sx io) = io_pending_handshakes io" "io_qengine (set_bytes sx io) = io_qengine io"
  "io_ok s k (set_bytes sx io) = io_ok s k io"
  by (simp_all add: set_bytes_def split: option.split)

lemma io_ok_mono: "io_ok s k io \<Longrightarrow> k \<le> k' \<Longrightarrow> io_ok s k' io"
  by (simp add: io_ok_def io_static_def)

lemma add_session_ok: "io_ok s k io \<Longrightarrow> session_inv [] se \<Longrightarrow> io_ok s (Suc k) (add_session se io)"
  by (auto simp: add_session_def note_added_def io_ok_def io_static_def io_load_def )

lemma add_session_fields [simp]:
  "io_pending_handshakes (add_session se io) = io_pending_handshakes io" "io_server (add_session se io) = io_server io"
  "io_active_sessions (add_session se io) = io_active_sessions io @ [(se, [])]"
  by (simp_all add: add_session_def note_added_def)

lemma drop_pending_ok:
  assumes "io_ok s k io" and "i < length (io_pending_handshakes io)"
  shows "io_ok s (k - 1) (note_removed io\<lparr>io_pending_handshakes := swap_remove (io_pending_handshakes io) i\<rparr>)"
  using assms by (auto simp: io_ok_def io_static_def note_removed_def io_load_def )

lemma add_pending_ok:
  assumes "io_ok s 0 io" and "io_load io < max_conns (fst s)"
  shows "io_ok s 0 (note_added (io\<lparr>io_pending_handshakes := io_pending_handshakes io @ [p], io_total_connections := n\<rparr>))"
  using assms by (auto simp: io_ok_def io_static_def note_added_def io_load_def )

lemma drop_session_ok:
  assumes "io_ok s k io" and "i < length (io_active_sessions io)"
  shows "io_ok s k (drop_session i io)"
proof -
  have "mset (swap_remove (io_active_sessions io) i) \<subseteq># mset (io_active_sessions io)"
    using assms(2) by (simp add: mset_swap_remove)
  then have sub: "set (swap_remove (io_active_sessions io) i) \<subseteq> set (io_active_sessions io)"
    by (metis set_mset_mono set_mset_mset)
  have "(of_nat (length (io_active_sessions io)) - 1 :: apr_uint32_t) = of_nat (length (io_active_sessions io) - 1)"
    using assms(2) by (metis One_nat_def Suc_le_eq le_simps(3) less_zeroE neq0_conv of_nat_1 of_nat_diff)
  then show ?thesis
    using assms sub by (auto simp: io_ok_def io_static_def drop_session_def note_removed_def io_load_def  Let_def)
qed

lemma spawn_ok:
  assumes ok: "io_ok s k io" and "spawn_serviced_session ie conn io w = Some (rv, io', w')"
  shows "io_ok s (Suc k) io' \<and> io_pending_handshakes io' = io_pending_handshakes io"
proof -
  let ?env = "px_env (ix_pass ie (Some conn))"
  let ?goal = "\<lambda>io'. io_ok s (Suc k) io' \<and> io_pending_handshakes io' = io_pending_handshakes io"
  obtain a w1 where a: "apr_allocator_create ?env w = (a, w1)" by force
  obtain p w2 where p: "(if a then apr_pool_create_ex ?env w1 else (False, w1)) = (p, w2)" by force
  obtain r w3 where c: "h3_session_create ?env (io_server io) (Some conn) w2 = (r, w3)" by force
  note def = assms(2) [unfolded spawn_serviced_session_def Let_def a p prod.case c]
  have keep: "?goal io" using io_ok_mono [OF ok, of "Suc k"] by simp
  show ?thesis
  proof (cases "p \<and> (\<exists>se. r = Inr se)")
    case True
    then obtain se where r: "r = Inr se" by blast
    obtain rv1 sx where cc: "h3_session_create_control_streams ?env (with_session io se w3) = Some (rv1, sx)"
      using def True r by (auto split: bind_splits)
    have core: "core_inv (sx_session sx)"
      by (rule control_streams_core [OF _ cc]) (use created_core [of ?env] c r in \<open>auto simp: with_session_def\<close>)
    obtain c' seq sx2 where sy: "h3_synth_conn ?env (ix_addr ie) (Some (io_qengine io))
        (px_logio (ix_pass ie (Some conn))) (io_conn_id_seq io) sx = (c', seq, sx2)"
      by (metis prod_cases3)
    show ?thesis
    proof (cases "rv1 \<noteq> APR_SUCCESS \<or> h3q_conn_is_closed (env_ssl ?env) (Some conn) (sx_world sx) \<or> c' = None")
      case True
      then show ?thesis using def \<open>p \<and> _\<close> r cc sy keep by (auto split: if_splits)
    next
      case False
      then have "io' = add_session (sx_session sx2) (set_bytes sx2 (io\<lparr>io_conn_id_seq := seq\<rparr>))"
        using def \<open>p \<and> _\<close> r cc sy by auto
      moreover have "session_inv [] (sx_session sx2)" using synth_inv [OF _ core] sy False by blast
      ultimately show ?thesis using add_session_ok [of s k "set_bytes sx2 (io\<lparr>io_conn_id_seq := seq\<rparr>)"] ok by simp
    qed
  qed (use def keep in \<open>auto split: sum.splits if_splits\<close>)
qed

lemma remove_pending_ok:
  "io_ok s k io \<Longrightarrow> remove_pending_handshake ie i f io w = Some (io', w') \<Longrightarrow>
   io_ok s (k - 1) io' \<and> length (io_pending_handshakes io') = length (io_pending_handshakes io) - 1"
  using drop_pending_ok [of s k io i] by (auto simp: remove_pending_handshake_def Let_def note_removed_def split: if_splits)

lemma progress_loop_ok:
  "io_ok s 0 io \<Longrightarrow> progress_loop ie now timeout n i io w = Some (io', w') \<Longrightarrow> io_ok s 0 io'"
proof (induction n arbitrary: i io w)
  case (Suc n)
  obtain conn t where c: "io_pending_handshakes io ! i = (conn, t)" by force
  let ?gone = "now - t \<ge> timeout \<or> h3q_conn_is_closed (conn_ssl ie conn) (Some conn) w"
  let ?ready = "h3q_conn_is_handshake_done (conn_ssl ie conn) (Some conn) w"
  show ?case
  proof (cases ?gone)
    case True
    then obtain io1 w1 where r: "remove_pending_handshake ie i True io w = Some (io1, w1)"
      and l: "progress_loop ie now timeout n i io1 w1 = Some (io', w')"
      using Suc.prems(2) c by (auto split: bind_splits)
    show ?thesis using Suc.IH [OF _ l] remove_pending_ok [OF Suc.prems(1) r] by simp
  next
    case gone: False
    show ?thesis
    proof (cases ?ready)
      case True
      then obtain rv io1 w1 io2 w2 where sp: "spawn_serviced_session ie conn io w = Some (rv, io1, w1)"
        and r: "remove_pending_handshake ie i False io1 w1 = Some (io2, w2)"
        and l: "progress_loop ie now timeout n i io2 w2 = Some (io', w')"
        using Suc.prems(2) c gone by (auto split: bind_splits)
      have "io_ok s (Suc 0) io1" using spawn_ok [OF Suc.prems(1) sp] by simp
      then have "io_ok s 0 io2" using remove_pending_ok [OF _ r, of s "Suc 0"] by simp
      then show ?thesis by (rule Suc.IH [OF _ l])
    next
      case False
      have "progress_loop ie now timeout n (Suc i) io w = Some (io', w')" using Suc.prems(2) c gone False by simp
      then show ?thesis by (rule Suc.IH [OF Suc.prems(1)])
    qed
  qed
qed simp

lemma progress_ok:
  "io_ok s 0 io \<Longrightarrow> progress_pending_handshakes ie io w = Some (io', w') \<Longrightarrow> io_ok s 0 io'"
  by (auto simp: progress_pending_handshakes_def split: prod.splits dest: progress_loop_ok)

text \<open>The limit is compared in 32-bit arithmetic, which does not wrap here.\<close>

lemma at_limit:
  assumes "io_ok s 0 io"
  shows "h3_io_at_connection_limit io \<longleftrightarrow> io_load io = max_conns (fst s)"
proof -
  have le: "io_load io \<le> max_conns (fst s)" and s: "io_server io = fst s" using assms by (auto simp: io_ok_def io_static_def)
  have "max_conns (fst s) < 2 ^ 32" using unsigned_less [of "h3_max_connections (module_config (fst s))"] by (simp add: max_conns_def)
  then have "unat (of_nat (io_load io) :: apr_uint32_t) = io_load io"
    using le by (intro unat_of_nat_id) simp
  then show ?thesis
    using le by (auto simp: h3_io_at_connection_limit_def io_load_def word_le_nat_alt max_conns_def s)
qed

lemma take_conn_ok:
  assumes ok: "io_ok s 0 io" and "take_conn ie conn io w = (io', w')"
  shows "io_ok s 0 io'"
proof -
  have "io_load io < max_conns (fst s)" if "\<not> h3_io_at_connection_limit io"
    using that at_limit [OF ok] ok by (simp add: io_ok_def io_static_def)
  then show ?thesis
    using assms
    by (auto simp: take_conn_def prepare_accepted_connection_def split: if_splits prod.splits bool.splits
        intro!: add_pending_ok)
qed

lemma accept_conns_ok:
  assumes "accept_conns ie io w = Some (io', w')" and "io_ok s 0 io"
  shows "io_ok s 0 io'"
proof -
  have "io_ok s 0 io \<longrightarrow> io_ok s 0 (fst (io', w'))"
  proof (rule accept_conns.raw_induct [where P = "\<lambda>ie io w x. io_ok s 0 io \<longrightarrow> io_ok s 0 (fst x)", OF _ assms(1)], intro impI)
    fix loop :: "('a, 'b) io_env \<Rightarrow> h3_io \<Rightarrow> 'a \<Rightarrow> (h3_io \<times> 'a) option" and ie io w x
    assume IH: "\<And>ie io w x. loop ie io w = Some x \<Longrightarrow> io_ok s 0 io \<longrightarrow> io_ok s 0 (fst x)" and ok: "io_ok s 0 io"
      and body: "(case h3q_engine_accept_conn (ix_accept_connection ie) (io_qengine io) w of
        (conn, w) \<Rightarrow>
          if conn = None then Some (io, w)
          else case take_conn ie (the conn) io w of (io, w) \<Rightarrow> loop ie io w) = Some x"
    obtain conn w1 where a: "h3q_engine_accept_conn (ix_accept_connection ie) (io_qengine io) w = (conn, w1)" by force
    obtain io1 w2 where t: "take_conn ie (the conn) io w1 = (io1, w2)" by force
    show "io_ok s 0 (fst x)"
    proof (cases conn)
      case (Some c)
      then have "loop ie io1 w2 = Some x" using body a t by simp
      then show ?thesis using IH take_conn_ok [OF ok t] by blast
    qed (use body a ok in auto)
  qed
  then show ?thesis using assms(2) by simp
qed

text \<open>
  The workers of all sessions in turn, between two passes. What the listener relies on: the
  environment lets them move this way, and each session's pass finds its own workers.
\<close>

inductive sessions_move :: "('w, 't) io_env \<Rightarrow> serviced list \<times> 'w \<Rightarrow> serviced list \<times> 'w \<Rightarrow> bool" for ie where
  "i < length ss \<Longrightarrow> ss ! i = (se, ts) \<Longrightarrow>
   worker_moves (px_env (ix_pass ie (se_qconn se))) \<lparr>lv_st = \<lparr>sx_world = w, sx_session = se, sx_counters = c\<rparr>, lv_tasks = ts\<rparr> lv \<Longrightarrow>
   sessions_move ie (ss, w) (ss[i := (lv_session lv, lv_tasks lv)], lv_world lv)"

definition io_env_ok :: "('w, 't) io_env \<Rightarrow> bool" where
  "io_env_ok ie \<longleftrightarrow>
     (\<forall>c. workers_ok (ix_pass ie c) \<and> hash_order_ok (px_env (ix_pass ie c))) \<and>
     (\<forall>ss w x. ix_workers ie ss w = Some x \<longrightarrow> (sessions_move ie)\<^sup>*\<^sup>* (ss, w) x)"

lemma sessions_move_inv:
  "sessions_move ie x y \<Longrightarrow> \<forall>s\<in>set (fst x). session_inv (snd s) (fst s) \<Longrightarrow>
   length (fst y) = length (fst x) \<and> (\<forall>s\<in>set (fst y). session_inv (snd s) (fst s))"
proof (induction rule: sessions_move.induct)
  case (1 i ss se ts w c lv)
  have "session_inv ts se" using 1 nth_mem [of i ss] by fastforce
  then have "live_inv lv" using worker_moves_keep [OF 1(3)] by (simp add: live_inv_session lv_session_def)
  then have "session_inv (lv_tasks lv) (lv_session lv)" by (simp add: live_inv_session)
  then show ?case using 1(4) set_update_subset_insert [of ss i] by fastforce
qed

lemma sessions_moves_inv:
  "(sessions_move ie)\<^sup>*\<^sup>* x y \<Longrightarrow> \<forall>s\<in>set (fst x). session_inv (snd s) (fst s) \<Longrightarrow>
   length (fst y) = length (fst x) \<and> (\<forall>s\<in>set (fst y). session_inv (snd s) (fst s))"
  by (induction rule: rtranclp_induct) (use sessions_move_inv in metis)+

lemma run_workers_ok:
  assumes "io_env_ok ie" and "io_ok s k io" and "run_workers ie io w = Some (io', w')"
  shows "io_ok s k io' \<and> length (io_active_sessions io') = length (io_active_sessions io)"
proof -
  obtain ss where r: "ix_workers ie (io_active_sessions io) w = Some (ss, w')" and io': "io' = io\<lparr>io_active_sessions := ss\<rparr>"
    using assms(3) by (auto simp: run_workers_def)
  have "(sessions_move ie)\<^sup>*\<^sup>* (io_active_sessions io, w) (ss, w')" using assms(1) r by (simp add: io_env_ok_def)
  from sessions_moves_inv [OF this] show ?thesis
    using assms(2) by (simp add: io_ok_def io_static_def io' io_load_def)
qed

lemma put_live_ok:
  assumes "io_ok s k io" and "i < length (io_active_sessions io)" and "live_inv lv"
  shows "io_ok s k (put_live i lv n io) \<and> length (io_active_sessions (put_live i lv n io)) = length (io_active_sessions io)"
proof -
  have "\<forall>s\<in>set ((io_active_sessions io)[i := (lv_session lv, lv_tasks lv)]). session_inv (snd s) (fst s)"
    using assms set_update_subset_insert [of "io_active_sessions io" i "(lv_session lv, lv_tasks lv)"]
    by (auto simp: io_ok_def io_static_def live_inv_session)
  then show ?thesis
    using assms(1) by (auto simp: put_live_def set_bytes_def io_ok_def io_static_def io_load_def split: option.split)
qed

lemma length_drop_session [simp]:
  "length (io_active_sessions (drop_session i io)) = length (io_active_sessions io) - 1"
  by (simp add: drop_session_def note_removed_def Let_def)

lemma service_one_ok:
  assumes env: "io_env_ok ie" and ok: "io_ok s k io" and i: "i < length (io_active_sessions io)"
    and "service_one ie i io w = Some ((again, gone), io', w')"
  shows "io_ok s k io' \<and> length (io_active_sessions io') = length (io_active_sessions io) - (if gone then 1 else 0)"
proof -
  obtain se ts where s: "io_active_sessions io ! i = (se, ts)" by force
  let ?pe = "ix_pass ie (se_qconn se)"
  obtain n lv where p: "service_session_pass ?pe \<lparr>lv_st = with_session io se w, lv_tasks = ts\<rparr> = Some ((again, n), lv)"
    using assms(4) by (auto simp: service_one_def s Let_def split: bind_splits if_splits prod.splits)
  have "session_inv ts se" using ok nth_mem [OF i] s by (fastforce simp: io_ok_def io_static_def)
  then have "live_inv \<lparr>lv_st = with_session io se w, lv_tasks = ts\<rparr>"
    by (simp add: live_inv_session lv_session_def with_session_def)
  then have inv: "live_inv lv" using service_pass_inv [OF _ _ _ p] env by (simp add: io_env_ok_def)
  let ?io = "put_live i lv n io"
  have 1: "io_ok s k ?io" "length (io_active_sessions ?io) = length (io_active_sessions io)"
    using put_live_ok [OF ok i inv] by simp_all
  have "io_ok s k (drop_session i (set_bytes sx ?io))" for sx
    by (rule drop_session_ok) (use 1 i in simp_all)
  then show ?thesis
    using assms(4) 1 i p
    by (auto simp: service_one_def s Let_def split: bind_splits if_splits prod.splits)
qed

lemma sessions_loop_ok:
  assumes env: "io_env_ok ie"
  shows "io_ok s k io \<Longrightarrow> i + n \<le> length (io_active_sessions io) \<Longrightarrow>
    sessions_loop ie n i b io w = Some (work, io', w') \<Longrightarrow> io_ok s k io'"
proof (induction n arbitrary: i b io w)
  case (Suc n)
  obtain again gone io1 w1 io2 w2 where one: "service_one ie i io w = Some ((again, gone), io1, w1)"
    and r: "run_workers ie io1 w1 = Some (io2, w2)"
    and l: "sessions_loop ie n (if gone then i else Suc i) (b \<or> again) io2 w2 = Some (work, io', w')"
    using Suc.prems(3) by (auto split: bind_splits)
  have 1: "io_ok s k io1" "length (io_active_sessions io1) = length (io_active_sessions io) - (if gone then 1 else 0)"
    using service_one_ok [OF env Suc.prems(1) _ one] Suc.prems(2) by simp_all
  show ?case
    by (rule Suc.IH [OF _ _ l]) (use run_workers_ok [OF env 1(1) r] 1(2) Suc.prems(2) in auto)
qed simp

lemma intake_ok: "io_ok s 0 io \<Longrightarrow> intake ie io w = Some (io', w') \<Longrightarrow> io_ok s 0 io'"
  by (auto simp: intake_def split: if_splits bind_splits dest: accept_conns_ok progress_ok)

lemma event_round_parts:
  assumes "event_round ie b io w = Some (work, io', w')"
  obtains io1 w1 pumped w2 engine io2 w3 where
    "run_workers ie io (if b then w else wait_for_event ie io w) = Some (io1, w1)"
    "h3q_engine_pump (ix_handle_events ie) w1 (io_qengine io1) = Some ((pumped, w2), engine)"
    "engine = None \<longleftrightarrow> io_qengine io1 = None"
    "intake ie (io1\<lparr>io_qengine := engine\<rparr>) (if pumped < 0 then ix_sleep ie w2 else w2) = Some (io2, w3)"
    "sessions_loop ie (length (io_active_sessions io2)) 0 (pumped > 0) io2 w3 = Some (work, io', w')"
proof -
  obtain io1 w1 pumped w2 engine io2 w3 where
    r: "run_workers ie io (if b then w else wait_for_event ie io w) = Some (io1, w1)"
    and p: "h3q_engine_pump (ix_handle_events ie) w1 (io_qengine io1) = Some ((pumped, w2), engine)"
    and a: "intake ie (io1\<lparr>io_qengine := engine\<rparr>) (if pumped < 0 then ix_sleep ie w2 else w2) = Some (io2, w3)"
    and l: "sessions_loop ie (length (io_active_sessions io2)) 0 (pumped > 0) io2 w3 = Some (work, io', w')"
    using assms unfolding event_round_def by (auto split: bind_splits)
  have "engine = None \<longleftrightarrow> io_qengine io1 = None"
    using p by (cases "io_qengine io1"; cases engine) (auto simp: h3q_engine_pump_def split: if_splits prod.splits)
  then show thesis by (rule that [OF r p _ a l])
qed

lemma event_round_ok:
  assumes env: "io_env_ok ie" and ok: "io_ok s 0 io" and "event_round ie b io w = Some (work, io', w')"
  shows "io_ok s 0 io'"
  using assms(3)
proof (rule event_round_parts)
  fix io1 w1 pumped w2 engine io2 w3
  assume r: "run_workers ie io (if b then w else wait_for_event ie io w) = Some (io1, w1)"
    and e: "engine = None \<longleftrightarrow> io_qengine io1 = None"
    and a: "intake ie (io1\<lparr>io_qengine := engine\<rparr>) (if pumped < 0 then ix_sleep ie w2 else w2) = Some (io2, w3)"
    and l: "sessions_loop ie (length (io_active_sessions io2)) 0 (pumped > 0) io2 w3 = Some (work, io', w')"
  have "io_ok s 0 (io1\<lparr>io_qengine := engine\<rparr>)"
    using run_workers_ok [OF env ok r] e by (simp add: io_ok_def io_static_def)
  then show ?thesis using sessions_loop_ok [OF env intake_ok [OF _ a] _ l] by simp
qed

lemma event_loop_ok:
  assumes "event_loop ie b io w = Some (io', w')" and "io_env_ok ie" and "io_ok s 0 io"
  shows "io_ok s 0 io' \<and> io_active_sessions io' = [] \<and> \<not> ix_running ie w'"
proof -
  let ?P = "\<lambda>ie b io w x. io_env_ok ie \<longrightarrow> io_ok s 0 io \<longrightarrow>
    io_ok s 0 (fst x) \<and> io_active_sessions (fst x) = [] \<and> \<not> ix_running ie (snd x)"
  have "?P ie b io w (io', w')"
  proof (rule event_loop.raw_induct [where P = ?P, OF _ assms(1)], intro impI)
    fix loop :: "('a, 'b) io_env \<Rightarrow> bool \<Rightarrow> h3_io \<Rightarrow> 'a \<Rightarrow> (h3_io \<times> 'a) option" and ie b io w x
    assume IH: "\<And>ie b io w x. loop ie b io w = Some x \<Longrightarrow> ?P ie b io w x"
      and env: "io_env_ok ie" and ok: "io_ok s 0 io"
      and body: "(if \<not> (ix_running ie w \<or> io_active_sessions io \<noteq> []) then Some (io, w)
        else case event_round ie b io w of None \<Rightarrow> None | Some (work, io, w) \<Rightarrow> loop ie work io w) = Some x"
    show "io_ok s 0 (fst x) \<and> io_active_sessions (fst x) = [] \<and> \<not> ix_running ie (snd x)"
    proof (cases "ix_running ie w \<or> io_active_sessions io \<noteq> []")
      case True
      then obtain work io1 w1 where r: "event_round ie b io w = Some (work, io1, w1)" and l: "loop ie work io1 w1 = Some x"
        using body by (auto split: option.splits)
      show ?thesis using IH [OF l] env event_round_ok [OF env ok r] by blast
    qed (use body ok in auto)
  qed
  then show ?thesis using assms by simp
qed

lemma shut_pending_ok:
  "io_ok s 0 io \<Longrightarrow> length (io_pending_handshakes io) = n \<Longrightarrow> shut_pending ie n io w = Some (io', w') \<Longrightarrow>
   io_ok s 0 io' \<and> io_pending_handshakes io' = [] \<and> io_active_sessions io' = io_active_sessions io"
proof (induction n arbitrary: io w)
  case (Suc n)
  then obtain w1 io1 w2 where r: "remove_pending_handshake ie 0 True io w1 = Some (io1, w2)"
    and l: "shut_pending ie n io1 w2 = Some (io', w')"
    by (auto simp: Let_def split: prod.splits bind_splits)
  have "io_active_sessions io1 = io_active_sessions io"
    using r by (auto simp: remove_pending_handshake_def Let_def note_removed_def split: if_splits)
  then show ?case using Suc.IH [OF _ _ l] remove_pending_ok [OF Suc.prems(1) r] Suc.prems(2) by simp
qed simp

section \<open>The life of a listener\<close>

lemma engine_create_objects:
  "h3q_engine_create calls keylogfile cfg = (e, rs) \<Longrightarrow> rs = (if e = None then [] else engine_objects)"
  "h3q_engine_destroy True engine_objects = []"
  by (auto simp: h3q_engine_create_def h3q_tls_ctx_create_def create_bios_def h3q_engine_destroy_def free_listener_def
      engine_objects_def Let_def split: if_splits)

text \<open>A round of the event thread, whatever happened to the world since the last one.\<close>

definition io_round :: "('w, 't) io_env \<Rightarrow> h3_io \<Rightarrow> h3_io \<Rightarrow> bool" where
  "io_round ie io io' \<longleftrightarrow> (\<exists>b w work w'. event_round ie b io w = Some (work, io', w'))"

definition started :: "('w, 't) io_env \<Rightarrow> server_rec \<Rightarrow> h3_io \<Rightarrow> bool" where
  "started ie s io \<longleftrightarrow>
     (\<exists>conf udp_fd ch w b w'. h3_io_listen_start ie s conf udp_fd ch w = Some ((APR_SUCCESS, \<lparr>ch_io = Some io, ch_child_h3_io = b\<rparr>), w'))"

lemma started_ok:
  assumes "started ie s io"
  shows "\<exists>st. fst st = s \<and> fst (snd (snd st)) \<and> io_ok st 0 io"
proof -
  obtain conf udp_fd ch w b w' where "h3_io_listen_start ie s conf udp_fd ch w = Some ((APR_SUCCESS, \<lparr>ch_io = Some io, ch_child_h3_io = b\<rparr>), w')"
    using assms by (auto simp: started_def)
  then obtain wk cfg w2 engine x rs where
    "h3q_engine_create (ix_engine_calls ie w2) (ix_keylogfile ie) cfg = (Some (engine, x), rs)"
    and io: "io = (new_io s udp_fd wk)\<lparr>io_qengine := Some engine, io_held := rs,
      io_note_conn := fst (ix_note_fns ie) \<and> snd (ix_note_fns ie), io_event_thread := True\<rparr>"
    by (auto simp: h3_io_listen_start_def Let_def split: prod.splits if_splits bool.splits bind_splits option.splits)
  then have "io_ok (io_static io) 0 io" using engine_create_objects(1) by (fastforce simp: io_ok_def io_load_def new_io_def)
  moreover have "fst (io_static io) = s" "fst (snd (snd (io_static io)))" by (simp_all add: io io_static_def new_io_def)
  ultimately show ?thesis by blast
qed

lemma rounds_ok:
  assumes "io_env_ok ie"
  shows "(io_round ie)\<^sup>*\<^sup>* io io' \<Longrightarrow> io_ok s 0 io \<Longrightarrow> io_ok s 0 io'"
  by (induction rule: rtranclp_induct) (auto simp: io_round_def dest: event_round_ok [OF assms])

text \<open>
  C3: From the start of the listener on, over any rounds of the event thread, whatever OpenSSL,
  nghttp3, httpd and the workers do: the connections in the handshake and the sessions are together
  at most H3MaxConnections, the counter of sessions is their number, the MPM has been told of each
  of them once, and in every session the task count is the number of its workers and a worker's
  stream is one no drain reclaims.
\<close>

theorem listener_accounting:
  assumes "io_env_ok ie" and "started ie s io" and "(io_round ie)\<^sup>*\<^sup>* io io'"
  shows "length (io_active_sessions io') + length (io_pending_handshakes io') \<le> unat (h3_max_connections (module_config s)) \<and>
    unat (io_active_session_count io') = length (io_active_sessions io') \<and>
    (io_note_conn io' \<longrightarrow> io_noted io' = int (length (io_active_sessions io') + length (io_pending_handshakes io'))) \<and>
    (\<forall>(se, ts)\<in>set (io_active_sessions io').
       se_active_tasks se = of_nat (length (filter (\<lambda>t. snd t \<noteq> WRet ()) ts)) \<and>
       (\<forall>(r, p)\<in>set ts. holding p \<longrightarrow> r \<in> snd ` set (se_streams se) \<and> \<not> reclaimable (se_store se r)))"
proof -
  obtain st where st: "fst st = s" and ok0: "io_ok st 0 io" using started_ok [OF assms(2)] by blast
  have ok: "io_ok st 0 io'" by (rule rounds_ok [OF assms(1,3) ok0])
  have le: "io_load io' \<le> max_conns s" and n: "io_active_session_count io' = of_nat (length (io_active_sessions io'))"
    and noted: "io_note_conn io' \<longrightarrow> io_noted io' = int (io_load io')"
    and inv: "\<forall>s\<in>set (io_active_sessions io'). session_inv (snd s) (fst s)"
    using ok st by (simp_all add: io_ok_def)
  have "length (io_active_sessions io') \<le> max_conns s" using le by (simp add: io_load_def)
  moreover have "max_conns s < 2 ^ 32" using unsigned_less [of "h3_max_connections (module_config s)"] by (simp add: max_conns_def)
  ultimately have c: "unat (io_active_session_count io') = length (io_active_sessions io')"
    unfolding n by (intro unat_of_nat_id) simp
  have sess: "se_active_tasks se = of_nat (length (filter (\<lambda>t. snd t \<noteq> WRet ()) ts)) \<and>
      (\<forall>(r, p)\<in>set ts. holding p \<longrightarrow> r \<in> snd ` set (se_streams se) \<and> \<not> reclaimable (se_store se r))"
    if "(se, ts) \<in> set (io_active_sessions io')" for se ts
  proof -
    have "tasks_ok ts se" using inv that by (fastforce simp: session_inv_def)
    then show ?thesis unfolding tasks_ok_def held_def reclaimable_def by fastforce
  qed
  have all: "\<forall>(se, ts)\<in>set (io_active_sessions io').
       se_active_tasks se = of_nat (length (filter (\<lambda>t. snd t \<noteq> WRet ()) ts)) \<and>
       (\<forall>(r, p)\<in>set ts. holding p \<longrightarrow> r \<in> snd ` set (se_streams se) \<and> \<not> reclaimable (se_store se r))"
    unfolding split_paired_Ball_Sigma by (intro ballI, clarify, intro conjI) (use sess in fastforce)+
  show ?thesis using le noted c by (intro conjI all) (simp_all add: io_load_def max_conns_def)
qed

lemma teardown_result:
  assumes env: "io_env_ok ie" and ok: "io_ok st 0 io" and thread: "io_event_thread io" and t: "teardown ie io w = Some (io', w')"
  shows "io_ok (io_static io') 0 io' \<and> io_active_sessions io' = [] \<and> io_pending_handshakes io' = [] \<and> io_qengine io' = None \<and>
    io_udp_fd io' < 0 \<and> \<not> io_event_thread io' \<and> \<not> io_worker_pool io'"
proof -
  obtain w1 io1 w2 io2 w3 where l: "event_loop ie False io w1 = Some (io1, w2)"
    and p: "shut_pending ie (length (io_pending_handshakes io1)) io1 w2 = Some (io2, w3)"
    and j: "join_event_thread ie io w = Some (io2\<lparr>io_event_thread := False\<rparr>, w3)"
    using t thread by (auto simp: teardown_def join_event_thread_def h3_event_thread_def split: bind_splits)
  have 1: "io_ok st 0 io1" "io_active_sessions io1 = []" using event_loop_ok [OF l env ok] by simp_all
  have 2: "io_ok st 0 io2" "io_pending_handshakes io2 = []" "io_active_sessions io2 = []"
    using shut_pending_ok [OF 1(1) refl p] 1(2) by simp_all
  define io3 where "io3 = io2\<lparr>io_event_thread := False, io_worker_pool := False\<rparr>"
  define io4 where "io4 = (if io_qengine io3 = None then io3
    else io3\<lparr>io_qengine := None, io_held := h3q_engine_destroy True (io_held io3)\<rparr>)"
  have 4: "io_ok (io_static io4) 0 io4 \<and> io_qengine io4 = None"
    using 2 engine_create_objects(2) by (auto simp: io4_def io3_def io_ok_def io_static_def io_load_def)
  have f: "io_active_sessions io4 = []" "io_pending_handshakes io4 = []" "\<not> io_event_thread io4" "\<not> io_worker_pool io4"
    using 2 by (simp_all add: io4_def io3_def)
  have "io' = io4 \<and> io_udp_fd io4 < 0 \<or> io' = io4\<lparr>io_udp_fd := - 1\<rparr>"
    using t 2(3) unfolding teardown_def j by (auto simp: io4_def io3_def Let_def split: if_splits)
  then show ?thesis
    using 4 f by (auto simp: io_ok_def io_static_def io_load_def)
qed

lemma teardown_again:
  assumes "io_active_sessions io = []" and "io_qengine io = None" and "io_udp_fd io < 0" and "\<not> io_event_thread io"
    and "\<not> io_worker_pool io"
  shows "teardown ie io w = Some (io, w)"
  using assms by (simp add: teardown_def join_event_thread_def)

text \<open>
  C6: When stopping the listener returns, no connection is left: no session, none in the handshake,
  none the MPM still waits for; the event thread and the workers are gone, the engine with all its
  objects and the socket are released, and \<^verbatim>\<open>child_h3_io\<close> no longer points to the listener. Stopping
  it a second time changes nothing.
\<close>

theorem listen_stop_releases:
  assumes "io_env_ok ie" and "started ie s io" and "(io_round ie)\<^sup>*\<^sup>* io io'"
    and "h3_io_listen_stop ie \<lparr>ch_io = Some io', ch_child_h3_io = b\<rparr> w = Some (ch, w')"
  shows "\<exists>io''. ch = \<lparr>ch_io = Some io'', ch_child_h3_io = False\<rparr> \<and> io_active_sessions io'' = [] \<and> io_pending_handshakes io'' = [] \<and>
    io_active_session_count io'' = 0 \<and> (io_note_conn io'' \<longrightarrow> io_noted io'' = 0) \<and> io_qengine io'' = None \<and> io_held io'' = [] \<and>
    io_udp_fd io'' < 0 \<and> \<not> io_event_thread io'' \<and> \<not> io_worker_pool io'' \<and>
    (\<forall>w. h3_io_listen_stop ie ch w = Some (ch, w))"
proof -
  obtain st where st: "fst (snd (snd st))" and ok0: "io_ok st 0 io" using started_ok [OF assms(2)] by blast
  have ok: "io_ok st 0 io'" by (rule rounds_ok [OF assms(1,3) ok0])
  have thread: "io_event_thread io'" using ok st by (auto simp: io_ok_def io_static_def)
  obtain io'' where t: "teardown ie io' w = Some (io'', w')" and ch: "ch = \<lparr>ch_io = Some io'', ch_child_h3_io = False\<rparr>"
    using assms(4) by (auto simp: h3_io_listen_stop_def)
  note r = teardown_result [OF assms(1) ok thread t]
  have "\<forall>w. h3_io_listen_stop ie ch w = Some (ch, w)"
    using r teardown_again [of io'' ie] by (simp add: h3_io_listen_stop_def ch)
  then show ?thesis using r ch by (auto simp: io_ok_def io_load_def)
qed

section \<open>Draining leaves handshakes alone\<close>

lemma service_one_pending:
  "service_one ie i io w = Some (x, io', w') \<Longrightarrow> io_pending_handshakes io' = io_pending_handshakes io"
  by (auto simp: service_one_def Let_def put_live_def drop_session_def note_removed_def split: prod.splits bind_splits if_splits)

lemma sessions_loop_pending:
  "sessions_loop ie n i b io w = Some (work, io', w') \<Longrightarrow> io_pending_handshakes io' = io_pending_handshakes io"
proof (induction n arbitrary: i b io w)
  case (Suc n)
  then show ?case
    by (auto simp: run_workers_def split: bind_splits if_splits dest!: service_one_pending)
qed simp

text \<open>
  C29: While the listener drains, a round of the event thread neither advances, nor times out, nor
  closes any connection in the handshake: the MPM, which has been told of them, keeps waiting for
  them whatever \<^verbatim>\<open>H3HandshakeTimeout\<close> says, until the listener is stopped.
\<close>

theorem draining_keeps_handshakes:
  assumes "\<forall>w. ix_draining ie w" and "event_round ie b io w = Some (work, io', w')"
  shows "io_pending_handshakes io' = io_pending_handshakes io"
  using assms(2)
proof (rule event_round_parts)
  fix io1 w1 pumped w2 engine io2 w3
  assume r: "run_workers ie io (if b then w else wait_for_event ie io w) = Some (io1, w1)"
    and a: "intake ie (io1\<lparr>io_qengine := engine\<rparr>) (if pumped < 0 then ix_sleep ie w2 else w2) = Some (io2, w3)"
    and l: "sessions_loop ie (length (io_active_sessions io2)) 0 (pumped > 0) io2 w3 = Some (work, io', w')"
  have "io_pending_handshakes io1 = io_pending_handshakes io" using r by (auto simp: run_workers_def)
  moreover have "io_pending_handshakes io2 = io_pending_handshakes io1" using a assms(1) by (auto simp: intake_def)
  ultimately show ?thesis using sessions_loop_pending [OF l] by simp
qed

section \<open>An example listener\<close>

text \<open>
  A machine on which every call succeeds, one client connects and its handshake does not finish.
  The world is 0 until the connection is accepted, 1 after, and 100 or more once the thread is
  told to stop.
\<close>

definition good_calls :: engine_calls where
  "good_calls = \<lparr>calloc_ok = True, SSL_CTX_new_ok = True, SSL_CTX_use_certificate_chain_file_rv = 1,
     SSL_CTX_use_PrivateKey_file_rv = 1, BIO_meth_new_ok = True, BIO_meth_set_ctrl_ok = True,
     BIO_meth_set_sendmmsg_ok = True, BIO_meth_set_recvmmsg_ok = True, BIO_meth_set_destroy_ok = True,
     BIO_ADDR_new_ok = True, SSL_get_ex_new_index_rv = 0, SSL_new_listener_ok = True, BIO_new_dgram_ok = True,
     BIO_new_ok = True, SSL_listen_ok = True, listener_nonblocking_ok = True\<rparr>"

definition slow_pe :: "(nat, (string \<times> string) list) pass_env" where
  "slow_pe = demo_pe\<lparr>px_env := quiet_env\<lparr>env_ssl := quiet_ssl\<lparr>SSL_is_init_finished := (\<lambda>c w. False)\<rparr>\<rparr>\<rparr>"

definition demo_ie :: "(nat, (string \<times> string) list) io_env" where
  "demo_ie =
     \<lparr>ix_pass = (\<lambda>c. slow_pe), ix_workers = (\<lambda>ss w. Some (ss, w)), ix_running = (\<lambda>w. w < 100), ix_draining = (\<lambda>w. False),
      ix_set_running = (\<lambda>b w. if b then w else w + 100), ix_set_draining = (\<lambda>w. w), ix_now = (\<lambda>w. (0, w)), ix_sleep = (\<lambda>w. w),
      ix_handle_events = (\<lambda>w. EvDone w 1), ix_accept_connection = (\<lambda>w. if w = 0 then (Some 7, 1) else (None, w)),
      ix_net_desired = (\<lambda>w. (True, False, None)), ix_poll = (\<lambda>fds t w. ((True, False), w)),
      ix_sk = queue_sockets\<lparr>apr_socket_send := (\<lambda>s bs w. w)\<rparr>,
      ix_addr = \<lparr>getnameinfo = (\<lambda>a. None), apr_sockaddr_info_get = (\<lambda>h p. None), apr_sockaddr_ip_get = (\<lambda>a. None)\<rparr>,
      ix_thread_pool_create = (\<lambda>w. (True, w)), ix_thread_create = (\<lambda>w. (True, w)), ix_engine_calls = (\<lambda>w. good_calls),
      ix_keylogfile = False, ix_note_fns = (True, True)\<rparr>"

definition demo_conf :: h3_server_conf where
  "demo_conf = small_conf\<lparr>h3_cert_path := Some ''cert'', h3_key_path := Some ''key'', h3_max_connections := 1,
     h3_handshake_timeout := 10\<rparr>"

definition demo_server :: server_rec where
  "demo_server = small_server\<lparr>module_config := demo_conf\<rparr>"

definition demo_io :: h3_io where
  "demo_io = (new_io demo_server 3 \<lparr>wk_reader = Some 0, wk_writer = Some 0, wk_reader_fd = 3\<rparr>)\<lparr>
     io_qengine := Some (new_engine 0), io_held := engine_objects, io_note_conn := True, io_event_thread := True\<rparr>"

definition demo_io1 :: h3_io where
  "demo_io1 = demo_io\<lparr>io_pending_handshakes := [(7, 0)], io_total_connections := 1, io_noted := 1\<rparr>"

lemma demo_ie_ok: "io_env_ok demo_ie"
  by (auto simp: io_env_ok_def demo_ie_def slow_pe_def workers_ok_def demo_pe_def hash_order_ok_def quiet_env_def)

lemma demo_start:
  "h3_io_listen_start demo_ie demo_server demo_conf 3 \<lparr>ch_io = None, ch_child_h3_io = False\<rparr> 0 =
     Some ((APR_SUCCESS, \<lparr>ch_io = Some demo_io, ch_child_h3_io = True\<rparr>), 0)"
  by (simp add: h3_io_listen_start_def h3_wakeup_create_def wakeup_pair_def try_get_def try_call_def queue_sockets_def demo_ie_def
      qcfg_of_def demo_conf_def small_conf_def h3_create_server_config_def h3q_engine_create_def h3q_tls_ctx_create_def
      create_bios_def good_calls_def demo_io_def new_io_def engine_objects_def)

lemmas demo_simps = demo_io_def demo_io1_def demo_ie_def slow_pe_def demo_pe_def new_io_def new_engine_def
  demo_server_def demo_conf_def conn_ssl_def quiet_env_def quiet_ssl_def

lemma demo_accept: "accept_conns demo_ie demo_io 0 = Some (demo_io1, 1)"
proof -
  have "take_conn demo_ie 7 demo_io (Suc 0) = (demo_io1, Suc 0)"
    by (simp add: take_conn_def h3_io_at_connection_limit_def prepare_accepted_connection_def h3q_conn_prepare_def note_added_def
        demo_simps)
  moreover have "accept_conns demo_ie demo_io1 (Suc 0) = Some (demo_io1, Suc 0)"
    by (subst accept_conns.simps) (simp add: h3q_engine_accept_conn_def demo_simps)
  ultimately show ?thesis
    by (subst accept_conns.simps) (simp add: h3q_engine_accept_conn_def demo_simps)
qed

lemma demo_progress: "progress_pending_handshakes demo_ie demo_io1 w = Some (demo_io1, w)"
  by (simp add: progress_pending_handshakes_def h3q_conn_is_closed_def h3q_conn_is_handshake_done_def demo_simps
      small_conf_def h3_create_server_config_def apr_time_from_sec_def)

lemma demo_round: "event_round demo_ie True demo_io 0 = Some (False, demo_io1, 1)"
proof -
  have "run_workers demo_ie demo_io 0 = Some (demo_io, 0)" by (simp add: run_workers_def demo_ie_def)
  moreover have "h3q_engine_pump (ix_handle_events demo_ie) 0 (io_qengine demo_io) = Some ((0, 0), io_qengine demo_io)"
    by (simp add: h3q_engine_pump_def pump_loop.simps demo_simps)
  moreover have "intake demo_ie demo_io 0 = Some (demo_io1, 1)"
    by (simp add: intake_def demo_accept demo_progress) (simp add: demo_ie_def)
  moreover have "io_active_sessions demo_io1 = []" by (simp add: demo_simps)
  ultimately show ?thesis by (simp add: event_round_def)
qed

lemma demo_started: "started demo_ie demo_server demo_io"
  using demo_start unfolding started_def by blast

lemma demo_rounds: "(io_round demo_ie)\<^sup>*\<^sup>* demo_io demo_io1"
  using demo_round unfolding io_round_def by blast

theorem listener_accounting_witness:
  "started demo_ie demo_server demo_io \<and> (io_round demo_ie)\<^sup>*\<^sup>* demo_io demo_io1 \<and> io_noted demo_io1 = 1 \<and>
   length (io_active_sessions demo_io1) + length (io_pending_handshakes demo_io1) \<le> unat (h3_max_connections (module_config demo_server)) \<and>
   unat (h3_max_connections (module_config demo_server)) = 1 \<and> length (io_pending_handshakes demo_io1) = 1"
  using listener_accounting [OF demo_ie_ok demo_started demo_rounds] demo_started demo_rounds
  by (simp add: demo_simps)

lemma demo_stop:
  "\<exists>ch w. h3_io_listen_stop demo_ie \<lparr>ch_io = Some demo_io1, ch_child_h3_io = True\<rparr> 1 = Some (ch, w)"
  by (simp add: h3_io_listen_stop_def teardown_def join_event_thread_def h3_event_thread_def event_loop.simps h3_wakeup_signal_def
      remove_pending_handshake_def h3q_conn_shutdown_def note_removed_def h3q_conn_free_def Let_def demo_simps)

theorem listen_stop_releases_witness:
  "\<exists>ch w io. h3_io_listen_stop demo_ie \<lparr>ch_io = Some demo_io1, ch_child_h3_io = True\<rparr> 1 = Some (ch, w) \<and> ch_io ch = Some io \<and>
     io_pending_handshakes demo_io1 = [(7, 0)] \<and> io_pending_handshakes io = [] \<and> io_held demo_io1 \<noteq> [] \<and> io_held io = [] \<and>
     io_udp_fd demo_io1 = 3 \<and> io_udp_fd io < 0"
proof -
  obtain ch w where s: "h3_io_listen_stop demo_ie \<lparr>ch_io = Some demo_io1, ch_child_h3_io = True\<rparr> 1 = Some (ch, w)"
    using demo_stop by blast
  have "io_pending_handshakes demo_io1 = [(7, 0)] \<and> io_held demo_io1 \<noteq> [] \<and> io_udp_fd demo_io1 = 3"
    by (simp add: demo_io1_def demo_io_def new_io_def engine_objects_def)
  then show ?thesis using s listen_stop_releases [OF demo_ie_ok demo_started demo_rounds s] by fastforce
qed

definition draining_ie :: "(nat, (string \<times> string) list) io_env" where
  "draining_ie = demo_ie\<lparr>ix_draining := (\<lambda>w. True)\<rparr>"

lemma draining_round: "event_round draining_ie True demo_io1 1 = Some (False, demo_io1, 1)"
proof -
  have "run_workers draining_ie demo_io1 1 = Some (demo_io1, 1)" by (simp add: run_workers_def draining_ie_def demo_ie_def)
  moreover have "h3q_engine_pump (ix_handle_events draining_ie) 1 (io_qengine demo_io1) = Some ((0, 1), io_qengine demo_io1)"
    by (simp add: h3q_engine_pump_def pump_loop.simps draining_ie_def demo_simps)
  moreover have "intake draining_ie demo_io1 1 = Some (demo_io1, 1)" by (simp add: intake_def draining_ie_def)
  moreover have "io_active_sessions demo_io1 = []" by (simp add: demo_simps)
  ultimately show ?thesis by (simp add: event_round_def)
qed

theorem draining_keeps_handshakes_witness:
  "\<exists>work io' w'. event_round draining_ie True demo_io1 1 = Some (work, io', w') \<and>
     io_pending_handshakes demo_io1 = [(7, 0)] \<and> io_pending_handshakes io' = [(7, 0)]"
proof -
  have d: "\<forall>w. ix_draining draining_ie w" by (simp add: draining_ie_def)
  have "io_pending_handshakes demo_io1 = [(7, 0)]" by (simp add: demo_io1_def)
  then show ?thesis using draining_keeps_handshakes [OF d draining_round] draining_round by metis
qed

end
