(* ===== verification/H3_Hooks.thy ===== *)
theory H3_Hooks
  imports H3_Io
begin

text \<open>
  The request hooks of \<^verbatim>\<open>h3_hooks.c\<close>: scheme and port, the TLS environment and the Alt-Svc header,
  the protocol of the request, the early refusal of requests over the limits, the filters of a new
  request, and the status page.

  A hook answers with httpd's \<^verbatim>\<open>OK\<close>, \<^verbatim>\<open>DECLINED\<close> or an HTTP status. What \<^verbatim>\<open>ctx->stream\<close> and its session
  are is an argument, absent when a pointer on the way is NULL.
\<close>

definition hook_OK :: int where "hook_OK = 0"
definition hook_DECLINED :: int where "hook_DECLINED = - 1"
definition HTTP_BAD_REQUEST :: int where "HTTP_BAD_REQUEST = 400"
definition HTTP_REQUEST_HEADER_FIELDS_TOO_LARGE :: int where "HTTP_REQUEST_HEADER_FIELDS_TOO_LARGE = 431"

definition IS_H3_CONN :: "conn_rec \<Rightarrow> bool" where
  "IS_H3_CONN c \<longleftrightarrow> list_ex (\<lambda>(k, v). same_name k ''IS_mod_http3'') (c_notes c)"

definition IS_H3_REQUEST :: "'t request_rec \<Rightarrow> bool" where
  "IS_H3_REQUEST r \<longleftrightarrow> IS_H3_CONN (r_connection r)"

definition h3_hook_http_scheme :: "'t request_rec \<Rightarrow> string option" where
  "h3_hook_http_scheme r = (if IS_H3_REQUEST r then Some ''https'' else None)"

definition h3_hook_default_port :: "'t request_rec \<Rightarrow> apr_port_t" where
  "h3_hook_default_port r = (if IS_H3_REQUEST r then 443 else 0)"

definition h3_hook_ssl_conn_is_ssl :: "conn_rec \<Rightarrow> int" where
  "h3_hook_ssl_conn_is_ssl c = (if IS_H3_CONN c then hook_OK else hook_DECLINED)"

section \<open>Fixups\<close>

text \<open>An entry whose value is NULL reads back like an absent one.\<close>

definition set_env :: "'t httpd_api \<Rightarrow> string \<Rightarrow> string option \<Rightarrow> 't request_rec \<Rightarrow> 't request_rec" where
  "set_env api k v r =
     r\<lparr>r_subprocess_env := (case v of
          Some v \<Rightarrow> apr_table_set (tb api) k v (r_subprocess_env r)
        | None \<Rightarrow> apr_table_unset (tb api) k (r_subprocess_env r))\<rparr>"

definition fixup_tls_env :: "'t httpd_api \<Rightarrow> h3_session option \<Rightarrow> 't request_rec \<Rightarrow> 't request_rec" where
  "fixup_tls_env api session r =
     (let r = set_env api ''HTTPS'' (Some ''on'') r
      in case map_option se_tls_env session of
           None \<Rightarrow> r
         | Some tls \<Rightarrow>
             if tls_protocol tls = None then r
             else
               set_env api ''SSL_SESSION_RESUMED'' (tls_session_resumed tls)
                 (set_env api ''SSL_CIPHER_EXPORT'' (tls_cipher_export tls)
                   (set_env api ''SSL_CIPHER_ALGKEYSIZE'' (tls_cipher_algkeysize tls)
                     (set_env api ''SSL_CIPHER_USEKEYSIZE'' (tls_cipher_usekeysize tls)
                       (set_env api ''SSL_CIPHER'' (tls_cipher tls)
                         (set_env api ''SSL_PROTOCOL'' (tls_protocol tls) r))))))"

definition alt_svc_value :: "h3_server_conf \<Rightarrow> string" where
  "alt_svc_value conf =
     ''h3=\":'' @ show_nat (unat (h3_port conf)) @ ''\"; ma='' @ show_nat (unat (h3_alt_svc_max_age conf)) @ ''; persist=1''"

definition h3_hook_fixups :: "'t httpd_api \<Rightarrow> h3_session option \<Rightarrow> 't request_rec \<Rightarrow> int \<times> 't request_rec" where
  "h3_hook_fixups api session r =
     (if \<not> r_initial r then (hook_DECLINED, r)
      else
        let r = (if IS_H3_REQUEST r then fixup_tls_env api session r else r);
            conf = module_config (r_server r)
        in if h3_cert_path conf = None \<or> h3_key_path conf = None \<or> h3_port conf = 0 then (hook_DECLINED, r)
           else if h3_alt_svc conf = H3_FLAG_OFF then (hook_DECLINED, r)
           else if apr_table_get (tb api) (r_headers_out r) ''Alt-Svc'' \<noteq> None then (hook_DECLINED, r)
           else (hook_OK, r\<lparr>r_headers_out := apr_table_set (tb api) ''Alt-Svc'' (alt_svc_value conf) (r_headers_out r)\<rparr>))"

section \<open>The request\<close>

definition h3_hook_post_read_request :: "'t request_rec \<Rightarrow> int \<times> 't request_rec" where
  "h3_hook_post_read_request r =
     (if \<not> IS_H3_REQUEST r then (hook_DECLINED, r)
      else (hook_OK, r\<lparr>r_protocol := ''HTTP/3.0'', r_proto_num := 3000\<rparr>))"

definition h3_hook_access_checker :: "h3_stream option \<Rightarrow> 't request_rec \<Rightarrow> int" where
  "h3_hook_access_checker stream r =
     (if \<not> IS_H3_REQUEST r then hook_DECLINED
      else case stream of
             None \<Rightarrow> hook_OK
           | Some st \<Rightarrow>
               if st_headers_too_large st then HTTP_REQUEST_HEADER_FIELDS_TOO_LARGE
               else if st_request_body_overflow st then HTTP_REQUEST_ENTITY_TOO_LARGE
               else if st_body_truncated st then HTTP_BAD_REQUEST
               else hook_OK)"

text \<open>
  The chains the hook adds to, by the names of the filters; \<open>ap_add_input\<close> and \<open>ap_add_output\<close> are httpd's
  placement of a filter in a chain, which goes by its type.
\<close>

record filter_chains =
  fc_r_input :: "string list"
  fc_c_input :: "string list"
  fc_c_output :: "string list"
  fc_r_output :: "string list"
  fc_r_proto_output :: "string list"

definition h3_hook_http_create_request ::
  "(string \<Rightarrow> string list \<Rightarrow> string list) \<Rightarrow> (string \<Rightarrow> string list \<Rightarrow> string list) \<Rightarrow> 't request_rec \<Rightarrow> filter_chains \<Rightarrow>
   int \<times> filter_chains" where
  "h3_hook_http_create_request ap_add_input ap_add_output r fc =
     (if \<not> IS_H3_REQUEST r \<or> r_main r then (hook_DECLINED, fc)
      else
        let fc = fc\<lparr>fc_r_input := ap_add_input ''H3_NET_IN_PROTO'' (fc_r_input fc)\<rparr>;
            fc = fc\<lparr>fc_c_input := ap_add_input ''H3_NET_IN'' (fc_c_input fc)\<rparr>;
            fc = fc\<lparr>fc_c_output := ap_add_output ''H3_NET_OUT'' (fc_c_output fc)\<rparr>
        in (hook_OK, fc\<lparr>fc_r_output := fc_c_output fc, fc_r_proto_output := fc_c_output fc\<rparr>))"

section \<open>The status page\<close>

definition newline :: string where "newline = [CHR 0x0A]"

text \<open>The counters \<open>io_bytes\<close> are those of bytes read and bytes written.\<close>

definition status_text :: "h3_io option \<Rightarrow> string" where
  "status_text io =
     (case io of
        None \<Rightarrow> ''{\"error\": \"HTTP/3 not enabled or initialized on this child process\"}'' @ newline
      | Some io \<Rightarrow>
          ''{'' @ newline @
          ''  \"live_workers\": '' @ show_nat (unat (io_active_session_count io)) @ '','' @ newline @
          ''  \"total_connections\": '' @ show_nat (unat (io_total_connections io)) @ '','' @ newline @
          ''  \"total_streams\": '' @ show_nat (unat (io_total_streams io)) @ '','' @ newline @
          ''  \"total_bytes_read\": '' @ show_nat (unat (fst (io_bytes io))) @ '','' @ newline @
          ''  \"total_bytes_written\": '' @ show_nat (unat (snd (io_bytes io))) @ newline @
          ''}'' @ newline)"

definition h3_status_handler ::
  "'t httpd_api \<Rightarrow> h3_io option \<Rightarrow> 't request_rec \<Rightarrow> int \<times> 't request_rec \<times> string" where
  "h3_status_handler api child_h3_io r =
     (if r_handler r \<noteq> ''http3-status'' then (hook_DECLINED, r, [])
      else if r_method_number r \<noteq> ap_M_GET api then (hook_DECLINED, r, [])
      else (hook_OK, r\<lparr>r_content_type := Some ''application/json''\<rparr>, status_text child_h3_io))"

section \<open>Connections the module makes are HTTP/3 connections\<close>

lemma synth_conn_h3: "h3_synth_conn env aa child_io logio seq sx = (Some c, seq', sx') \<Longrightarrow> IS_H3_CONN c"
  by (auto simp: h3_synth_conn_def Let_def IS_H3_CONN_def split: prod.splits bool.splits option.splits)

lemma request_conn_h3 [simp]: "IS_H3_CONN (request_conn logio c) = IS_H3_CONN c"
  by (simp add: request_conn_def IS_H3_CONN_def)

section \<open>Reading numbers out of a text\<close>

text \<open>The maximal runs of digits, each as a number.\<close>

function numbers_in :: "string \<Rightarrow> nat list" where
  "numbers_in [] = []"
| "numbers_in (c # cs) =
     (if is_digit c
      then foldl (\<lambda>n d. 10 * n + (of_char d - 48)) 0 (takeWhile is_digit (c # cs)) # numbers_in (dropWhile is_digit (c # cs))
      else numbers_in cs)"
  by pat_completeness auto
termination by (relation "measure length") (auto simp: length_dropWhile_le le_imp_less_Suc)

lemma show_nat_digits: "show_nat n \<noteq> [] \<and> list_all is_digit (show_nat n)"
proof (induction n rule: show_nat.induct)
  case (1 n)
  have d: "is_digit (char_of (48 + m))" if "m < 10" for m :: nat
    using that by (simp add: is_digit_def)
  show ?case using 1 d [of n] d [of "n mod 10"] by (cases "n < 10") (simp_all add: show_nat.simps [of n])
qed

lemma show_nat_value: "foldl (\<lambda>n d. 10 * n + (of_char d - 48)) (0 :: nat) (show_nat n) = n"
proof (induction n rule: show_nat.induct)
  case (1 n)
  have d: "of_char (char_of (48 + m) :: char) - 48 = m" if "m < 10" for m :: nat
    using that by simp
  show ?case using 1 d [of n] d [of "n mod 10"] by (cases "n < 10") (simp_all add: show_nat.simps [of n])
qed

lemma numbers_in_skip: "list_all (\<lambda>c. \<not> is_digit c) xs \<Longrightarrow> numbers_in (xs @ ys) = numbers_in ys"
  by (induction xs) simp_all

lemma numbers_in_number:
  assumes "ys = [] \<or> \<not> is_digit (hd ys)"
  shows "numbers_in (show_nat n @ ys) = n # numbers_in ys"
proof -
  obtain c cs where s: "show_nat n = c # cs" and d: "list_all is_digit (c # cs)"
    using show_nat_digits [of n] by (cases "show_nat n") auto
  have t: "takeWhile is_digit (show_nat n @ ys) = show_nat n" "dropWhile is_digit (show_nat n @ ys) = ys"
    using d assms unfolding s by (auto simp: list_all_iff takeWhile_append2 dropWhile_append2 takeWhile_eq_Nil_iff dropWhile_eq_self_iff)
  have "numbers_in (show_nat n @ ys) =
      foldl (\<lambda>n d. 10 * n + (of_char d - 48)) 0 (takeWhile is_digit (show_nat n @ ys)) # numbers_in (dropWhile is_digit (show_nat n @ ys))"
    using d unfolding s by simp
  then show ?thesis unfolding t show_nat_value .
qed

text \<open>
  The status page gives the counters of the child's listener: reading the numbers back from
  the text gives the sessions, the connections, the streams, the bytes read and the bytes written,
  in this order, and nothing else.
\<close>

theorem status_counters:
  assumes "r_handler r = ''http3-status''" and "r_method_number r = ap_M_GET api"
  shows "\<exists>r' text. h3_status_handler api (Some io) r = (hook_OK, r', text) \<and> r_content_type r' = Some ''application/json'' \<and>
    numbers_in text = [unat (io_active_session_count io), unat (io_total_connections io), unat (io_total_streams io),
      unat (fst (io_bytes io)), unat (snd (io_bytes io))]"
proof -
  have "numbers_in (status_text (Some io)) = [unat (io_active_session_count io), unat (io_total_connections io), unat (io_total_streams io),
      unat (fst (io_bytes io)), unat (snd (io_bytes io))]"
    by (simp add: status_text_def numbers_in_number is_digit_def newline_def)
  then show ?thesis using assms by (simp add: h3_status_handler_def)
qed

theorem status_counters_witness:
  "\<exists>r' text. h3_status_handler alist_httpd (Some demo_io1) (sample_request\<lparr>r_handler := ''http3-status''\<rparr>) = (hook_OK, r', text) \<and>
     numbers_in text = [0, 1, 0, 0, 0]"
proof -
  let ?r = "sample_request\<lparr>r_handler := ''http3-status''\<rparr>"
  have r: "r_handler ?r = ''http3-status''" "r_method_number ?r = ap_M_GET alist_httpd"
    by (simp_all add: sample_request_def alist_httpd_def)
  have "unat (io_active_session_count demo_io1) = 0" "unat (io_total_connections demo_io1) = 1"
    "unat (io_total_streams demo_io1) = 0" "io_bytes demo_io1 = (0, 0)"
    by (simp_all add: demo_io1_def demo_io_def new_io_def)
  then show ?thesis using status_counters [OF r, of demo_io1] by fastforce
qed

section \<open>What is advertised\<close>

lemma set_env_fields [simp]:
  "r_headers_out (set_env api k v r) = r_headers_out r" "r_server (set_env api k v r) = r_server r"
  by (simp_all add: set_env_def)

lemma fixup_tls_env_fields [simp]:
  "r_headers_out (fixup_tls_env api session r) = r_headers_out r" "r_server (fixup_tls_env api session r) = r_server r"
  by (auto simp: fixup_tls_env_def Let_def split: option.split)

lemma fixups_advertise:
  assumes "table_ok api" and "r_initial r" and "module_config (r_server r) = c" and "h3_cert_path c = Some cert" and "h3_key_path c = Some key"
    and "h3_port c \<noteq> 0" and "h3_alt_svc c \<noteq> H3_FLAG_OFF" and "apr_table_get (tb api) (r_headers_out r) ''Alt-Svc'' = None"
  shows "\<exists>r'. h3_hook_fixups api session r = (hook_OK, r') \<and>
    (\<forall>k. apr_table_get (tb api) (r_headers_out r') k =
      (if same_name ''Alt-Svc'' k then Some (alt_svc_value c) else apr_table_get (tb api) (r_headers_out r) k))"
proof -
  let ?r = "if IS_H3_REQUEST r then fixup_tls_env api session r else r"
  have f: "h3_hook_fixups api session r =
      (hook_OK, ?r\<lparr>r_headers_out := apr_table_set (tb api) ''Alt-Svc'' (alt_svc_value c) (r_headers_out r)\<rparr>)"
    using assms(2-8) by (simp add: h3_hook_fixups_def Let_def)
  have "apr_table_get (tb api) (apr_table_set (tb api) k v t) k' =
      (if same_name k k' then Some v else apr_table_get (tb api) t k')" for k v t k'
    using assms(1) unfolding table_ok_def by blast
  then show ?thesis unfolding f by simp
qed


definition alt_conf :: h3_server_conf where
  "alt_conf = h3_create_server_config\<lparr>h3_cert_path := Some ''cert'', h3_key_path := Some ''key'', h3_port := 4433\<rparr>"

definition alt_server :: server_rec where
  "alt_server = small_server\<lparr>module_config := alt_conf\<rparr>"

lemma alt_conf_range: "conf_in_range (module_config alt_server)"
  by (simp add: alt_server_def alt_conf_def conf_in_range_def h3_create_server_config_def)

lemma defaults_fields:
  "h3_cert_path (apply_defaults p vc) = h3_cert_path vc" "h3_key_path (apply_defaults p vc) = h3_key_path vc"
  "h3_alt_svc (apply_defaults p vc) = dflt_flag (h3_alt_svc vc)" "h3_port (apply_defaults p vc) = dflt p (h3_port vc)"
  by (simp_all add: apply_defaults_def Let_def)

lemma alt_conf_fields:
  "h3_cert_path alt_conf = Some ''cert''" "h3_key_path alt_conf = Some ''key''" "h3_port alt_conf = 4433"
  "h3_alt_svc alt_conf = H3_FLAG_UNSET" "module_config alt_server = alt_conf"
  by (simp_all add: alt_conf_def h3_create_server_config_def alt_server_def)

lemma alt_post_config:
  "h3_post_config False (\<lambda>_. True) (alt_server # ss) =
     (alt_server\<lparr>module_config := apply_defaults (get_server_port alt_server) alt_conf\<rparr> # ss, POST_OK)"
  by (simp add: h3_post_config_def has_identity_def alt_conf_fields defaults_fields Let_def)

lemma alt_server_prepared:
  "\<exists>ss s c. h3_post_config False (\<lambda>_. True) [alt_server] = (ss, POST_OK) \<and> find_h3_server ss = Some (s, c) \<and>
     h3_alt_svc c = H3_FLAG_ON \<and> h3_port c = 4433"
proof -
  have "has_identity (apply_defaults p alt_conf)" for p
    by (simp add: has_identity_def defaults_fields alt_conf_fields)
  moreover have "h3_alt_svc (apply_defaults p alt_conf) = H3_FLAG_ON" "h3_port (apply_defaults p alt_conf) = 4433" for p
    by (simp_all add: defaults_fields alt_conf_fields dflt_def dflt_flag_def)
  ultimately show ?thesis unfolding alt_post_config by (simp add: Let_def)
qed

lemma port_text: "show_nat 4433 = ''4433''" "show_nat 0 = ''0''"
  by (simp_all add: show_nat.simps char_of_eq_iff)


text \<open>
  Only the first virtual host with a certificate and a key is given its defaults. A virtual
  host that inherits both and the port from the main server advertises HTTP/3 with an age of 0
  where H3AltSvcMaxAge is left at its default, so that clients drop the advertisement at once.
\<close>

theorem inherited_vhost_age_zero:
  "\<exists>ss vhost r'. h3_post_config False (\<lambda>_. True)
       [alt_server, alt_server\<lparr>module_config := h3_merge_server_config alt_conf h3_create_server_config\<rparr>] = (ss, POST_OK) \<and>
     vhost = ss ! 1 \<and> length ss = 2 \<and>
     h3_hook_fixups alist_httpd None (sample_request\<lparr>r_server := vhost\<rparr>) = (hook_OK, r') \<and>
     alist_get (r_headers_out r') ''Alt-Svc'' = Some ''h3=\":4433\"; ma=0; persist=1''"
proof -
  let ?v = "alt_server\<lparr>module_config := h3_merge_server_config alt_conf h3_create_server_config\<rparr>"
  have p: "\<exists>s. h3_post_config False (\<lambda>_. True) [alt_server, ?v] = ([s, ?v], POST_OK)"
    unfolding alt_post_config by simp
  have c: "h3_cert_path (module_config ?v) = Some ''cert''" "h3_key_path (module_config ?v) = Some ''key''"
    "h3_port (module_config ?v) = 4433" "h3_alt_svc (module_config ?v) = H3_FLAG_UNSET" "h3_alt_svc_max_age (module_config ?v) = 0"
    by (simp_all add: h3_merge_server_config_def pick_ptr_def pick_num_def pick_flag_def alt_conf_def h3_create_server_config_def)
  have v: "alt_svc_value (module_config ?v) = ''h3=\":4433\"; ma=0; persist=1''"
    by (simp only: alt_svc_value_def c) (simp add: port_text)
  let ?r = "sample_request\<lparr>r_server := ?v\<rparr>"
  have r: "r_initial ?r" "module_config (r_server ?r) = module_config ?v"
    "apr_table_get (tb alist_httpd) (r_headers_out ?r) ''Alt-Svc'' = None"
    by (simp_all add: sample_request_def alist_httpd_def alist_tables_def alist_get_def)
  have on: "h3_port (module_config ?v) \<noteq> 0" "h3_alt_svc (module_config ?v) \<noteq> H3_FLAG_OFF" using c(3,4) by simp_all
  obtain r' where f: "h3_hook_fixups alist_httpd None ?r = (hook_OK, r')"
    and g: "apr_table_get (tb alist_httpd) (r_headers_out r') ''Alt-Svc'' = Some (alt_svc_value (module_config ?v))"
    using fixups_advertise [OF alist_httpd_ok(2) r(1,2) c(1,2) on r(3), of None] by (metis same_name_refl)
  have "alist_get (r_headers_out r') ''Alt-Svc'' = Some ''h3=\":4433\"; ma=0; persist=1''"
    using g v by (simp add: alist_httpd_def alist_tables_def)
  then show ?thesis using p f by fastforce
qed

section \<open>Requests over the limits are refused\<close>

lemma recv_data_flags:
  "recv_data_stream conf bs st = Some st' \<Longrightarrow>
   st_headers_too_large st' = st_headers_too_large st \<and> st_body_truncated st' = st_body_truncated st"
  by (auto simp: recv_data_stream_def grow_body_def append_body_def Let_def split: if_splits bind_splits)

lemma recv_body_flags:
  "recv_body conf bss st = Some st' \<Longrightarrow>
   st_headers_too_large st' = st_headers_too_large st \<and> st_body_truncated st' = st_body_truncated st"
  by (induction bss arbitrary: st) (auto split: bind_splits dest: recv_data_flags)

text \<open>
  C30: A request on a connection the module made is refused before any handler runs exactly when it
  is over a limit: with 431 when its header fields were, otherwise with 413 when the body fragments
  the client sent add up to more than H3MaxRequestBodySize, and with 400 when the body ended early.
\<close>

theorem limits_enforced:
  assumes "h3_synth_conn env aa child_io logio seq sx = (Some c, seq', sx')" and "r_connection r = request_conn logio' c"
    and "body_ok conf st" and "unat (h3_max_request_body_size conf) \<le> 2 ^ 62"
    and "list_all (\<lambda>bs. length bs < 2 ^ 63) bss" and "st_is_bidi st" and "st_request_body st = []" and "\<not> st_request_body_overflow st"
  shows "\<exists>st'. recv_body conf bss st = Some st' \<and>
    h3_hook_access_checker (Some st') r =
      (if st_headers_too_large st then 431
       else if length (concat bss) > unat (h3_max_request_body_size conf) then 413
       else if st_body_truncated st then 400 else hook_OK)"
proof -
  have h3: "IS_H3_REQUEST r" using synth_conn_h3 [OF assms(1)] assms(2) by (simp add: IS_H3_REQUEST_def)
  obtain st' where r: "recv_body conf bss st = Some st'"
    and o: "st_request_body_overflow st' \<longleftrightarrow> length (concat bss) > unat (h3_max_request_body_size conf)"
    using recv_body_total [OF assms(3-6,8)] assms(7) by auto
  have "h3_hook_access_checker (Some st') r =
      (if st_headers_too_large st then 431
       else if length (concat bss) > unat (h3_max_request_body_size conf) then 413
       else if st_body_truncated st then 400 else hook_OK)"
    using recv_body_flags [OF r] h3 o
    by (simp add: h3_hook_access_checker_def HTTP_REQUEST_HEADER_FIELDS_TOO_LARGE_def HTTP_REQUEST_ENTITY_TOO_LARGE_def HTTP_BAD_REQUEST_def)
  then show ?thesis using r by blast
qed

theorem limits_enforced_witness:
  "\<exists>c seq' sx' st'. h3_synth_conn quiet_env (ix_addr demo_ie) None False 0 sample_st = (Some c, seq', sx') \<and>
     recv_body small_conf [[1, 2], [3, 4, 5, 6]] (blank_stream 0 8) = Some st' \<and>
     h3_hook_access_checker (Some st') (sample_request\<lparr>r_connection := request_conn False c\<rparr>) = 413"
proof -
  obtain c seq' sx' where c: "h3_synth_conn quiet_env (ix_addr demo_ie) None False 0 sample_st = (Some c, seq', sx')"
    by (simp add: h3_synth_conn_def quiet_env_def Let_def)
  let ?r = "sample_request\<lparr>r_connection := request_conn False c\<rparr>" and ?st = "blank_stream 0 8"
  have r: "r_connection ?r = request_conn False c" by simp
  have st: "body_ok small_conf ?st" "st_is_bidi ?st" "st_request_body ?st = []" "\<not> st_request_body_overflow ?st"
    "\<not> st_headers_too_large ?st" "unat (h3_max_request_body_size small_conf) = 5"
    by (simp_all add: blank_stream_def body_ok_def h3_response.defs h3_stream.defs fresh_response_def
        H3_SID_IS_BIDI_def small_conf_def)
  show ?thesis
    using limits_enforced [OF c r st(1) _ _ st(2-4), of "[[1, 2], [3, 4, 5, 6]]"] c st(5,6) by auto
qed

end
