(* ===== verification/H3_Server.thy ===== *)
theory H3_Server
  imports H3_Io
begin

text \<open>
  The life of a child process (\<^verbatim>\<open>h3_server.c\<close>): binding the port and starting the listener, the thread
  that keeps trying while another child owns the port, and the hooks that stop the child.

  \<^verbatim>\<open>child_stopping\<close> is memory the acquirer thread reads, part of the world. Joining that thread is
  running it from the head of its loop.
\<close>

record ('w, 't) server_env =
  sv_io :: "('w, 't) io_env"
  sv_linux :: bool
  sv_stopping :: "'w \<Rightarrow> bool"
  sv_set_stopping :: "'w \<Rightarrow> 'w"
  sv_thread_create :: "'w \<Rightarrow> bool \<times> 'w"
  sv_sleep :: "int \<Rightarrow> 'w \<Rightarrow> 'w"

type_synonym port_acquire_args = "server_rec \<times> h3_server_conf"

record child_process =
  cp_child :: child
  cp_port_acquire :: "port_acquire_args option"

definition H3_PORT_ACQUIRE_RETRY_MS :: nat where "H3_PORT_ACQUIRE_RETRY_MS = 200"

definition open_port :: "('w, 't) server_env \<Rightarrow> h3_server_conf \<Rightarrow> 'w \<Rightarrow> (apr_status_t + int) \<times> 'w" where
  "open_port sv conf w =
     h3_socket_open (ix_sk (sv_io sv)) (sv_linux sv) (h3_port conf) (h3_socket_buffer_size conf) w"

text \<open>Both callers close the socket when the listener does not start.\<close>

definition start_or_close ::
  "('w, 't) server_env \<Rightarrow> port_acquire_args \<Rightarrow> int \<Rightarrow> child \<Rightarrow> 'w \<Rightarrow> (child \<times> 'w) option" where
  "start_or_close sv args udp_fd ch w = do {
     ((rv, ch), w) \<leftarrow> h3_io_listen_start (sv_io sv) (fst args) (snd args) udp_fd ch w;
     Some (ch, if rv \<noteq> APR_SUCCESS then h3_socket_close (ix_sk (sv_io sv)) udp_fd w else w)
   }"

definition retry_sleep :: "('w, 't) server_env \<Rightarrow> 'w \<Rightarrow> 'w" where
  "retry_sleep sv = sv_sleep sv (apr_time_from_msec H3_PORT_ACQUIRE_RETRY_MS)"

text \<open>What the acquirer does once the socket is there.\<close>

definition acquired ::
  "('w, 't) server_env \<Rightarrow> port_acquire_args \<Rightarrow> int \<Rightarrow> child \<Rightarrow> 'w \<Rightarrow> (child \<times> 'w) option" where
  "acquired sv args udp_fd ch w =
     (if sv_stopping sv w then Some (ch, h3_socket_close (ix_sk (sv_io sv)) udp_fd w)
      else start_or_close sv args udp_fd ch w)"

partial_function (option) port_acquire_thread_fn ::
  "('w, 't) server_env \<Rightarrow> port_acquire_args \<Rightarrow> child \<Rightarrow> 'w \<Rightarrow> (child \<times> 'w) option" where
  "port_acquire_thread_fn sv args ch w =
     (if sv_stopping sv w then Some (ch, w)
      else case open_port sv (snd args) w of
             (opened, w) \<Rightarrow>
               (case opened of
                  Inl rv \<Rightarrow> if rv = APR_EAGAIN then port_acquire_thread_fn sv args ch (retry_sleep sv w) else Some (ch, w)
                | Inr udp_fd \<Rightarrow> acquired sv args udp_fd ch w))"

definition h3_child_init ::
  "('w, 't) server_env \<Rightarrow> server_rec list \<Rightarrow> child_process \<Rightarrow> 'w \<Rightarrow> (child_process \<times> 'w) option" where
  "h3_child_init sv servers cp w =
     (case find_h3_server servers of
        None \<Rightarrow> Some (cp, w)
      | Some args \<Rightarrow>
          (case open_port sv (snd args) w of
             (Inl rv, w) \<Rightarrow>
               if rv = APR_EAGAIN
               then (case sv_thread_create sv w of
                       (ok, w) \<Rightarrow> Some (cp\<lparr>cp_port_acquire := (if ok then Some args else None)\<rparr>, w))
               else Some (cp, w)
           | (Inr udp_fd, w) \<Rightarrow>
               map_option (\<lambda>(ch, w). (cp\<lparr>cp_child := ch\<rparr>, w)) (start_or_close sv args udp_fd (cp_child cp) w)))"

section \<open>Stopping\<close>

definition join_acquirer :: "('w, 't) server_env \<Rightarrow> child_process \<Rightarrow> 'w \<Rightarrow> (child_process \<times> 'w) option" where
  "join_acquirer sv cp w =
     (case cp_port_acquire cp of
        None \<Rightarrow> Some (cp, w)
      | Some args \<Rightarrow> do {
          (ch, w) \<leftarrow> port_acquire_thread_fn sv args (cp_child cp) w;
          Some (\<lparr>cp_child = ch, cp_port_acquire = None\<rparr>, w)
        })"

text \<open>\<^verbatim>\<open>h3_io_listen_stop(child_h3_io)\<close>, which does nothing with a NULL pointer.\<close>

definition stop_child :: "('w, 't) io_env \<Rightarrow> child \<Rightarrow> 'w \<Rightarrow> (child \<times> 'w) option" where
  "stop_child ie ch w = (if ch_child_h3_io ch then h3_io_listen_stop ie ch w else Some (ch, w))"

definition h3_c1_child_stopping ::
  "('w, 't) server_env \<Rightarrow> bool \<Rightarrow> child_process \<Rightarrow> 'w \<Rightarrow> (child_process \<times> 'w) option" where
  "h3_c1_child_stopping sv graceful cp w = do {
     (cp, w) \<leftarrow> join_acquirer sv cp (sv_set_stopping sv w);
     (if graceful
      then Some (cp, h3_io_listen_drain (sv_io sv) (if ch_child_h3_io (cp_child cp) then ch_io (cp_child cp) else None) w)
      else map_option (\<lambda>(ch, w). (cp\<lparr>cp_child := ch\<rparr>, w)) (stop_child (sv_io sv) (cp_child cp) w))
   }"

definition h3_c1_child_stopped ::
  "('w, 't) server_env \<Rightarrow> child_process \<Rightarrow> 'w \<Rightarrow> (child_process \<times> 'w) option" where
  "h3_c1_child_stopped sv cp w =
     map_option (\<lambda>(ch, w). (cp\<lparr>cp_child := ch\<rparr>, w)) (stop_child (sv_io sv) (cp_child cp) w)"

section \<open>The port is taken over\<close>

text \<open>One turn of the acquirer's loop while the port is owned.\<close>

definition retry :: "('w, 't) server_env \<Rightarrow> h3_server_conf \<Rightarrow> 'w \<Rightarrow> 'w" where
  "retry sv conf w = retry_sleep sv (snd (open_port sv conf w))"

text \<open>
  C27: However often the port is found owned by another child, the acquirer starts the listener on
  it the first time it can be bound, unless the child is stopping: it returns, with the result of
  starting the listener on the socket just opened.
\<close>

theorem port_taken_over:
  assumes "\<And>i. i < n \<Longrightarrow> fst (open_port sv (snd args) ((retry sv (snd args) ^^ i) w)) = Inl APR_EAGAIN"
    and "\<And>i. i \<le> n \<Longrightarrow> \<not> sv_stopping sv ((retry sv (snd args) ^^ i) w)"
    and "open_port sv (snd args) ((retry sv (snd args) ^^ n) w) = (Inr udp_fd, w')" and "\<not> sv_stopping sv w'"
  shows "port_acquire_thread_fn sv args ch w = start_or_close sv args udp_fd ch w'"
  using assms
proof (induction n arbitrary: w)
  case 0
  then show ?case using 0(2) [of 0] by (subst port_acquire_thread_fn.simps) (simp add: acquired_def)
next
  case (Suc n)
  obtain w1 where o: "open_port sv (snd args) w = (Inl APR_EAGAIN, w1)"
    using Suc.prems(1) [of 0] by (cases "open_port sv (snd args) w") simp
  have r: "retry sv (snd args) w = retry_sleep sv w1" by (simp add: retry_def o)
  have "port_acquire_thread_fn sv args ch (retry_sleep sv w1) = start_or_close sv args udp_fd ch w'"
  proof (rule Suc.IH)
    show "fst (open_port sv (snd args) ((retry sv (snd args) ^^ i) (retry_sleep sv w1))) = Inl APR_EAGAIN" if "i < n" for i
      using Suc.prems(1) [of "Suc i"] that by (simp add: funpow_swap1 r)
    show "\<not> sv_stopping sv ((retry sv (snd args) ^^ i) (retry_sleep sv w1))" if "i \<le> n" for i
      using Suc.prems(2) [of "Suc i"] that by (simp add: funpow_swap1 r)
  qed (use Suc.prems(3,4) in \<open>simp_all add: funpow_swap1 r\<close>)
  then show ?case using Suc.prems(2) [of 0] o by (subst port_acquire_thread_fn.simps) simp
qed

section \<open>A listener that does not start\<close>

text \<open>
  C28: When the engine cannot be created, the socket's descriptor is closed twice: \<^verbatim>\<open>teardown\<close> closes
  it and so does the caller of \<^verbatim>\<open>h3_io_listen_start\<close>, which still has its number. Another thread may
  have been given the number in between.
\<close>

theorem failed_start_closes_twice:
  assumes "find_h3_server servers = Some (s, c)" and "open_port sv c w = (Inr fd, w1)" and "0 \<le> fd"
    and "h3_wakeup_create (ix_sk (sv_io sv)) w1 = ((APR_SUCCESS, wk), w2)" and "ix_thread_pool_create (sv_io sv) w2 = (True, w3)"
    and "qcfg_of c = Some cfg" and "fst (h3q_engine_create (ix_engine_calls (sv_io sv) w3) (ix_keylogfile (sv_io sv)) cfg) = None"
  shows "h3_child_init sv servers cp w = Some (cp, os_close (ix_sk (sv_io sv)) fd (os_close (ix_sk (sv_io sv)) fd w3))"
proof -
  obtain rs where e: "h3q_engine_create (ix_engine_calls (sv_io sv) w3) (ix_keylogfile (sv_io sv)) cfg = (None, rs)"
    using assms(7) by (cases "h3q_engine_create (ix_engine_calls (sv_io sv) w3) (ix_keylogfile (sv_io sv)) cfg") simp
  have t: "\<exists>io. teardown (sv_io sv) ((new_io s fd wk)\<lparr>io_held := rs\<rparr>) w3 = Some (io, os_close (ix_sk (sv_io sv)) fd w3)"
    using assms(3) by (simp add: teardown_def join_event_thread_def new_io_def h3_socket_close_def h3_socket_os_close_def)
  have "h3_io_listen_start (sv_io sv) s c fd ch w1 = Some ((APR_EGENERAL, ch), os_close (ix_sk (sv_io sv)) fd w3)" for ch
    using t by (auto simp: h3_io_listen_start_def assms(4-6) e)
  then show ?thesis
    using assms(1-3) by (simp add: h3_child_init_def start_or_close_def h3_socket_close_def h3_socket_os_close_def)
qed

section \<open>Stopping a child releases everything\<close>

definition io_released :: "h3_io \<Rightarrow> bool" where
  "io_released io \<longleftrightarrow>
     io_active_sessions io = [] \<and> io_pending_handshakes io = [] \<and> io_active_session_count io = 0 \<and>
     (io_note_conn io \<longrightarrow> io_noted io = 0) \<and> io_qengine io = None \<and> io_held io = [] \<and> io_udp_fd io < 0 \<and>
     \<not> io_event_thread io \<and> \<not> io_worker_pool io"

lemma stop_released:
  assumes "io_env_ok ie" and "io_ok st 0 io" and "io_event_thread io"
    and "h3_io_listen_stop ie \<lparr>ch_io = Some io, ch_child_h3_io = b\<rparr> w = Some (ch, w')"
  shows "\<exists>io'. ch = \<lparr>ch_io = Some io', ch_child_h3_io = False\<rparr> \<and> io_released io'"
proof -
  obtain io' where t: "teardown ie io w = Some (io', w')" and ch: "ch = \<lparr>ch_io = Some io', ch_child_h3_io = False\<rparr>"
    using assms(4) by (auto simp: h3_io_listen_stop_def)
  then show ?thesis
    using teardown_result [OF assms(1-3) t] by (auto simp: io_released_def io_ok_def io_load_def)
qed

lemma released_again:
  "io_released io \<Longrightarrow> h3_io_listen_stop ie \<lparr>ch_io = Some io, ch_child_h3_io = b\<rparr> w = Some (\<lparr>ch_io = Some io, ch_child_h3_io = False\<rparr>, w)"
  using teardown_again [of io ie w] by (simp add: h3_io_listen_stop_def io_released_def)


section \<open>Example children\<close>

definition demo_sv :: "(nat, (string \<times> string) list) server_env" where
  "demo_sv = \<lparr>sv_io = demo_ie, sv_linux = True, sv_stopping = (\<lambda>w. 100 \<le> w), sv_set_stopping = (\<lambda>w. w),
     sv_thread_create = (\<lambda>w. (True, w)), sv_sleep = (\<lambda>t w. Suc w)\<rparr>"


text \<open>The port is owned until the world has reached 2.\<close>

definition busy_sockets :: "nat socket_api" where
  "busy_sockets = queue_sockets\<lparr>apr_socket_bind := (\<lambda>s a w. (if w < 2 then APR_OTHER 98 else APR_SUCCESS, w))\<rparr>"

definition busy_sv :: "(nat, (string \<times> string) list) server_env" where
  "busy_sv = demo_sv\<lparr>sv_io := demo_ie\<lparr>ix_sk := busy_sockets\<rparr>\<rparr>"

lemma busy_open: "open_port busy_sv demo_conf w = (if w < 2 then Inl APR_EAGAIN else Inr 3, w)"
  by (simp add: open_port_def busy_sv_def busy_sockets_def queue_sockets_def h3_socket_open_def tune_buffers_def
      h3_socket_os_is_eaddrinuse_def demo_conf_def small_conf_def h3_create_server_config_def Let_def)

lemma busy_retry: "(retry busy_sv demo_conf ^^ i) w = w + i"
  by (induction i) (simp_all add: retry_def busy_open retry_sleep_def, simp_all add: busy_sv_def demo_sv_def)

lemma busy_start:
  "\<exists>io. h3_io_listen_start (sv_io busy_sv) demo_server demo_conf 3 ch 2 = Some ((APR_SUCCESS, \<lparr>ch_io = Some io, ch_child_h3_io = True\<rparr>), 2)"
  by (simp add: h3_io_listen_start_def h3_wakeup_create_def wakeup_pair_def try_get_def try_call_def busy_sv_def busy_sockets_def
      queue_sockets_def demo_ie_def qcfg_of_def demo_conf_def small_conf_def h3_create_server_config_def h3q_engine_create_def
      h3q_tls_ctx_create_def create_bios_def good_calls_def)

theorem port_taken_over_witness:
  "\<exists>ch. port_acquire_thread_fn busy_sv (demo_server, demo_conf) \<lparr>ch_io = None, ch_child_h3_io = False\<rparr> 0 = Some (ch, 2) \<and>
     ch_child_h3_io ch \<and> ch_io ch \<noteq> None"
proof -
  let ?args = "(demo_server, demo_conf)" and ?ch = "\<lparr>ch_io = None, ch_child_h3_io = False\<rparr>"
  have "port_acquire_thread_fn busy_sv ?args ?ch 0 = start_or_close busy_sv ?args 3 ?ch 2"
    by (rule port_taken_over [of 2]) (simp_all add: busy_retry busy_open, simp_all add: busy_sv_def demo_sv_def)
  then show ?thesis using busy_start [of ?ch] by (auto simp: start_or_close_def)
qed

text \<open>OpenSSL gives no context; each close of the descriptor adds 1000 to the world.\<close>

definition no_ctx_sv :: "(nat, (string \<times> string) list) server_env" where
  "no_ctx_sv = demo_sv\<lparr>sv_io := demo_ie\<lparr>ix_sk := queue_sockets\<lparr>os_close := (\<lambda>fd w. w + 1000)\<rparr>,
     ix_engine_calls := (\<lambda>w. good_calls\<lparr>SSL_CTX_new_ok := False\<rparr>)\<rparr>\<rparr>"

theorem failed_start_closes_twice_witness:
  "h3_child_init no_ctx_sv [demo_server] \<lparr>cp_child = \<lparr>ch_io = None, ch_child_h3_io = False\<rparr>, cp_port_acquire = None\<rparr> 0 =
     Some (\<lparr>cp_child = \<lparr>ch_io = None, ch_child_h3_io = False\<rparr>, cp_port_acquire = None\<rparr>, 2000)"
proof -
  obtain s c where f: "find_h3_server [demo_server] = Some (s, c)" and c: "c = demo_conf\<lparr>host_port := get_server_port demo_server\<rparr>"
    by (simp add: demo_server_def demo_conf_def has_identity_def Let_def)
  have o: "open_port no_ctx_sv c 0 = (Inr 3, 0)"
    by (simp add: c open_port_def no_ctx_sv_def queue_sockets_def h3_socket_open_def tune_buffers_def
        demo_conf_def small_conf_def h3_create_server_config_def Let_def)
  have w: "h3_wakeup_create (ix_sk (sv_io no_ctx_sv)) 0 = ((APR_SUCCESS, \<lparr>wk_reader = Some 0, wk_writer = Some 0, wk_reader_fd = 3\<rparr>), 0)"
    by (simp add: h3_wakeup_create_def wakeup_pair_def try_get_def try_call_def no_ctx_sv_def queue_sockets_def)
  have p: "ix_thread_pool_create (sv_io no_ctx_sv) 0 = (True, 0)" by (simp add: no_ctx_sv_def demo_ie_def)
  obtain cfg where q: "qcfg_of c = Some cfg" by (simp add: qcfg_of_def c demo_conf_def)
  have e: "fst (h3q_engine_create (ix_engine_calls (sv_io no_ctx_sv) 0) (ix_keylogfile (sv_io no_ctx_sv)) cfg) = None"
    by (simp add: no_ctx_sv_def h3q_engine_create_def h3q_tls_ctx_create_def good_calls_def)
  show ?thesis using failed_start_closes_twice [OF f o _ w p q e] by (simp add: no_ctx_sv_def)
qed

end
