(* ===== verification/H3_Shutdown.thy ===== *)
theory H3_Shutdown
  imports H3_Server
begin

text \<open>
  Stopping the listener comes to an end: the first round after \<^verbatim>\<open>thread_running\<close> is cleared gives every
  session a deadline, and once the deadlines have passed and the workers have left, the next round
  ends every session and with them the event thread.
\<close>

section \<open>The deadline is kept\<close>

interpretation deadline_sc: session_contract env "\<lambda>se. se_goaway_deadline se = d"
proof unfold_locales
  show "se_goaway_deadline (sx_session sx') = d" if "se_goaway_deadline (sx_session sx) = d" "h3_callback env cb sx = Some (x, sx')"
    for sx cb x sx'
    using callback_frame [OF that(2)] that(1) by (simp add: cb_frame_def)
  show "se_goaway_deadline se' = d" if "se_goaway_deadline se = d" "reclaim_stream r se = Some se'" for se r se'
    using that by (auto simp: reclaim_stream_def note_unblocked_def Let_def split: if_splits)
qed (simp_all add: aux_eq_def note_unblocked_def note_blocked_def)

lemma flush_same: "hash_order_ok env \<Longrightarrow> flush_nghttp3 env sx = Some sx' \<Longrightarrow> same_hash (sx_session sx) (sx_session sx')"
  by (rule same_hash_ss.flush_keeps [OF _ same_hash_refl])

lemma call_ng_same: "call_ng env f sx = Some (x, sx') \<Longrightarrow> same_hash (sx_session sx) (sx_session sx')"
  by (rule cb_frame_same_hash [OF call_ng_frame])

lemma worker_moves_marks:
  "worker_moves env lv lv' \<Longrightarrow> live_inv lv \<Longrightarrow>
   se_aborted (lv_session lv') = se_aborted (lv_session lv) \<and> se_goaway_deadline (lv_session lv') = se_goaway_deadline (lv_session lv)"
proof (induction rule: worker_moves.induct)
  case (worker_acts lv pre r p post malloc wake wait p' sx')
  have "tasks_ok (pre @ (r, p) # post) (sx_session (lv_st lv))"
    using worker_acts by (simp add: live_inv_def lv_session_def)
  then consider "holding p" | "leaving p" | "p = WRet ()" by (fastforce simp: tasks_ok_def)
  then show ?case
  proof cases
    case 1
    show ?thesis
      using holding_step [OF 1 worker_acts(2)] by (auto simp: lv_session_def cb_frame_def)
  next
    case 2
    show ?thesis using leaving_step [OF 2 worker_acts(2)] by (simp add: lv_session_def)
  qed (use worker_acts(2) in simp)
qed (simp_all add: lv_session_def)

lemma workers_marks:
  "(worker_moves env)\<^sup>*\<^sup>* lv lv' \<Longrightarrow> live_inv lv \<Longrightarrow>
   se_aborted (lv_session lv') = se_aborted (lv_session lv) \<and> se_goaway_deadline (lv_session lv') = se_goaway_deadline (lv_session lv)"
  by (induction rule: rtranclp_induct) (auto dest: worker_moves_marks workers_keep)

text \<open>A lock-held section that keeps the invariant and the deadline, and the workers after it.\<close>

lemma locked_deadline:
  assumes "workers_ok pe" and "live_inv lv" and l: "locked pe f lv = Some (x, lv')"
    and "\<And>sx'. f (lv_st lv) = Some (x, sx') \<Longrightarrow> session_inv (lv_tasks lv) (sx_session sx') \<and> se_goaway_deadline (sx_session sx') = d"
  shows "live_inv lv' \<and> se_goaway_deadline (lv_session lv') = d"
proof -
  obtain sx' where f: "f (lv_st lv) = Some (x, sx')" and w: "px_workers pe (lv\<lparr>lv_st := sx'\<rparr>) = Some lv'"
    using l by (auto simp: locked_def split: bind_splits)
  have inv: "live_inv (lv\<lparr>lv_st := sx'\<rparr>)" and d: "se_goaway_deadline (lv_session (lv\<lparr>lv_st := sx'\<rparr>)) = d"
    using assms(4) [OF f] by (simp_all add: live_inv_session lv_session_def)
  have m: "(worker_moves (px_env pe))\<^sup>*\<^sup>* (lv\<lparr>lv_st := sx'\<rparr>) lv'" using assms(1) w by (simp add: workers_ok_def)
  show ?thesis using workers_keep [OF m inv] workers_marks [OF m inv] d by simp
qed

lemma track_deadline:
  "track_stream env sid q sx = Some (res, sx') \<Longrightarrow> se_goaway_deadline (sx_session sx') = se_goaway_deadline (sx_session sx)"
  by (erule track_cases) (auto simp: insert_stream_def)

lemma take_stream_deadline:
  "take_stream env sid q sx = Some (u, sx') \<Longrightarrow> se_goaway_deadline (sx_session sx') = se_goaway_deadline (sx_session sx)"
  by (auto simp: take_stream_def split: bind_splits if_splits dest: track_deadline)

lemma drain_flush_deadline:
  assumes "hash_order_ok env" and "hash_inv (sx_session sx)" and "drain_flush env sx = Some (x, sx')"
  shows "se_goaway_deadline (sx_session sx') = se_goaway_deadline (sx_session sx)"
proof -
  obtain res sx1 where d: "drain_ready_streams env sx = Some (res, sx1)" and f: "flush_nghttp3 env sx1 = Some sx'"
    using assms(3) by (auto simp: drain_flush_def split: bind_splits)
  obtain completed b where res: "res = (completed, b)" by force
  have "se_goaway_deadline (sx_session sx1) = se_goaway_deadline (sx_session sx)"
    using deadline_sc.drain_ready_keeps [OF assms(1) refl assms(2) d [unfolded res]] by simp
  then show ?thesis using flush_same [OF assms(1) f] by (simp add: same_hash_def)
qed

lemma abandon_deadline [simp]:
  "se_goaway_deadline (sx_session (abandon_stalled_responses env t sx)) = se_goaway_deadline (sx_session sx)"
  using abandon_frame [of sx env t] by (simp add: cb_frame_def)

lemma flush_deadline:
  "hash_order_ok env \<Longrightarrow> flush_nghttp3 env sx = Some sx' \<Longrightarrow> se_goaway_deadline (sx_session sx') = se_goaway_deadline (sx_session sx)"
  using flush_same [of env sx sx'] by (simp add: same_hash_def)

lemma last_flush_deadline:
  "hash_order_ok env \<Longrightarrow> last_flush env sx = Some (u, sx') \<Longrightarrow> se_goaway_deadline (sx_session sx') = se_goaway_deadline (sx_session sx)"
  by (auto simp: last_flush_def split: bind_splits dest: flush_deadline)

lemma accept_streams_deadline:
  assumes "workers_ok pe" and "accept_streams pe n lv = Some (m, lv')" and "live_inv lv"
  shows "se_goaway_deadline (lv_session lv') = se_goaway_deadline (lv_session lv)"
proof -
  let ?P = "\<lambda>pe n lv x. workers_ok pe \<longrightarrow> live_inv lv \<longrightarrow> se_goaway_deadline (lv_session (snd x)) = se_goaway_deadline (lv_session lv)"
  have "?P pe n lv (m, lv')"
  proof (rule accept_streams.raw_induct [where P = ?P, OF _ assms(2)], intro impI)
    fix loop :: "('a, 'b) pass_env \<Rightarrow> bool \<times> apr_uint32_t \<Rightarrow> 'a live \<Rightarrow> ((bool \<times> apr_uint32_t) \<times> 'a live) option"
      and pe n lv x
    assume IH: "\<And>pe n lv x. loop pe n lv = Some x \<Longrightarrow> ?P pe n lv x"
      and ok: "workers_ok pe" and inv: "live_inv lv"
      and body: "(case h3q_conn_accept_stream (env_ssl (px_env pe)) (se_qconn (lv_session lv)) (lv_world lv) of
        (None, w) \<Rightarrow> Some (n, on_lv (\<lambda>sx. sx\<lparr>sx_world := w\<rparr>) lv)
      | (Some q, w) \<Rightarrow>
          let sid = h3q_stream_id (env_ssl (px_env pe)) (Some q) w;
              lv = on_lv (\<lambda>sx. sx\<lparr>sx_world := w\<rparr>) lv
          in if sid < 0
             then loop pe (True, snd n + 1) (on_lv (on_world (h3q_stream_free (env_ssl (px_env pe)) (Some q))) lv)
             else (case locked pe (take_stream (px_env pe) sid q) lv of
                     None \<Rightarrow> None
                   | Some (_, lv) \<Rightarrow> loop pe (True, snd n + 1) lv)) = Some x"
    have take: "live_inv lv2 \<and> se_goaway_deadline (lv_session lv2) = se_goaway_deadline (lv_session lv)"
      if "locked pe (take_stream (px_env pe) sid q) (on_lv (\<lambda>sx. sx\<lparr>sx_world := w\<rparr>) lv) = Some (u, lv2)" for sid q w u lv2
    proof (rule locked_deadline [OF ok _ that])
      fix sx'
      assume t: "take_stream (px_env pe) sid q (lv_st (on_lv (\<lambda>sx. sx\<lparr>sx_world := w\<rparr>) lv)) = Some (u, sx')"
      show "session_inv (lv_tasks (on_lv (\<lambda>sx. sx\<lparr>sx_world := w\<rparr>) lv)) (sx_session sx') \<and>
          se_goaway_deadline (sx_session sx') = se_goaway_deadline (lv_session lv)"
        using take_stream_inv [OF _ t] take_stream_deadline [OF t] inv by (simp add: live_inv_session lv_session_def)
    qed (use inv in simp)
    have same: "lv_session (on_lv (\<lambda>sx. sx\<lparr>sx_world := w\<rparr>) lv) = lv_session lv"
      "lv_session (on_lv (on_world f) (on_lv (\<lambda>sx. sx\<lparr>sx_world := w\<rparr>) lv)) = lv_session lv" for w f
      by (simp_all add: lv_session_def)
    show "se_goaway_deadline (lv_session (snd x)) = se_goaway_deadline (lv_session lv)"
      using body inv take IH ok same
      by (auto simp: Let_def split: prod.splits option.splits if_splits)
  qed
  then show ?thesis using assms by simp
qed

lemma process_request_deadline:
  assumes "h3_process_request env push logio r sx = Some (res, sx')"
  shows "se_goaway_deadline (sx_session sx') = se_goaway_deadline (sx_session sx)"
  using process_request_cases [OF assms] by (auto simp: cb_frame_def add_tasks_def set_stream_dispatched_def split: option.splits)

lemma note_activity_deadline [simp]:
  "se_goaway_deadline (lv_session (note_activity pe b lv)) = se_goaway_deadline (lv_session lv)"
  by (simp add: note_activity_def tell_def set_aborted_def lv_session_def split: prod.split)

lemma set_aborted_fields [simp]:
  "se_aborted (lv_session (set_aborted lv))" "se_goaway_deadline (lv_session (set_aborted lv)) = se_goaway_deadline (lv_session lv)"
  "lv_tasks (set_aborted lv) = lv_tasks lv" "se_active_tasks (lv_session (set_aborted lv)) = se_active_tasks (lv_session lv)"
  "se_qconn (lv_session (set_aborted lv)) = se_qconn (lv_session lv)"
  by (simp_all add: set_aborted_def lv_session_def on_lv_def)

lemma dispatch_all_deadline:
  assumes "workers_ok pe"
  shows "dispatch_all pe rs lv = Some lv' \<Longrightarrow> live_inv lv \<Longrightarrow> set rs \<subseteq> snd ` set (se_streams (lv_session lv)) \<Longrightarrow>
    se_goaway_deadline (lv_session lv') = se_goaway_deadline (lv_session lv)"
proof (induction rs arbitrary: lv)
  case (Cons r rs)
  from Cons.prems(1) show ?case
  proof (rule dispatch_all_step)
    fix res sx1 lv1
    let ?lv = "lv\<lparr>lv_st := sx1, lv_tasks := lv_tasks lv @ (case res of None \<Rightarrow> [] | Some c \<Rightarrow> [worker_task pe c r sx1])\<rparr>"
    assume p: "h3_process_request (px_env pe) (px_push pe) (px_logio pe) r (lv_st lv) = Some (res, sx1)"
      and w: "px_workers pe ?lv = Some lv1" and rest: "dispatch_all pe rs lv1 = Some lv'"
    have l: "live_inv ?lv" and s: "se_streams (lv_session ?lv) = se_streams (lv_session lv)"
      using dispatch_one_inv [OF p Cons.prems(2)] Cons.prems(3) by (simp_all add: lv_session_def)
    have m: "(worker_moves (px_env pe))\<^sup>*\<^sup>* ?lv lv1" using assms w by (simp add: workers_ok_def)
    have "se_goaway_deadline (lv_session lv1) = se_goaway_deadline (lv_session lv)"
      using workers_marks [OF m l] process_request_deadline [OF p] by (simp add: lv_session_def)
    then show ?case using Cons.IH [OF rest] workers_keep [OF m l] Cons.prems(3) s by simp
  qed
qed simp

lemma serve_part_deadline:
  assumes "workers_ok pe" and "hash_order_ok (px_env pe)" and "live_inv lv" and "serve_part pe b lv = Some (again, lv')"
  shows "se_goaway_deadline (lv_session lv') = se_goaway_deadline (lv_session lv)"
proof -
  obtain completed rd lv1 where l: "locked pe (drain_flush (px_env pe)) lv = Some ((completed, rd), lv1)"
    using assms(4) by (auto simp: serve_part_def split: bind_splits)
  have inv: "session_inv (lv_tasks lv) (sx_session (lv_st lv))" using assms(3) by (simp add: live_inv_session lv_session_def)
  then have h: "hash_inv (sx_session (lv_st lv))" by (simp add: session_inv_def)
  note d = drain_flush_inv [OF assms(2) inv]
  have 1: "live_inv lv1 \<and> se_goaway_deadline (lv_session lv1) = se_goaway_deadline (lv_session lv)"
    by (rule locked_deadline [OF assms(1,3) l])
      (use d drain_flush_deadline [OF assms(2) h] in \<open>simp add: lv_session_def\<close>)
  have "\<exists>sx'. drain_flush (px_env pe) (lv_st lv) = Some ((completed, rd), sx') \<and>
      se_streams (lv_session lv1) = se_streams (sx_session sx')"
    using locked_keeps [OF assms(1) l] d by blast
  then have c: "set completed \<subseteq> snd ` set (se_streams (lv_session lv1))" using d by fastforce
  show ?thesis
  proof (cases "se_ngh3_dead (lv_session lv1)")
    case False
    then obtain lv2 u lv3 where a: "dispatch_all pe completed lv1 = Some lv2"
      and f: "locked pe (last_flush (px_env pe)) lv2 = Some (u, lv3)"
      and lv': "lv' = note_activity pe (b \<or> rd \<or> completed \<noteq> []) lv3"
      using assms(4) l by (auto simp: serve_part_def split: bind_splits)
    have 2: "live_inv lv2" by (rule dispatch_all_keeps [OF assms(1) a]) (use 1 c in auto)
    have "live_inv lv3 \<and> se_goaway_deadline (lv_session lv3) = se_goaway_deadline (lv_session lv2)"
      by (rule locked_deadline [OF assms(1) 2 f])
        (use 2 last_flush_inv [OF assms(2)] last_flush_deadline [OF assms(2)] in \<open>simp add: live_inv_session lv_session_def\<close>)
    then show ?thesis using dispatch_all_deadline [OF assms(1) a] 1 c by (simp add: lv')
  qed (use assms(4) l 1 in \<open>auto simp: serve_part_def\<close>)
qed

section \<open>The first pass after the stop\<close>

lemma goaway_part_deadline:
  assumes "\<And>w. \<not> px_running pe w" and "\<And>w. 0 \<le> fst (apr_time_now (px_env pe) w)" and "goaway_part pe lv = Some (over, lv')"
  shows "if over then se_aborted (lv_session lv') else se_goaway_deadline (lv_session lv') \<noteq> 0"
proof -
  obtain drained lv1 where l: "locked pe (goaway_flush (px_env pe)) lv = Some (drained, lv1)"
    using assms(1,3) by (auto simp: goaway_part_def split: bind_splits)
  define lv2 where "lv2 = set_deadline pe (on_lv (on_session (\<lambda>se. se\<lparr>se_goaway_sent := True\<rparr>)) lv1)"
  obtain b lv3 where g: "goaway_over pe drained lv2 = (b, lv3)" by force
  have "se_goaway_deadline (lv_session lv2) \<noteq> 0"
    using assms(1,2) by (auto simp: lv2_def set_deadline_def tell_def apr_time_from_sec_def H3_GOAWAY_GRACE_SECS_def
        split: prod.splits) (smt (verit) fst_conv)
  then have "se_goaway_deadline (lv_session lv3) \<noteq> 0"
    using g by (auto simp: goaway_over_def tell_def lv_session_def split: if_splits prod.splits)
  then show ?thesis
    using assms(1,3) l g by (auto simp: goaway_part_def lv2_def split: if_splits bind_splits)
qed

lemma stopped_pass_marks:
  assumes "workers_ok pe" and "hash_order_ok (px_env pe)" and "live_inv lv"
    and "\<And>w. \<not> px_running pe w" and "\<And>w. 0 \<le> fst (apr_time_now (px_env pe) w)"
    and "service_session_pass pe lv = Some (res, lv')"
  shows "se_aborted (lv_session lv') \<or> se_goaway_deadline (lv_session lv') \<noteq> 0"
proof (cases "se_aborted (lv_session lv)")
  case False
  then obtain over lv1 where g: "goaway_part pe lv = Some (over, lv1)"
    using assms(6) by (auto simp: service_session_pass_def split: bind_splits)
  have 1: "live_inv lv1" by (rule goaway_part_keeps [OF assms(1-3) g])
  note marked = goaway_part_deadline [OF assms(4,5) g]
  obtain ok w where pool: "apr_pool_create (px_env pe) (lv_world lv1) = (ok, w)" by force
  show ?thesis
  proof (cases "over \<or> h3q_conn_is_closed (env_ssl (px_env pe)) (se_qconn (lv_session lv1)) (lv_world lv1) \<or> \<not> ok")
    case True
    then show ?thesis
      using assms(6) False g marked pool set_aborted_fields(1) [of lv1, unfolded lv_session_def]
      by (auto simp: service_session_pass_def lv_session_def split: if_splits)
  next
    case False
    then obtain n lv2 again lv3 where a: "accept_streams pe (False, 0) (on_lv (\<lambda>sx. sx\<lparr>sx_world := w\<rparr>) lv1) = Some (n, lv2)"
      and s: "serve_part pe (fst n) lv2 = Some (again, lv3)" and lv': "lv' = lv3"
      using assms(6) \<open>\<not> se_aborted (lv_session lv)\<close> g pool
      by (auto simp: service_session_pass_def split: bind_splits)
    have 2: "live_inv lv2" by (rule accept_streams_keeps [OF assms(1) a]) (simp add: 1)
    show ?thesis
      using serve_part_deadline [OF assms(1,2) 2 s] accept_streams_deadline [OF assms(1) a] 1 marked False
      by (simp add: lv' lv_session_def)
  qed
qed (use assms(6) in \<open>simp add: service_session_pass_def\<close>)

section \<open>The pass after the deadline\<close>

text \<open>Without tasks the workers can do nothing to the session.\<close>

lemma idle_move: "worker_moves env lv lv' \<Longrightarrow> lv_tasks lv = [] \<Longrightarrow> lv_tasks lv' = [] \<and> lv_session lv' = lv_session lv"
  by (auto elim!: worker_moves.cases simp: lv_session_def)

lemma idle_workers:
  "(worker_moves env)\<^sup>*\<^sup>* lv lv' \<Longrightarrow> lv_tasks lv = [] \<Longrightarrow> lv_tasks lv' = [] \<and> lv_session lv' = lv_session lv"
  by (induction rule: rtranclp_induct) (auto dest: idle_move)

lemma idle_locked:
  assumes "workers_ok pe" and "lv_tasks lv = []" and "locked pe f lv = Some (x, lv')"
    and "\<And>sx x sx'. f sx = Some (x, sx') \<Longrightarrow> same_hash (sx_session sx) (sx_session sx')"
  shows "lv_tasks lv' = [] \<and> same_hash (lv_session lv) (lv_session lv')"
proof -
  obtain sx' where f: "f (lv_st lv) = Some (x, sx')" and w: "px_workers pe (lv\<lparr>lv_st := sx'\<rparr>) = Some lv'"
    using assms(3) by (auto simp: locked_def split: bind_splits)
  have "(worker_moves (px_env pe))\<^sup>*\<^sup>* (lv\<lparr>lv_st := sx'\<rparr>) lv'" using assms(1) w by (simp add: workers_ok_def)
  from idle_workers [OF this] show ?thesis using assms(2) assms(4) [OF f] by (simp add: lv_session_def)
qed

lemma same_hash_trans: "same_hash a b \<Longrightarrow> same_hash b c \<Longrightarrow> same_hash a c"
  by (simp add: same_hash_def)

lemma goaway_flush_same:
  "hash_order_ok env \<Longrightarrow> goaway_flush env sx = Some (d, sx') \<Longrightarrow> same_hash (sx_session sx) (sx_session sx')"
  by (auto simp: goaway_flush_def split: bind_splits if_splits intro: flush_same same_hash_trans [OF call_ng_same])

lemma final_flush_same:
  "hash_order_ok env \<Longrightarrow> final_flush env sx = Some (u, sx') \<Longrightarrow> same_hash (sx_session sx) (sx_session sx')"
  by (auto simp: final_flush_def split: bind_splits intro: same_hash_trans [OF call_ng_same flush_same])

text \<open>A session that is done: no tasks, and aborted or past its deadline.\<close>

definition late :: "('w, 't) io_env \<Rightarrow> serviced \<Rightarrow> bool" where
  "late ie s \<longleftrightarrow>
     snd s = [] \<and> se_active_tasks (fst s) = 0 \<and>
     (se_aborted (fst s) \<or> se_goaway_deadline (fst s) \<noteq> 0 \<and>
       (\<forall>c w. se_goaway_deadline (fst s) \<le> fst (apr_time_now (px_env (ix_pass ie c)) w)))"

lemma late_over:
  assumes "se_goaway_deadline (lv_session lv) \<noteq> 0" and "\<forall>w. se_goaway_deadline (lv_session lv) \<le> fst (apr_time_now (px_env pe) w)"
  shows "\<exists>lv'. goaway_over pe drained lv = (True, lv') \<and> lv_tasks lv' = lv_tasks lv \<and> lv_session lv' = lv_session lv"
proof -
  obtain now w where n: "apr_time_now (px_env pe) (lv_world lv) = (now, w)" by force
  have "se_goaway_deadline (lv_session lv) \<le> now" using assms(2) n by (metis fst_conv)
  then show ?thesis using assms(1) n by (simp add: goaway_over_def tell_def lv_session_def)
qed

lemma late_pass:
  assumes "workers_ok pe" and "hash_order_ok (px_env pe)" and "\<And>w. \<not> px_running pe w" and "lv_tasks lv = []"
    and "se_aborted (lv_session lv) \<or> se_goaway_deadline (lv_session lv) \<noteq> 0 \<and>
      (\<forall>w. se_goaway_deadline (lv_session lv) \<le> fst (apr_time_now (px_env pe) w))"
    and "service_session_pass pe lv = Some (res, lv')"
  shows "se_aborted (lv_session lv') \<and> lv_tasks lv' = [] \<and> se_active_tasks (lv_session lv') = se_active_tasks (lv_session lv)"
proof (cases "se_aborted (lv_session lv)")
  case False
  then obtain over lv1 where p: "goaway_part pe lv = Some (over, lv1)"
    using assms(6) by (auto simp: service_session_pass_def split: bind_splits)
  obtain drained lv2 where l: "locked pe (goaway_flush (px_env pe)) lv = Some (drained, lv2)"
    using assms(3) p by (auto simp: goaway_part_def split: bind_splits)
  have 2: "lv_tasks lv2 = []" "same_hash (lv_session lv) (lv_session lv2)"
    using idle_locked [OF assms(1,4) l] goaway_flush_same [OF assms(2)] by blast+
  define lv3 where "lv3 = on_lv (on_session (\<lambda>se. se\<lparr>se_goaway_sent := True\<rparr>)) lv2"
  have 3: "lv_tasks lv3 = []" "same_hash (lv_session lv) (lv_session lv3)" using 2 by (simp_all add: lv3_def same_hash_def lv_session_def)
  have d: "se_goaway_deadline (lv_session lv3) = se_goaway_deadline (lv_session lv)" using 3 by (simp add: same_hash_def)
  have s: "set_deadline pe lv3 = lv3" using d assms(5) False by (simp add: set_deadline_def)
  obtain lv4 where o: "goaway_over pe drained lv3 = (True, lv4)" and 4: "lv_tasks lv4 = []" "lv_session lv4 = lv_session lv3"
    using late_over [of lv3 pe drained] d assms(5) False 3(1) by auto
  obtain u lv5 where f: "locked pe (final_flush (px_env pe)) lv4 = Some (u, lv5)" and over: "over" and lv1: "lv1 = set_aborted lv5"
    using assms(3) p l s o by (auto simp: goaway_part_def lv3_def split: bind_splits)
  have "lv_tasks lv5 = []" "same_hash (lv_session lv4) (lv_session lv5)"
    using idle_locked [OF assms(1) 4(1) f] final_flush_same [OF assms(2)] by blast+
  then have "lv_tasks lv1 = []" "se_active_tasks (lv_session lv1) = se_active_tasks (lv_session lv)"
    using 3(2) 4(2) by (simp_all add: lv1 same_hash_def)
  moreover have "lv' = lv1" using assms(6) False p over by (simp add: service_session_pass_def)
  ultimately show ?thesis by (simp add: lv1)
qed (use assms(4,6) in \<open>simp add: service_session_pass_def\<close>)

section \<open>The rounds\<close>

text \<open>
  What the environment is like in a round after the stop: the flag is cleared for the listener and
  for the passes, and an immediate close completes, as OpenSSL documents for a rapid shutdown.
\<close>

definition stopped_env :: "('w, 't) io_env \<Rightarrow> bool" where
  "stopped_env ie \<longleftrightarrow> (\<forall>w. \<not> ix_running ie w) \<and> (\<forall>c w. \<not> px_running (ix_pass ie c) w)"

definition rapid_ok :: "('w, 't) io_env \<Rightarrow> bool" where
  "rapid_ok ie \<longleftrightarrow> (\<forall>c conn code reason w. fst (SSL_shutdown_ex (env_ssl (px_env (ix_pass ie c))) conn True code reason w) = 1)"

lemma rapid_shutdown:
  "rapid_ok ie \<Longrightarrow> fst (h3q_conn_shutdown (env_ssl (px_env (ix_pass ie c))) conn True code reason w)"
  by (cases conn) (simp_all add: rapid_ok_def h3q_conn_shutdown_def Let_def case_prod_unfold)

lemma idle_sessions_move:
  "(sessions_move ie)\<^sup>*\<^sup>* x y \<Longrightarrow> \<forall>s\<in>set (fst x). snd s = [] \<Longrightarrow> fst y = fst x"
proof (induction rule: rtranclp_induct)
  case (step y z)
  from step(2) show ?case
  proof cases
    case (1 i ss se ts w c lv)
    have ts: "ts = []" using 1 step(3,4) nth_mem [of i ss] by fastforce
    then have "lv_tasks lv = [] \<and> lv_session lv = se"
      using idle_move [OF 1(5)] by (simp add: lv_session_def)
    then show ?thesis using 1 step(3,4) ts by (metis fst_conv list_update_id)
  qed
qed simp

lemma idle_run_workers:
  assumes "io_env_ok ie" and "\<forall>s\<in>set (io_active_sessions io). snd s = []" and "run_workers ie io w = Some (io', w')"
  shows "io' = io"
proof -
  obtain ss where r: "ix_workers ie (io_active_sessions io) w = Some (ss, w')" and io': "io' = io\<lparr>io_active_sessions := ss\<rparr>"
    using assms(3) by (auto simp: run_workers_def)
  have "(sessions_move ie)\<^sup>*\<^sup>* (io_active_sessions io, w) (ss, w')" using assms(1) r by (simp add: io_env_ok_def)
  from idle_sessions_move [OF this] show ?thesis using assms(2) io' by simp
qed

lemma late_service_one:
  assumes "io_env_ok ie" and "stopped_env ie" and "rapid_ok ie" and i: "i < length (io_active_sessions io)"
    and late: "late ie (io_active_sessions io ! i)" and one: "service_one ie i io w = Some ((again, gone), io', w')"
  shows "gone \<and> mset (io_active_sessions io') = mset (io_active_sessions io) - {# io_active_sessions io ! i #}"
proof -
  obtain se ts where s: "io_active_sessions io ! i = (se, ts)" by force
  let ?pe = "ix_pass ie (se_qconn se)"
  obtain n lv where p: "service_session_pass ?pe \<lparr>lv_st = with_session io se w, lv_tasks = ts\<rparr> = Some ((again, n), lv)"
    using one by (auto simp: service_one_def s Let_def split: bind_splits if_splits prod.splits)
  have "workers_ok ?pe" "hash_order_ok (px_env ?pe)" "\<And>w. \<not> px_running ?pe w"
    using assms(1,2) by (simp_all add: io_env_ok_def stopped_env_def)
  from late_pass [OF this _ _ p] have l: "se_aborted (lv_session lv)" "se_active_tasks (lv_session lv) = 0"
    using late by (auto simp: late_def s lv_session_def with_session_def)
  have nr: "\<not> ix_running ie (lv_world lv)" using assms(2) by (simp add: stopped_env_def)
  obtain w2 where sh: "h3q_conn_shutdown (env_ssl (px_env ?pe)) (se_qconn (lv_session lv)) True (se_abort_quic_error_code (lv_session lv))
      (if se_ngh3_dead (lv_session lv) then se_abort_reason (lv_session lv) else None) (lv_world lv) = (True, w2)"
    using rapid_shutdown [OF assms(3)] by (metis prod.collapse)
  have "gone \<and> io_active_sessions io' = swap_remove ((io_active_sessions io)[i := (lv_session lv, lv_tasks lv)]) i"
    using one unfolding service_one_def s
    by (simp add: p l nr sh Let_def) (auto simp: drop_session_def note_removed_def put_live_def Let_def split: bind_splits)
  then show ?thesis using i by (simp add: mset_swap_remove mset_update)
qed

lemma late_loop:
  assumes "io_env_ok ie" and "stopped_env ie" and "rapid_ok ie"
  shows "length (io_active_sessions io) = n \<Longrightarrow> \<forall>s\<in>set (io_active_sessions io). late ie s \<Longrightarrow>
    sessions_loop ie n 0 b io w = Some (work, io', w') \<Longrightarrow> io_active_sessions io' = []"
proof (induction n arbitrary: b io w)
  case (Suc n)
  obtain again gone io1 w1 io2 w2 where one: "service_one ie 0 io w = Some ((again, gone), io1, w1)"
    and r: "run_workers ie io1 w1 = Some (io2, w2)"
    and l: "sessions_loop ie n (if gone then 0 else Suc 0) (b \<or> again) io2 w2 = Some (work, io', w')"
    using Suc.prems(3) by (auto split: bind_splits)
  have 0: "0 < length (io_active_sessions io)" using Suc.prems(1) by simp
  have g: gone and m: "mset (io_active_sessions io1) = mset (io_active_sessions io) - {# io_active_sessions io ! 0 #}"
    using late_service_one [OF assms 0 _ one] Suc.prems(2) nth_mem [OF 0] by blast+
  have "set (io_active_sessions io1) \<subseteq> set (io_active_sessions io)"
    by (metis m diff_subset_eq_self set_mset_mono set_mset_mset)
  then have late: "\<forall>s\<in>set (io_active_sessions io1). late ie s" using Suc.prems(2) by blast
  have "length (io_active_sessions io1) = n"
    using arg_cong [OF m, of size] Suc.prems(1) nth_mem [OF 0] by (simp add: size_Diff_singleton)
  moreover have "io2 = io1" by (rule idle_run_workers [OF assms(1) _ r]) (use late in \<open>auto simp: late_def\<close>)
  ultimately show ?case using Suc.IH [of io2] late l g by simp
qed simp


section \<open>Every session gets a deadline\<close>

definition marked :: "serviced \<Rightarrow> bool" where
  "marked s \<longleftrightarrow> se_aborted (fst s) \<or> se_goaway_deadline (fst s) \<noteq> 0"

lemma sessions_move_marked:
  assumes "sessions_move ie x y" and "\<forall>s\<in>set (fst x). session_inv (snd s) (fst s)" and "j < length (fst x)" and "marked (fst x ! j)"
  shows "marked (fst y ! j)"
  using assms(1)
proof cases
  case (1 i ss se ts w c lv)
  have "session_inv ts se" using 1 assms(2) nth_mem [of i ss] by fastforce
  then have "se_aborted (lv_session lv) = se_aborted se \<and> se_goaway_deadline (lv_session lv) = se_goaway_deadline se"
    using worker_moves_marks [OF 1(5)] by (simp add: live_inv_session lv_session_def)
  then show ?thesis using 1 assms(3,4) by (cases "i = j") (auto simp: marked_def)
qed

lemma sessions_moves_marked:
  "(sessions_move ie)\<^sup>*\<^sup>* x y \<Longrightarrow> \<forall>s\<in>set (fst x). session_inv (snd s) (fst s) \<Longrightarrow> j < length (fst x) \<Longrightarrow> marked (fst x ! j) \<Longrightarrow>
   marked (fst y ! j)"
proof (induction rule: rtranclp_induct)
  case (step y z)
  then show ?case using sessions_moves_inv [OF step(1) step(4)] sessions_move_marked [OF step(2)] by simp
qed simp

lemma run_workers_marked:
  assumes "io_env_ok ie" and "io_ok s k io" and "run_workers ie io w = Some (io', w')" and "j < length (io_active_sessions io)"
    and "marked (io_active_sessions io ! j)"
  shows "marked (io_active_sessions io' ! j)"
proof -
  have "(sessions_move ie)\<^sup>*\<^sup>* (io_active_sessions io, w) (io_active_sessions io', w')"
    using assms(1,3) by (auto simp: run_workers_def io_env_ok_def)
  from sessions_moves_marked [OF this, of j] show ?thesis using assms(2,4,5) by (simp add: io_ok_def)
qed

definition clock_ok :: "('w, 't) io_env \<Rightarrow> bool" where
  "clock_ok ie \<longleftrightarrow> (\<forall>c w. 0 \<le> fst (apr_time_now (px_env (ix_pass ie c)) w))"

lemma nth_swap_remove: "j < i \<Longrightarrow> i < length xs \<Longrightarrow> swap_remove xs i ! j = xs ! j"
  by (simp add: swap_remove_def nth_butlast)

lemma service_one_marks:
  assumes "io_env_ok ie" and "stopped_env ie" and "clock_ok ie" and ok: "io_ok s k io" and i: "i < length (io_active_sessions io)"
    and one: "service_one ie i io w = Some ((again, gone), io', w')"
  shows "\<exists>x. (gone \<or> marked x) \<and> io_active_sessions io' =
    (if gone then swap_remove ((io_active_sessions io)[i := x]) i else (io_active_sessions io)[i := x])"
proof -
  obtain se ts where s: "io_active_sessions io ! i = (se, ts)" by force
  let ?pe = "ix_pass ie (se_qconn se)"
  obtain n lv where p: "service_session_pass ?pe \<lparr>lv_st = with_session io se w, lv_tasks = ts\<rparr> = Some ((again, n), lv)"
    using one by (auto simp: service_one_def s Let_def split: bind_splits if_splits prod.splits)
  have env: "workers_ok ?pe" "hash_order_ok (px_env ?pe)" "\<And>w. \<not> px_running ?pe w" "\<And>w. 0 \<le> fst (apr_time_now (px_env ?pe) w)"
    using assms(1-3) by (simp_all add: io_env_ok_def stopped_env_def clock_ok_def)
  have "session_inv ts se" using ok nth_mem [OF i] s by (fastforce simp: io_ok_def)
  then have "live_inv \<lparr>lv_st = with_session io se w, lv_tasks = ts\<rparr>"
    by (simp add: live_inv_session lv_session_def with_session_def)
  from stopped_pass_marks [OF env(1,2) this env(3,4) p] have m: "marked (lv_session lv, lv_tasks lv)" by (simp add: marked_def)
  have "io_active_sessions io' = (if gone then swap_remove ((io_active_sessions io)[i := (lv_session lv, lv_tasks lv)]) i
      else (io_active_sessions io)[i := (lv_session lv, lv_tasks lv)])"
    using one unfolding service_one_def s
    by (simp add: p Let_def)
      (auto simp: drop_session_def note_removed_def put_live_def Let_def split: bind_splits if_splits prod.splits)
  then show ?thesis using m by blast
qed

lemma sessions_loop_marks:
  assumes "io_env_ok ie" and "stopped_env ie" and "clock_ok ie"
  shows "io_ok s k io \<Longrightarrow> i + n = length (io_active_sessions io) \<Longrightarrow> \<forall>j<i. marked (io_active_sessions io ! j) \<Longrightarrow>
    sessions_loop ie n i b io w = Some (work, io', w') \<Longrightarrow> \<forall>s\<in>set (io_active_sessions io'). marked s"
proof (induction n arbitrary: i b io w)
  case (Suc n)
  obtain again gone io1 w1 io2 w2 where one: "service_one ie i io w = Some ((again, gone), io1, w1)"
    and r: "run_workers ie io1 w1 = Some (io2, w2)"
    and l: "sessions_loop ie n (if gone then i else Suc i) (b \<or> again) io2 w2 = Some (work, io', w')"
    using Suc.prems(4) by (auto split: bind_splits)
  have i: "i < length (io_active_sessions io)" using Suc.prems(2) by simp
  obtain x where x: "gone \<or> marked x" "io_active_sessions io1 =
      (if gone then swap_remove ((io_active_sessions io)[i := x]) i else (io_active_sessions io)[i := x])"
    using service_one_marks [OF assms Suc.prems(1) i one] by blast
  have 1: "io_ok s k io1" using service_one_ok [OF assms(1) Suc.prems(1) i one] by simp
  have m1: "marked (io_active_sessions io1 ! j) \<and> j < length (io_active_sessions io1)" if "j < (if gone then i else Suc i)" for j
    using that x Suc.prems(3) i by (cases "j = i") (auto simp: nth_swap_remove split: if_splits)
  have m2: "\<forall>j < (if gone then i else Suc i). marked (io_active_sessions io2 ! j)"
    using run_workers_marked [OF assms(1) 1 r] m1 by blast
  have "length (io_active_sessions io2) = length (io_active_sessions io1)" "io_ok s k io2" using run_workers_ok [OF assms(1) 1 r] by simp_all
  then show ?case
    by (intro Suc.IH [OF _ _ m2 l]) (use x Suc.prems(2) i in \<open>auto split: if_splits\<close>)
next
  case 0
  then show ?case by simp (metis in_set_conv_nth)
qed

text \<open>
  After one round with the flag cleared, every session that is left is aborted or has its deadline,
  so that the grace period runs for all of them.
\<close>

theorem stopped_round_marks:
  assumes "io_env_ok ie" and "stopped_env ie" and "clock_ok ie" and "io_ok st 0 io"
    and "event_round ie b io w = Some (work, io', w')"
  shows "\<forall>s\<in>set (io_active_sessions io'). marked s"
  using assms(5)
proof (rule event_round_parts)
  fix io1 w1 pumped w2 engine io2 w3
  assume r: "run_workers ie io (if b then w else wait_for_event ie io w) = Some (io1, w1)"
    and e: "engine = None \<longleftrightarrow> io_qengine io1 = None"
    and a: "intake ie (io1\<lparr>io_qengine := engine\<rparr>) (if pumped < 0 then ix_sleep ie w2 else w2) = Some (io2, w3)"
    and l: "sessions_loop ie (length (io_active_sessions io2)) 0 (pumped > 0) io2 w3 = Some (work, io', w')"
  have "io_ok st 0 (io1\<lparr>io_qengine := engine\<rparr>)"
    using run_workers_ok [OF assms(1,4) r] e by (simp add: io_ok_def io_static_def)
  then show ?thesis using sessions_loop_marks [OF assms(1-3) intake_ok [OF _ a] _ _ l] by simp
qed

section \<open>An example of the end\<close>

definition late_env :: "nat h3_env" where
  "late_env = demo_env\<lparr>apr_time_now := (\<lambda>w. (10, w)), env_ng := (env_ng demo_env)\<lparr>nghttp3_conn_is_drained2 := (\<lambda>w. False)\<rparr>\<rparr>"

definition late_ie :: "(nat, (string \<times> string) list) io_env" where
  "late_ie = demo_ie\<lparr>ix_pass := (\<lambda>c. demo_pe\<lparr>px_env := late_env, px_running := (\<lambda>w. False)\<rparr>), ix_running := (\<lambda>w. False)\<rparr>"

definition late_session :: h3_session where
  "late_session = (lv_session demo_live)\<lparr>se_goaway_deadline := 5\<rparr>"

definition late_io :: h3_io where
  "late_io = demo_io\<lparr>io_active_sessions := [(late_session, [])], io_active_session_count := 1, io_noted := 1\<rparr>"

lemma late_ie_ok: "io_env_ok late_ie" "stopped_env late_ie" "rapid_ok late_ie"
  using demo_env_ok(1)
  by (auto simp: io_env_ok_def late_ie_def demo_ie_def workers_ok_def demo_pe_def late_env_def hash_order_ok_def stopped_env_def
      rapid_ok_def demo_env_def quiet_env_def quiet_ssl_def)

lemma late_flush:
  "\<not> se_ngh3_dead (sx_session sx) \<Longrightarrow> se_blocked_streams (sx_session sx) = 0 \<Longrightarrow> se_pending_free (sx_session sx) = [] \<Longrightarrow>
   flush_nghttp3 late_env sx = Some sx"
  by (simp add: flush_nghttp3_def flush_loop.simps unblock_writable_streams_def free_pending_def call_ng_def late_env_def demo_env_def
      quiet_env_def quiet_ng_def on_session_def)

lemma late_session_fields:
  "\<not> se_ngh3_dead late_session" "se_blocked_streams late_session = 0" "se_pending_free late_session = []" "\<not> se_aborted late_session"
  "se_goaway_deadline late_session = 5" "se_active_tasks late_session = 0" "se_qconn late_session = Some 50"
  "se_streams late_session = [(0, 0)]" "se_store late_session 0 = (blank_stream 0 8)\<lparr>st_qstream := Some 7\<rparr>"
  by (simp_all add: late_session_def demo_live_def demo_st_def sample_session_def lv_session_def)

lemma late_late: "\<forall>s\<in>set (io_active_sessions late_io). late late_ie s"
  by (simp add: late_io_def late_def late_session_fields late_ie_def late_env_def)

lemma late_pass_runs:
  "\<exists>lv. service_session_pass (ix_pass late_ie c) \<lparr>lv_st = with_session io late_session w, lv_tasks = []\<rparr> = Some ((False, 0), lv) \<and>
     lv_session lv = late_session\<lparr>se_goaway_sent := True, se_aborted := True\<rparr>"
proof -
  let ?pe = "ix_pass late_ie c" and ?sx = "with_session io late_session w"
  have pe: "px_env ?pe = late_env" "px_workers ?pe = Some" "px_running ?pe = (\<lambda>w. False)" "px_draining ?pe = (\<lambda>w. False)"
    by (simp_all add: late_ie_def demo_pe_def)
  have ng: "call_ng late_env (nghttp3_conn_submit_shutdown_notice (env_ng late_env)) sx = Some ((), sx)"
    "call_ng late_env (nghttp3_conn_shutdown (env_ng late_env)) sx = Some ((), sx)"
    "\<not> nghttp3_conn_is_drained2 (env_ng late_env) w" "apr_time_now late_env w = (10, w)" for sx w
    by (simp_all add: call_ng_def late_env_def demo_env_def quiet_env_def quiet_ng_def)
  have sx: "sx_session ?sx = late_session" by (simp add: with_session_def)
  note fields = late_session_fields
  have f: "flush_nghttp3 late_env ?sx = Some ?sx" by (rule late_flush) (simp_all add: sx fields)
  have 1: "goaway_flush late_env ?sx = Some (False, ?sx)" by (simp add: goaway_flush_def ng f)
  have f2: "flush_nghttp3 late_env (on_session (\<lambda>se. se\<lparr>se_goaway_sent := True\<rparr>) ?sx) =
      Some (on_session (\<lambda>se. se\<lparr>se_goaway_sent := True\<rparr>) ?sx)"
    by (rule late_flush) (simp_all add: sx fields)
  then have 2: "final_flush late_env (on_session (\<lambda>se. se\<lparr>se_goaway_sent := True\<rparr>) ?sx) =
      Some ((), on_session (\<lambda>se. se\<lparr>se_goaway_sent := True\<rparr>) ?sx)" by (simp add: final_flush_def ng)
  show ?thesis
    by (simp add: service_session_pass_def goaway_part_def locked_def pe 1 2 [simplified on_session_def sx] set_deadline_def goaway_over_def tell_def ng sx fields
        lv_session_def lv_world_def on_lv_def set_aborted_def on_session_def)
qed

lemma late_sessions: "io_active_sessions late_io = [(late_session, [])]"
  by (simp add: late_io_def)

lemma late_cleanup: "\<exists>st. h3_stream_response_cleanup_locked (h3_stream_response_cancel_locked (se_store late_session 0)) = Some st"
  unfolding late_session_fields
  by (simp add: h3_stream_response_cleanup_locked_def h3_stream_response_cancel_locked_def cond_broadcast_def blank_stream_def
      fresh_response_def h3_response.defs h3_stream.defs free_chunks.simps)

lemma late_destroy:
  "\<exists>sx. h3_session_destroy late_env (with_session io (late_session\<lparr>se_goaway_sent := True, se_aborted := True\<rparr>) w) = Some sx"
proof -
  have "apr_hash_order late_env h = h" for h by (simp add: late_env_def demo_env_def quiet_env_def)
  then show ?thesis
    using late_cleanup by (auto simp: h3_session_destroy_def with_session_def late_session_fields(8) on_session_def on_world_def Let_def)
qed

lemma late_round: "\<exists>work io w. event_round late_ie True late_io 0 = Some (work, io, w)"
proof -
  obtain lv where p: "service_session_pass (ix_pass late_ie (Some 50)) \<lparr>lv_st = with_session late_io late_session 0, lv_tasks = []\<rparr> =
      Some ((False, 0), lv)" and se: "lv_session lv = late_session\<lparr>se_goaway_sent := True, se_aborted := True\<rparr>"
    using late_pass_runs by blast
  have env: "px_env (ix_pass late_ie c) = late_env" for c by (simp add: late_ie_def)
  have sh: "h3q_conn_shutdown (env_ssl late_env) c r code reason w = (True, w)" for c r code reason w
    by (simp add: h3q_conn_shutdown_def late_env_def demo_env_def quiet_env_def quiet_ssl_def split: option.split)
  have "\<exists>io w. service_one late_ie 0 late_io 0 = Some ((False, True), io, w)"
    using late_destroy [of "put_live 0 lv 0 late_io" "lv_world lv"] p se
    by (auto simp: service_one_def late_sessions late_session_fields env sh Let_def)
  then obtain io w where one: "service_one late_ie 0 late_io 0 = Some ((False, True), io, w)" by blast
  have rw: "run_workers late_ie io w = Some (io, w)" for io w by (simp add: run_workers_def late_ie_def demo_ie_def)
  have pump: "h3q_engine_pump (ix_handle_events late_ie) 0 (io_qengine late_io) = Some ((0, 0), io_qengine late_io)"
    by (simp add: h3q_engine_pump_def pump_loop.simps late_ie_def late_io_def demo_simps)
  have "intake late_ie late_io 0 = Some (late_io, 0)" by (simp add: intake_def late_ie_def)
  moreover have "length (io_active_sessions late_io) = Suc 0" by (simp add: late_io_def)
  ultimately show ?thesis by (simp add: event_round_def rw pump one) blast
qed


end
