(* ===== verification/H3X_Table.thy ===== *)
theory H3X_Table
  imports H3_Prelude
begin

text \<open>
  The example server \<^verbatim>\<open>examples/server.c\<close>, first part: the state of a connection (\<^verbatim>\<open>struct h3ssl\<close>), the
  table of its streams, and the nghttp3 callbacks. The example is independent of the module.

  A function that can end the process or step outside defined behaviour gives \<open>stop + 'a\<close>. The
  outside is a record \<open>ex_env\<close> of the calls the program makes, on an arbitrary type of worlds.
  \<open>xs_objs\<close> is not in the program: it lists the objects made and not yet released.
\<close>

section \<open>Results\<close>

datatype stop = Exited int | Aborted | Undefined

type_synonym 'a res = "stop + 'a"

definition rbind :: "'a res \<Rightarrow> ('a \<Rightarrow> 'b res) \<Rightarrow> 'b res" where
  "rbind x f = (case x of Inl e \<Rightarrow> Inl e | Inr v \<Rightarrow> f v)"

lemma rbind_simps [simp]: "rbind (Inl e) f = Inl e" "rbind (Inr v) f = f v"
  by (simp_all add: rbind_def)

lemma rbind_Inr: "rbind x f = Inr y \<longleftrightarrow> (\<exists>v. x = Inr v \<and> f v = Inr y)"
  by (cases x) simp_all

text \<open>A value that must be there, as with a pointer that is followed.\<close>

definition need :: "'a option \<Rightarrow> 'a res" where
  "need x = (case x of None \<Rightarrow> Inl Undefined | Some v \<Rightarrow> Inr v)"

lemma need_simps [simp]: "need None = Inl Undefined" "need (Some v) = Inr v"
  by (simp_all add: need_def)

lemma need_Inr: "need x = Inr v \<longleftrightarrow> x = Some v"
  by (cases x) simp_all

section \<open>State\<close>

type_synonym sptr = nat
type_synonym ngptr = nat

definition UINT64_MAX :: uint64_t where "UINT64_MAX = - 1"
definition MAXSSL_IDS :: nat where "MAXSSL_IDS = 20"
definition MAXURL :: nat where "MAXURL = 255"
definition CLIENTUNIOPEN :: int where "CLIENTUNIOPEN = 1"
definition CLIENTCLOSED :: int where "CLIENTCLOSED = 2"
definition INT_MAX :: int where "INT_MAX = 2147483647"

record ssl_id =
  sid_s :: "sptr option"
  sid_id :: uint64_t
  sid_status :: int

text \<open>Where \<^verbatim>\<open>ptr_data\<close> points: nowhere, at the fixed 20 bytes, or at a malloc'ed block.\<close>

datatype data_ptr = PNull | PNulldata | PHeap nat

record h3ssl =
  h_ssl_ids :: "ssl_id list"
  h_end_headers_received :: bool
  h_datadone :: bool
  h_has_uni :: bool
  h_close_done :: bool
  h_close_wait :: bool
  h_done :: bool
  h_received_from_two :: bool
  h_restart :: bool
  h_id_bidi :: uint64_t
  h_url :: "byte list"
  h_ptr_data :: data_ptr
  h_ldata :: "32 word"
  h_offset_data :: int

datatype ex_obj = ObjSSL sptr | ObjNg ngptr | ObjCtx nat | ObjFd int

record 'w ex_st =
  xs_world :: 'w
  xs_h3 :: h3ssl
  xs_heap :: "nat \<rightharpoonup> byte list"
  xs_objs :: "ex_obj list"

abbreviation on_h3 :: "(h3ssl \<Rightarrow> h3ssl) \<Rightarrow> 'w ex_st \<Rightarrow> 'w ex_st" where
  "on_h3 f st \<equiv> st\<lparr>xs_h3 := f (xs_h3 st)\<rparr>"

abbreviation xs_ids :: "'w ex_st \<Rightarrow> ssl_id list" where
  "xs_ids st \<equiv> h_ssl_ids (xs_h3 st)"

definition nulldata :: "byte list" where
  "nulldata = map of_nat [0..<20]"

definition free_slot :: ssl_id where
  "free_slot = \<lparr>sid_s = None, sid_id = UINT64_MAX, sid_status = 0\<rparr>"

definition init_ids :: h3ssl where
  "init_ids =
     \<lparr>h_ssl_ids = replicate MAXSSL_IDS free_slot, h_end_headers_received = False, h_datadone = False,
      h_has_uni = False, h_close_done = False, h_close_wait = False, h_done = False,
      h_received_from_two = False, h_restart = False, h_id_bidi = UINT64_MAX,
      h_url = replicate MAXURL 0, h_ptr_data = PNull, h_ldata = 0, h_offset_data = 0\<rparr>"

definition free_data :: "data_ptr \<Rightarrow> (nat \<rightharpoonup> byte list) \<Rightarrow> (nat \<rightharpoonup> byte list) res" where
  "free_data p h =
     (case p of
        PHeap a \<Rightarrow> if h a = None then Inl Undefined else Inr (h(a := None))
      | _ \<Rightarrow> Inr h)"

definition reuse_h3ssl :: "'w ex_st \<Rightarrow> 'w ex_st res" where
  "reuse_h3ssl st =
     rbind (free_data (h_ptr_data (xs_h3 st)) (xs_heap st)) (\<lambda>heap.
       Inr (st\<lparr>xs_heap := heap,
               xs_h3 := (xs_h3 st)\<lparr>h_end_headers_received := False, h_datadone := False, h_close_done := False,
                          h_close_wait := False, h_done := False, h_url := replicate MAXURL 0,
                          h_ptr_data := PNull, h_offset_data := 0, h_ldata := 0\<rparr>\<rparr>))"

section \<open>The table of streams\<close>

fun put_slot :: "uint64_t \<Rightarrow> sptr \<Rightarrow> ssl_id list \<Rightarrow> ssl_id list option" where
  "put_slot sid s [] = None"
| "put_slot sid s (x # xs) =
     (if sid_s x = None then Some (x\<lparr>sid_s := Some s, sid_id := sid\<rparr> # xs)
      else map_option ((#) x) (put_slot sid s xs))"

definition add_id :: "uint64_t \<Rightarrow> sptr \<Rightarrow> 'w ex_st \<Rightarrow> 'w ex_st res" where
  "add_id sid s st =
     (case put_slot sid s (xs_ids st) of
        None \<Rightarrow> Inl (Exited 1)
      | Some ids \<Rightarrow> Inr (on_h3 (\<lambda>h. h\<lparr>h_ssl_ids := ids\<rparr>) st))"

text \<open>The first slot with an id, changed.\<close>

fun upd_slot :: "uint64_t \<Rightarrow> (ssl_id \<Rightarrow> ssl_id) \<Rightarrow> ssl_id list \<Rightarrow> ssl_id list" where
  "upd_slot sid f [] = []"
| "upd_slot sid f (x # xs) = (if sid_id x = sid then f x # xs else x # upd_slot sid f xs)"

definition find_id :: "uint64_t \<Rightarrow> ssl_id list \<Rightarrow> ssl_id option" where
  "find_id sid ids = find (\<lambda>x. sid_id x = sid) ids"

definition ssl_free :: "(sptr \<Rightarrow> 'w \<Rightarrow> 'w) \<Rightarrow> sptr option \<Rightarrow> 'w ex_st \<Rightarrow> 'w ex_st" where
  "ssl_free f s st =
     (case s of
        None \<Rightarrow> st
      | Some p \<Rightarrow> st\<lparr>xs_world := f p (xs_world st), xs_objs := remove1 (ObjSSL p) (xs_objs st)\<rparr>)"

definition remove_id :: "(sptr \<Rightarrow> 'w \<Rightarrow> 'w) \<Rightarrow> uint64_t \<Rightarrow> 'w ex_st \<Rightarrow> 'w ex_st" where
  "remove_id f sid st =
     (if sid = UINT64_MAX then st
      else case find_id sid (xs_ids st) of
             None \<Rightarrow> st
           | Some x \<Rightarrow>
               on_h3 (\<lambda>h. h\<lparr>h_ssl_ids := upd_slot sid (\<lambda>_. free_slot) (h_ssl_ids h)\<rparr>) (ssl_free f (sid_s x) st))"

definition set_id_status :: "uint64_t \<Rightarrow> int \<Rightarrow> 'w ex_st \<Rightarrow> 'w ex_st res" where
  "set_id_status sid status st =
     (if find_id sid (xs_ids st) = None then Inl Aborted
      else Inr (on_h3 (\<lambda>h. h\<lparr>h_ssl_ids := upd_slot sid (\<lambda>x. x\<lparr>sid_status := status\<rparr>) (h_ssl_ids h)\<rparr>) st))"

definition are_all_clientid_closed :: "h3ssl \<Rightarrow> bool" where
  "are_all_clientid_closed h = list_all (\<lambda>x. sid_status x \<noteq> CLIENTUNIOPEN) (h_ssl_ids h)"

section \<open>The callbacks\<close>

definition set_url :: "byte list \<Rightarrow> 'w ex_st \<Rightarrow> 'w ex_st" where
  "set_url u st = on_h3 (\<lambda>h. h\<lparr>h_url := u\<rparr>) st"

text \<open>
  Writing \<open>bs\<close> at the start of a buffer, and \<^verbatim>\<open>memcpy (buf, buf + 1, n)\<close>. The regions of the latter
  overlap when \<open>n\<close> is at least 2, which is undefined unless the library's \<^verbatim>\<open>memcpy\<close> moves bytes the
  way \<^verbatim>\<open>memmove\<close> does (\<open>moves\<close>).
\<close>

definition write_buf :: "byte list \<Rightarrow> byte list \<Rightarrow> byte list res" where
  "write_buf bs buf = (if length bs > length buf then Inl Undefined else Inr (bs @ drop (length bs) buf))"

definition shift_buf :: "bool \<Rightarrow> size_t \<Rightarrow> byte list \<Rightarrow> byte list res" where
  "shift_buf moves n buf =
     (if unat n + 1 > length buf \<or> (\<not> moves \<and> unat n \<ge> 2) then Inl Undefined
      else write_buf (take (unat n) (tl buf)) buf)"

definition index_html :: "byte list" where
  "index_html = map (\<lambda>c. of_nat (of_char c)) ''index.html''"

definition ex_on_recv_header :: "bool \<Rightarrow> int \<Rightarrow> int \<Rightarrow> byte list \<Rightarrow> 'w ex_st \<Rightarrow> 'w ex_st res" where
  "ex_on_recv_header moves path_token token vvalue st =
     (if token \<noteq> path_token then Inr st
      else
        rbind (write_buf vvalue (h_url (xs_h3 st))) (\<lambda>u.
          let len = of_nat (length vvalue) :: size_t
          in if u ! 0 \<noteq> 47 then Inr (set_url u st)
             else if u ! 1 = 0
             then rbind (write_buf (index_html @ [0]) u) (\<lambda>u. Inr (set_url u st))
             else rbind (shift_buf moves (len - 1) u) (\<lambda>u. Inr (set_url (u[unat (len - 1) := 0]) st))))"

definition ex_on_end_headers :: "'w ex_st \<Rightarrow> 'w ex_st" where
  "ex_on_end_headers st = on_h3 (\<lambda>h. h\<lparr>h_end_headers_received := True\<rparr>) st"

definition ex_on_recv_data :: "byte list \<Rightarrow> 'w ex_st \<Rightarrow> 'w ex_st" where
  "ex_on_recv_data bs st = st"

definition ex_on_end_stream :: "'w ex_st \<Rightarrow> 'w ex_st" where
  "ex_on_end_stream st = on_h3 (\<lambda>h. h\<lparr>h_done := True\<rparr>) st"

text \<open>
  A vector nghttp3 hands out to be sent: bytes of its own, or a part of the response body, which it
  keeps as the pointer \<^verbatim>\<open>step_read_data\<close> gave.
\<close>

datatype vec = VOwn "byte list" | VData data_ptr int nat

datatype read_answer = ReadEnd | ReadVec vec bool

definition step_read_data :: "h3ssl \<Rightarrow> read_answer \<times> h3ssl" where
  "step_read_data h =
     (if h_datadone h then (ReadEnd, h)
      else if h_ldata h \<le> 4096
      then (ReadVec (VData (h_ptr_data h) (h_offset_data h) (unat (h_ldata h))) True, h\<lparr>h_datadone := True\<rparr>)
      else (ReadVec (VData (h_ptr_data h) (h_offset_data h) 4096) False,
            if h_ldata h = of_int INT_MAX then h
            else h\<lparr>h_offset_data := h_offset_data h + 4096, h_ldata := h_ldata h - 4096\<rparr>))"

definition ptr_bytes :: "(nat \<rightharpoonup> byte list) \<Rightarrow> data_ptr \<Rightarrow> byte list option" where
  "ptr_bytes heap p = (case p of PNull \<Rightarrow> None | PNulldata \<Rightarrow> Some nulldata | PHeap a \<Rightarrow> heap a)"

text \<open>The bytes of a vector: undefined when they are not in a block that is allocated.\<close>

definition vec_bytes :: "(nat \<rightharpoonup> byte list) \<Rightarrow> vec \<Rightarrow> byte list res" where
  "vec_bytes heap v =
     (case v of
        VOwn bs \<Rightarrow> Inr bs
      | VData p off n \<Rightarrow>
          if n = 0 then Inr []
          else rbind (need (ptr_bytes heap p)) (\<lambda>bs.
                 if 0 \<le> off \<and> nat off + n \<le> length bs then Inr (take n (drop (nat off) bs)) else Inl Undefined))"

definition vec_size :: "vec \<Rightarrow> nat" where
  "vec_size v = (case v of VOwn bs \<Rightarrow> length bs | VData p off n \<Rightarrow> n)"

text \<open>A call of nghttp3: the callbacks it makes one after the other, then its result.\<close>

datatype ('w, 'r) cb =
    CbRet 'r 'w
  | CbHeader int "byte list" "('w, 'r) cb"
  | CbEndHeaders "('w, 'r) cb"
  | CbRecvData "byte list" "('w, 'r) cb"
  | CbEndStream "('w, 'r) cb"
  | CbReadData "read_answer \<Rightarrow> ('w, 'r) cb"

primrec run_cb :: "bool \<Rightarrow> int \<Rightarrow> ('w, 'r) cb \<Rightarrow> 'w ex_st \<Rightarrow> ('r \<times> 'w ex_st) res" where
  "run_cb moves pt (CbRet r w) st = Inr (r, st\<lparr>xs_world := w\<rparr>)"
| "run_cb moves pt (CbHeader t v k) st = rbind (ex_on_recv_header moves pt t v st) (run_cb moves pt k)"
| "run_cb moves pt (CbEndHeaders k) st = run_cb moves pt k (ex_on_end_headers st)"
| "run_cb moves pt (CbRecvData bs k) st = run_cb moves pt k (ex_on_recv_data bs st)"
| "run_cb moves pt (CbEndStream k) st = run_cb moves pt k (ex_on_end_stream st)"
| "run_cb moves pt (CbReadData k) st =
     (case step_read_data (xs_h3 st) of (a, h) \<Rightarrow> run_cb moves pt (k a) (st\<lparr>xs_h3 := h\<rparr>))"

section \<open>The table as a map\<close>

text \<open>
  What the table promises: it is a map from stream ids to streams with a status, for at most 19
  streams beside the connection, which has the first slot and no id.
\<close>

type_synonym id_map = "uint64_t \<rightharpoonup> sptr \<times> int"

datatype table_op = Put uint64_t sptr | Del uint64_t | Mark uint64_t int

definition spec_op :: "table_op \<Rightarrow> id_map \<Rightarrow> id_map res" where
  "spec_op op m =
     (case op of
        Put k s \<Rightarrow> if card (dom m) < 19 then Inr (m(k \<mapsto> (s, 0))) else Inl (Exited 1)
      | Del k \<Rightarrow> Inr (m(k := None))
      | Mark k v \<Rightarrow> (case m k of None \<Rightarrow> Inl Aborted | Some (s, _) \<Rightarrow> Inr (m(k \<mapsto> (s, v)))))"

definition legal_op :: "table_op \<Rightarrow> id_map \<Rightarrow> bool" where
  "legal_op op m =
     (case op of Put k s \<Rightarrow> k \<noteq> UINT64_MAX \<and> m k = None | Del k \<Rightarrow> True | Mark k v \<Rightarrow> k \<noteq> UINT64_MAX)"

fun run_ops :: "('o \<Rightarrow> 't \<Rightarrow> 't res) \<Rightarrow> 'o list \<Rightarrow> 't \<Rightarrow> 't res" where
  "run_ops f [] t = Inr t"
| "run_ops f (op # ops) t = rbind (f op t) (run_ops f ops)"

fun legal_ops :: "table_op list \<Rightarrow> id_map \<Rightarrow> bool" where
  "legal_ops [] m = True"
| "legal_ops (op # ops) m \<longleftrightarrow>
     legal_op op m \<and> (case spec_op op m of Inl e \<Rightarrow> True | Inr m' \<Rightarrow> legal_ops ops m')"

locale stream_table =
  fixes tab_inv :: "'t \<Rightarrow> bool" and tab_view :: "'t \<Rightarrow> id_map" and tab_op :: "table_op \<Rightarrow> 't \<Rightarrow> 't res"
  assumes op_view: "tab_inv t \<Longrightarrow> legal_op op (tab_view t) \<Longrightarrow> map_sum (\<lambda>e. e) tab_view (tab_op op t) = spec_op op (tab_view t)"
    and op_inv: "tab_inv t \<Longrightarrow> legal_op op (tab_view t) \<Longrightarrow> tab_op op t = Inr t' \<Longrightarrow> tab_inv t'"
begin

lemma ops_view:
  "tab_inv t \<Longrightarrow> legal_ops ops (tab_view t) \<Longrightarrow>
   map_sum (\<lambda>e. e) tab_view (run_ops tab_op ops t) = run_ops spec_op ops (tab_view t)"
proof (induction ops arbitrary: t)
  case (Cons op ops)
  then have v: "map_sum (\<lambda>e. e) tab_view (tab_op op t) = spec_op op (tab_view t)" by (simp add: op_view)
  show ?case
  proof (cases "tab_op op t")
    case (Inl e)
    then show ?thesis using v [symmetric] by simp
  next
    case (Inr t')
    then have "spec_op op (tab_view t) = Inr (tab_view t')" using v [symmetric] by simp
    moreover have "tab_inv t'" using op_inv [OF _ _ Inr] Cons.prems by simp
    ultimately show ?thesis using Inr Cons by simp
  qed
qed simp

lemma ops_inv: "tab_inv t \<Longrightarrow> legal_ops ops (tab_view t) \<Longrightarrow> run_ops tab_op ops t = Inr t' \<Longrightarrow> tab_inv t'"
proof (induction ops arbitrary: t)
  case (Cons op ops)
  then obtain t1 where t1: "tab_op op t = Inr t1" "run_ops tab_op ops t1 = Inr t'" by (auto simp: rbind_Inr)
  then have "spec_op op (tab_view t) = Inr (tab_view t1)"
    using op_view [of t op] Cons.prems by simp
  moreover have "tab_inv t1" using op_inv [OF _ _ t1(1)] Cons.prems by simp
  ultimately show ?case using Cons t1(2) by simp
qed simp

end

definition slot_wf :: "ssl_id \<Rightarrow> bool" where
  "slot_wf x \<longleftrightarrow> (sid_s x = None \<longrightarrow> x = free_slot) \<and> (sid_s x \<noteq> None \<longrightarrow> sid_id x \<noteq> UINT64_MAX)"

definition streams_wf :: "ssl_id list \<Rightarrow> bool" where
  "streams_wf xs \<longleftrightarrow> list_all slot_wf xs \<and> distinct (map sid_id (filter (\<lambda>x. sid_s x \<noteq> None) xs))"

definition slots_ok :: "sptr \<Rightarrow> ssl_id list \<Rightarrow> bool" where
  "slots_ok c ids \<longleftrightarrow>
     (\<exists>x xs. ids = x # xs \<and> length ids = MAXSSL_IDS \<and> sid_s x = Some c \<and> sid_id x = UINT64_MAX \<and> streams_wf xs)"

definition slots_view :: "ssl_id list \<Rightarrow> id_map" where
  "slots_view ids k =
     (if k = UINT64_MAX then None
      else case find_id k ids of None \<Rightarrow> None | Some x \<Rightarrow> map_option (\<lambda>s. (s, sid_status x)) (sid_s x))"

lemma slot_wf_cases: "slot_wf x \<Longrightarrow> x = free_slot \<or> (\<exists>s. sid_s x = Some s \<and> sid_id x \<noteq> UINT64_MAX)"
  by (auto simp: slot_wf_def)

lemma free_slot_fields [simp]:
  "sid_s free_slot = None" "sid_id free_slot = UINT64_MAX" "slot_wf free_slot"
  by (simp_all add: free_slot_def slot_wf_def)

lemma find_id_simps [simp]:
  "find_id k [] = None" "find_id k (x # xs) = (if sid_id x = k then Some x else find_id k xs)"
  by (simp_all add: find_id_def)

lemma slots_view_Nil [simp]: "slots_view [] = Map.empty"
  by (simp add: slots_view_def fun_eq_iff)

lemma slots_view_free [simp]: "slots_view (free_slot # xs) = slots_view xs"
  by (auto simp: slots_view_def fun_eq_iff)

lemma slots_view_conn: "sid_id x = UINT64_MAX \<Longrightarrow> slots_view (x # xs) = slots_view xs"
  by (auto simp: slots_view_def fun_eq_iff)

lemma slots_view_used:
  "sid_s x = Some s \<Longrightarrow> sid_id x \<noteq> UINT64_MAX \<Longrightarrow>
   slots_view (x # xs) = (slots_view xs)(sid_id x \<mapsto> (s, sid_status x))"
  by (auto simp: slots_view_def fun_eq_iff)

lemma slots_view_None_iff:
  "list_all slot_wf xs \<Longrightarrow> k \<noteq> UINT64_MAX \<Longrightarrow>
   slots_view xs k = None \<longleftrightarrow> k \<notin> sid_id ` {y \<in> set xs. sid_s y \<noteq> None}"
proof (induction xs)
  case (Cons x xs)
  then consider "x = free_slot" | s where "sid_s x = Some s" "sid_id x \<noteq> UINT64_MAX"
    using slot_wf_cases by fastforce
  then show ?case
  proof cases
    case 1
    then show ?thesis using Cons by auto
  next
    case 2
    then show ?thesis using Cons by (auto simp: slots_view_used)
  qed
qed simp

lemma streams_wf_Cons:
  "streams_wf (x # xs) \<longleftrightarrow> slot_wf x \<and> streams_wf xs \<and> (sid_s x \<noteq> None \<longrightarrow> slots_view xs (sid_id x) = None)"
proof (cases "slot_wf x \<and> list_all slot_wf xs \<and> sid_s x \<noteq> None")
  case True
  then have "slots_view xs (sid_id x) = None \<longleftrightarrow> sid_id x \<notin> sid_id ` {y \<in> set xs. sid_s y \<noteq> None}"
    by (intro slots_view_None_iff) (auto simp: slot_wf_def)
  then show ?thesis using True by (auto simp: streams_wf_def)
qed (auto simp: streams_wf_def)

lemma streams_wf_cases:
  assumes "streams_wf (x # xs)"
  obtains "x = free_slot" "streams_wf xs"
    | s where "sid_s x = Some s" "sid_id x \<noteq> UINT64_MAX" "streams_wf xs" "slots_view xs (sid_id x) = None"
  using assms slot_wf_cases unfolding streams_wf_Cons by fastforce

lemma slots_used:
  "streams_wf xs \<Longrightarrow> finite (dom (slots_view xs)) \<and> card (dom (slots_view xs)) = length (filter (\<lambda>x. sid_s x \<noteq> None) xs)"
proof (induction xs)
  case (Cons x xs)
  from Cons.prems show ?case
  proof (cases rule: streams_wf_cases)
    case 1
    then show ?thesis using Cons by simp
  next
    case (2 s)
    then have "dom (slots_view (x # xs)) = insert (sid_id x) (dom (slots_view xs))" "sid_id x \<notin> dom (slots_view xs)"
      by (auto simp: slots_view_used split: if_splits)
    then show ?thesis using 2 Cons.IH by simp
  qed
qed simp

lemma put_slot_None: "put_slot k s xs = None \<longleftrightarrow> list_all (\<lambda>x. sid_s x \<noteq> None) xs"
  by (induction xs) auto

lemma put_slot_Some:
  "streams_wf xs \<Longrightarrow> k \<noteq> UINT64_MAX \<Longrightarrow> slots_view xs k = None \<Longrightarrow> put_slot k s xs = Some ys \<Longrightarrow>
   streams_wf ys \<and> length ys = length xs \<and> slots_view ys = (slots_view xs)(k \<mapsto> (s, 0))"
proof (induction xs arbitrary: ys)
  case (Cons x xs)
  from Cons.prems(1) show ?case
  proof (cases rule: streams_wf_cases)
    case 1
    then show ?thesis using Cons.prems
      by (auto simp: slots_view_used streams_wf_Cons slot_wf_def) (simp add: free_slot_def fun_upd_def)
  next
    case (2 t)
    then obtain zs where zs: "put_slot k s xs = Some zs" "ys = x # zs" using Cons.prems(4) by auto
    have k: "slots_view xs k = None" "k \<noteq> sid_id x" using Cons.prems(3) 2 by (auto simp: slots_view_used split: if_splits)
    then have "streams_wf zs \<and> length zs = length xs \<and> slots_view zs = (slots_view xs)(k \<mapsto> (s, 0))"
      using Cons.IH [OF 2(3) Cons.prems(2) _ zs(1)] by blast
    then show ?thesis using 2 k zs by (auto simp: slots_view_used streams_wf_Cons slot_wf_def fun_upd_twist)
  qed
qed simp

lemma find_id_None: "streams_wf xs \<Longrightarrow> k \<noteq> UINT64_MAX \<Longrightarrow> find_id k xs = None \<longleftrightarrow> slots_view xs k = None"
proof (induction xs)
  case (Cons x xs)
  from Cons.prems(1) show ?case
    by (cases rule: streams_wf_cases) (use Cons in \<open>auto simp: slots_view_used\<close>)
qed simp

lemma mark_slot:
  "streams_wf xs \<Longrightarrow> slots_view xs k = Some (s, v) \<Longrightarrow>
   streams_wf (upd_slot k (\<lambda>x. x\<lparr>sid_status := u\<rparr>) xs) \<and> slots_view (upd_slot k (\<lambda>x. x\<lparr>sid_status := u\<rparr>) xs) = (slots_view xs)(k \<mapsto> (s, u))"
proof (induction xs)
  case (Cons x xs)
  then have k: "k \<noteq> UINT64_MAX" by (auto simp: slots_view_def)
  from Cons.prems(1) show ?case
  proof (cases rule: streams_wf_cases)
    case 1
    then show ?thesis using Cons k by (auto simp: streams_wf_Cons)
  next
    case (2 t)
    then show ?thesis using Cons k by (auto simp: slots_view_used streams_wf_Cons slot_wf_def fun_upd_twist)
  qed
qed simp

lemma clear_slot:
  "streams_wf xs \<Longrightarrow> k \<noteq> UINT64_MAX \<Longrightarrow>
   streams_wf (upd_slot k (\<lambda>_. free_slot) xs) \<and> slots_view (upd_slot k (\<lambda>_. free_slot) xs) = (slots_view xs)(k := None)"
proof (induction xs)
  case (Cons x xs)
  from Cons.prems(1) show ?case
  proof (cases rule: streams_wf_cases)
    case 1
    then show ?thesis using Cons by (auto simp: streams_wf_Cons)
  next
    case (2 t)
    then show ?thesis using Cons by (auto simp: slots_view_used streams_wf_Cons slot_wf_def fun_upd_twist)
  qed
qed simp

lemma length_upd_slot [simp]: "length (upd_slot k f xs) = length xs"
  by (induction xs) auto

definition st_op :: "(sptr \<Rightarrow> 'w \<Rightarrow> 'w) \<Rightarrow> table_op \<Rightarrow> 'w ex_st \<Rightarrow> 'w ex_st res" where
  "st_op f op st =
     (case op of Put k s \<Rightarrow> add_id k s st | Del k \<Rightarrow> Inr (remove_id f k st) | Mark k v \<Rightarrow> set_id_status k v st)"

lemma slots_ok_view: "slots_ok c (x # xs) \<Longrightarrow> slots_view (x # xs) = slots_view xs"
  by (auto simp: slots_ok_def slots_view_conn)

lemma ssl_free_fields [simp]: "xs_h3 (ssl_free f s st) = xs_h3 st" "xs_heap (ssl_free f s st) = xs_heap st"
  by (simp_all add: ssl_free_def split: option.split)

lemma slots_okE:
  assumes "slots_ok c ids"
  obtains x xs where "ids = x # xs" "length xs = 19" "sid_s x = Some c" "sid_id x = UINT64_MAX" "streams_wf xs"
    "slots_view ids = slots_view xs"
  using assms slots_ok_view by (auto simp: slots_ok_def MAXSSL_IDS_def)

lemma slots_okI:
  "length xs = 19 \<Longrightarrow> sid_s x = Some c \<Longrightarrow> sid_id x = UINT64_MAX \<Longrightarrow> streams_wf xs \<Longrightarrow> slots_ok c (x # xs)"
  by (simp add: slots_ok_def MAXSSL_IDS_def)

lemma add_id_table:
  assumes "slots_ok c (xs_ids st)" "k \<noteq> UINT64_MAX" "slots_view (xs_ids st) k = None"
  shows "if card (dom (slots_view (xs_ids st))) < 19
         then \<exists>ids. add_id k s st = Inr (on_h3 (\<lambda>h. h\<lparr>h_ssl_ids := ids\<rparr>) st) \<and> slots_ok c ids \<and>
                slots_view ids = (slots_view (xs_ids st))(k \<mapsto> (s, 0))
         else add_id k s st = Inl (Exited 1)"
proof -
  from assms(1) obtain x xs where x: "xs_ids st = x # xs" "length xs = 19" "sid_s x = Some c" "sid_id x = UINT64_MAX" "streams_wf xs"
    "slots_view (xs_ids st) = slots_view xs" by (rule slots_okE)
  show ?thesis
  proof (cases "put_slot k s xs")
    case None
    then have "filter (\<lambda>x. sid_s x \<noteq> None) xs = xs" by (simp add: put_slot_None list.pred_set)
    then have "card (dom (slots_view (xs_ids st))) = 19" using slots_used [OF x(5)] x(2,6) by simp
    then show ?thesis using None x(1,3) by (simp add: add_id_def)
  next
    case (Some ys)
    then have ys: "streams_wf ys \<and> length ys = length xs \<and> slots_view ys = (slots_view xs)(k \<mapsto> (s, 0))"
      using put_slot_Some [OF x(5) assms(2) _ Some] assms(3) x(6) by simp
    from Some obtain y where "y \<in> set xs" "sid_s y = None"
      using put_slot_None [of k s xs] by (auto simp: list.pred_set)
    then have "length (filter (\<lambda>x. sid_s x \<noteq> None) xs) < 19" using x(2) length_filter_less by fastforce
    then have "card (dom (slots_view (xs_ids st))) < 19" using slots_used [OF x(5)] x(6) by simp
    moreover have "add_id k s st = Inr (on_h3 (\<lambda>h. h\<lparr>h_ssl_ids := x # ys\<rparr>) st)" using Some x(1,3) by (simp add: add_id_def)
    moreover have "slots_ok c (x # ys)" using ys x by (intro slots_okI) auto
    ultimately show ?thesis using ys x slots_ok_view [of c x ys] by auto
  qed
qed

lemma remove_id_table:
  assumes "slots_ok c (xs_ids st)"
  shows "slots_ok c (xs_ids (remove_id f k st)) \<and> slots_view (xs_ids (remove_id f k st)) = (slots_view (xs_ids st))(k := None)"
proof -
  from assms(1) obtain x xs where x: "xs_ids st = x # xs" "length xs = 19" "sid_s x = Some c" "sid_id x = UINT64_MAX" "streams_wf xs"
    "slots_view (xs_ids st) = slots_view xs" by (rule slots_okE)
  show ?thesis
  proof (cases "k = UINT64_MAX \<or> find_id k xs = None")
    case True
    have "slots_view (xs_ids st) k = None"
      using True x find_id_None [OF x(5)] by (cases "k = UINT64_MAX") (simp_all add: slots_view_def)
    then show ?thesis using True assms x by (auto simp: remove_id_def fun_upd_idem)
  next
    case False
    then have "xs_ids (remove_id f k st) = x # upd_slot k (\<lambda>_. free_slot) xs"
      using x by (auto simp: remove_id_def)
    moreover have "slots_ok c (x # upd_slot k (\<lambda>_. free_slot) xs)"
      using x False clear_slot [OF x(5)] by (intro slots_okI) auto
    ultimately show ?thesis using clear_slot [OF x(5), of k] False x slots_ok_view by auto
  qed
qed

lemma set_id_status_table:
  assumes "slots_ok c (xs_ids st)" "k \<noteq> UINT64_MAX"
  shows "case slots_view (xs_ids st) k of
           None \<Rightarrow> set_id_status k v st = Inl Aborted
         | Some (s, _) \<Rightarrow> \<exists>ids. set_id_status k v st = Inr (on_h3 (\<lambda>h. h\<lparr>h_ssl_ids := ids\<rparr>) st) \<and> slots_ok c ids \<and>
             slots_view ids = (slots_view (xs_ids st))(k \<mapsto> (s, v))"
proof -
  from assms(1) obtain x xs where x: "xs_ids st = x # xs" "length xs = 19" "sid_s x = Some c" "sid_id x = UINT64_MAX" "streams_wf xs"
    "slots_view (xs_ids st) = slots_view xs" by (rule slots_okE)
  show ?thesis
  proof (cases "slots_view xs k")
    case None
    then show ?thesis using x assms(2) find_id_None [OF x(5) assms(2)] by (auto simp: set_id_status_def)
  next
    case (Some p)
    obtain s u where p: "p = (s, u)" by (cases p)
    define ys where "ys = upd_slot k (\<lambda>x. x\<lparr>sid_status := v\<rparr>) xs"
    have ys: "streams_wf ys" "slots_view ys = (slots_view xs)(k \<mapsto> (s, v))" "length ys = 19"
      using mark_slot [OF x(5), of k s u v] Some p x(2) by (simp_all add: ys_def)
    then have ok: "slots_ok c (x # ys)" using x by (intro slots_okI) auto
    moreover have "set_id_status k v st = Inr (on_h3 (\<lambda>h. h\<lparr>h_ssl_ids := x # ys\<rparr>) st)"
      using x assms(2) Some find_id_None [OF x(5) assms(2)] by (auto simp: set_id_status_def ys_def)
    ultimately show ?thesis using Some p x(6) ys(2) slots_ok_view [OF ok] by auto
  qed
qed

lemma st_op_table:
  assumes ok: "slots_ok c (xs_ids st)" and legal: "legal_op op (slots_view (xs_ids st))"
  shows "case st_op f op st of
           Inl e \<Rightarrow> spec_op op (slots_view (xs_ids st)) = Inl e
         | Inr st' \<Rightarrow> slots_ok c (xs_ids st') \<and> spec_op op (slots_view (xs_ids st)) = Inr (slots_view (xs_ids st'))"
proof (cases op)
  case (Put k s)
  have "k \<noteq> UINT64_MAX" "slots_view (xs_ids st) k = None" using legal Put by (simp_all add: legal_op_def)
  from add_id_table [OF ok this, of s] show ?thesis
    using Put by (cases "card (dom (slots_view (xs_ids st))) < 19") (auto simp: st_op_def spec_op_def)
next
  case (Del k)
  then show ?thesis using remove_id_table [OF ok, of f k] by (simp add: st_op_def spec_op_def)
next
  case (Mark k v)
  then have "k \<noteq> UINT64_MAX" using legal by (simp add: legal_op_def)
  from set_id_status_table [OF ok this, of v] show ?thesis
    using Mark by (cases "slots_view (xs_ids st) k") (auto simp: st_op_def spec_op_def)
qed

interpretation id_table: stream_table "\<lambda>st. slots_ok c (xs_ids st)" "\<lambda>st. slots_view (xs_ids st)" "st_op f"
proof unfold_locales
  fix t :: "'a ex_st" and op
  assume a: "slots_ok c (xs_ids t)" "legal_op op (slots_view (xs_ids t))"
  show "map_sum (\<lambda>e. e) (\<lambda>st. slots_view (xs_ids st)) (st_op f op t) = spec_op op (slots_view (xs_ids t))"
    using st_op_table [OF a, of f] by (cases "st_op f op t") simp_all
next
  fix t t' :: "'a ex_st" and op
  assume a: "slots_ok c (xs_ids t)" "legal_op op (slots_view (xs_ids t))" and "st_op f op t = Inr t'"
  then show "slots_ok c (xs_ids t')" using st_op_table [OF a, of f] by simp
qed

text \<open>
  C32: Over any sequence of \<^verbatim>\<open>add_id\<close>, \<^verbatim>\<open>remove_id\<close> and \<^verbatim>\<open>set_id_status\<close> the 20 slots of the example server
  behave as a map from stream ids to streams with their status: each operation has the effect of
  its counterpart on maps, an addition beyond 19 streams exits, a status for an unknown id aborts,
  and the first slot keeps the connection.
\<close>

theorem slots_are_a_map:
  assumes "slots_ok c (xs_ids st)" and "legal_ops ops (slots_view (xs_ids st))"
  shows "map_sum (\<lambda>e. e) (\<lambda>st. slots_view (xs_ids st)) (run_ops (st_op f) ops st) = run_ops spec_op ops (slots_view (xs_ids st)) \<and>
    (\<forall>st'. run_ops (st_op f) ops st = Inr st' \<longrightarrow> slots_ok c (xs_ids st'))"
  using id_table.ops_view [OF assms] id_table.ops_inv [OF assms] by blast

section \<open>From the path to the file name\<close>

text \<open>The string a C function finds in a buffer, if it ends within it.\<close>

definition c_string :: "byte list \<Rightarrow> byte list option" where
  "c_string buf = (if 0 \<in> set buf then Some (takeWhile (\<lambda>b. b \<noteq> 0) buf) else None)"

definition url_string :: "'w ex_st \<Rightarrow> byte list option" where
  "url_string st = c_string (h_url (xs_h3 st))"

lemma takeWhile_nonzero: "0 \<notin> set bs \<Longrightarrow> takeWhile (\<lambda>b. b \<noteq> 0) (bs @ 0 # cs) = (bs :: byte list)"
  by (induction bs) auto

lemma c_string_append: "0 \<notin> set bs \<Longrightarrow> c_string (bs @ 0 # cs) = Some bs"
  by (simp add: c_string_def takeWhile_nonzero)

lemma c_string_padded:
  "0 \<notin> set bs \<Longrightarrow> length bs \<le> n \<Longrightarrow> c_string (bs @ replicate (n - length bs) 0) = (if length bs < n then Some bs else None)"
  by (cases "n - length bs") (auto simp: c_string_append, auto simp: c_string_def)

lemma write_url:
  "write_buf bs (replicate n 0) = (if length bs > n then Inl Undefined else Inr (bs @ replicate (n - length bs) 0))"
  by (simp add: write_buf_def)

lemma shift_url:
  assumes "length bs \<le> n" "n \<le> 255" "bs = b # cs" "0 \<notin> set bs"
  shows "rbind (shift_buf moves (of_nat (length bs) - 1) (bs @ replicate (n - length bs) 0)) (\<lambda>u. Inr (c_string (u[unat (of_nat (length bs) - 1 :: size_t) := 0]))) =
    (if moves \<or> length bs \<le> 2 then Inr (Some cs) else Inl Undefined)"
proof -
  have n: "unat (of_nat (length bs) - 1 :: size_t) = length cs" "length bs = Suc (length cs)"
    using assms by (simp_all add: unat_of_nat_id)
  have "(cs @ drop (length cs) (bs @ replicate (n - length bs) 0))[length cs := 0] =
      cs @ 0 # drop (Suc (length cs)) (bs @ replicate (n - length bs) 0)"
    using n(2) by (simp add: list_update_append Cons_nth_drop_Suc [symmetric] del: drop_append)
  then show ?thesis using assms n c_string_append [of cs] by (auto simp: shift_buf_def write_buf_def)
qed

text \<open>
  C33: What \<^verbatim>\<open>on_recv_header\<close> of the example server leaves in the cleared 255 bytes of \<^verbatim>\<open>url\<close> for any path:
  a path of more than 255 bytes is written beyond the buffer; \<^verbatim>\<open>/\<close> gives \<^verbatim>\<open>index.html\<close>; another path
  that begins with \<^verbatim>\<open>/\<close> gives the rest, \<^verbatim>\<open>..\<close> and further slashes included, provided \<^verbatim>\<open>memcpy\<close> copes with
  the overlapping copy of two or more bytes; any other path is kept, and left without an end if it
  fills the buffer.
\<close>

theorem path_to_url:
  assumes "h_url (xs_h3 st) = replicate MAXURL 0" and "0 \<notin> set path"
  shows "map_sum (\<lambda>e. e) url_string (ex_on_recv_header moves t t path st) =
     (if length path > 255 then Inl Undefined
      else if path = [47] then Inr (Some index_html)
      else if take 1 path = [47]
      then if moves \<or> length path \<le> 2 then Inr (Some (tl path)) else Inl Undefined
      else Inr (if length path < 255 then Some path else None))"
proof (cases "length path > 255")
  case True
  then show ?thesis using assms(1) by (simp add: ex_on_recv_header_def write_url MAXURL_def)
next
  case False
  let ?u = "path @ replicate (255 - length path) 0"
  have w: "write_buf path (h_url (xs_h3 st)) = Inr ?u" using False assms(1) by (simp add: write_url MAXURL_def)
  have url: "url_string (set_url u st) = c_string u" for u by (simp add: url_string_def set_url_def)
  show ?thesis
  proof (cases "take 1 path = [47]")
    case slash: True
    then obtain cs where cs: "path = 47 # cs" by (cases path) auto
    show ?thesis
    proof (cases "cs = []")
      case True
      then show ?thesis using cs w c_string_append [of index_html]
        by (simp add: ex_on_recv_header_def write_buf_def url index_html_def)
    next
      case False
      have "?u ! 1 \<noteq> 0" using cs False assms(2) by (cases cs) auto
      moreover have "length path \<le> 255" using \<open>\<not> 255 < length path\<close> by simp
      ultimately show ?thesis using cs False w shift_url [of path 255 47 cs moves] assms(2)
        by (cases "shift_buf moves (of_nat (length path) - 1) ?u") (simp_all add: ex_on_recv_header_def url)
    qed
  next
    case other: False
    have "?u ! 0 \<noteq> 47" using other by (cases path) auto
    then show ?thesis using False other w c_string_padded [of path 255] assms(2)
      by (auto simp: ex_on_recv_header_def url)
  qed
qed

section \<open>The response body\<close>

text \<open>The vectors \<open>n\<close> calls of \<^verbatim>\<open>step_read_data\<close> give, and the bytes of a list of vectors.\<close>

fun pull :: "nat \<Rightarrow> h3ssl \<Rightarrow> vec list \<times> h3ssl" where
  "pull 0 h = ([], h)"
| "pull (Suc n) h =
     (case step_read_data h of
        (ReadEnd, h') \<Rightarrow> ([], h')
      | (ReadVec v eof, h') \<Rightarrow> (case pull n h' of (vs, h'') \<Rightarrow> (v # vs, h'')))"

fun vecs_bytes :: "(nat \<rightharpoonup> byte list) \<Rightarrow> vec list \<Rightarrow> byte list res" where
  "vecs_bytes heap [] = Inr []"
| "vecs_bytes heap (v # vs) = rbind (vec_bytes heap v) (\<lambda>a. rbind (vecs_bytes heap vs) (\<lambda>b. Inr (a @ b)))"

definition pulls_for :: "nat \<Rightarrow> nat" where
  "pulls_for n = (n + 4095) div 4096"

text \<open>What is left of a body \<open>bs\<close> of which \<open>off\<close> bytes were given out.\<close>

definition body_left :: "(nat \<rightharpoonup> byte list) \<Rightarrow> nat \<Rightarrow> byte list \<Rightarrow> nat \<Rightarrow> h3ssl \<Rightarrow> bool" where
  "body_left heap p bs off h \<longleftrightarrow>
     \<not> h_datadone h \<and> h_ptr_data h = PHeap p \<and> (\<exists>rest. heap p = Some (bs @ rest)) \<and> off < length bs \<and> length bs < nat INT_MAX \<and>
     h_offset_data h = int off \<and> h_ldata h = of_nat (length bs - off)"

lemma body_piece:
  "heap p = Some (bs @ rest) \<Longrightarrow> off + n \<le> length bs \<Longrightarrow> 0 < n \<Longrightarrow> vec_bytes heap (VData (PHeap p) (int off) n) = Inr (take n (drop off bs))"
  by (simp add: vec_bytes_def ptr_bytes_def)

lemma body_left_size:
  assumes "body_left heap p bs off h"
  shows "unat (h_ldata h) = length bs - off"
proof -
  have "length bs - off < 2 ^ 32" "h_ldata h = of_nat (length bs - off)" using assms by (auto simp: body_left_def INT_MAX_def)
  then show ?thesis by (simp add: unat_of_nat_id del: of_nat_diff)
qed

lemma body_left_small:
  assumes "body_left heap p bs off h" "length bs - off \<le> 4096"
  shows "step_read_data h = (ReadVec (VData (PHeap p) (int off) (length bs - off)) True, h\<lparr>h_datadone := True\<rparr>)"
proof -
  have "unat (h_ldata h) = length bs - off" by (rule body_left_size [OF assms(1)])
  then have "h_ldata h \<le> 4096" using assms(2) by (simp add: word_le_nat_alt)
  then show ?thesis using assms \<open>unat (h_ldata h) = length bs - off\<close> by (simp add: step_read_data_def body_left_def)
qed

lemma body_left_large:
  assumes "body_left heap p bs off h" "length bs - off > 4096"
  shows "\<exists>h'. step_read_data h = (ReadVec (VData (PHeap p) (int off) 4096) False, h') \<and> body_left heap p bs (off + 4096) h'"
proof -
  have u: "unat (h_ldata h) = length bs - off" by (rule body_left_size [OF assms(1)])
  then have "\<not> h_ldata h \<le> 4096" using assms(2) by (simp add: word_le_nat_alt)
  moreover have "h_ldata h \<noteq> of_int INT_MAX"
  proof
    assume "h_ldata h = of_int INT_MAX"
    then have "length bs - off = nat INT_MAX" using u by (simp add: INT_MAX_def)
    then show False using assms by (auto simp: body_left_def)
  qed
  moreover have "h_ldata h - 4096 = of_nat (length bs - (off + 4096))"
    using assms by (simp add: body_left_def of_nat_diff)
  ultimately show ?thesis using assms by (auto simp: step_read_data_def body_left_def)
qed

lemma pull_body:
  "body_left heap p bs off h \<Longrightarrow> n = pulls_for (length bs - off) \<Longrightarrow>
   \<exists>vs h'. pull n h = (vs, h') \<and> h_datadone h' \<and> vecs_bytes heap vs = Inr (drop off bs) \<and> list_all (\<lambda>v. vec_size v \<le> 4096) vs"
proof (induction n arbitrary: off h)
  case 0
  then show ?case by (auto simp: pulls_for_def body_left_def div_eq_0_iff)
next
  case (Suc n)
  obtain rest where rest: "heap p = Some (bs @ rest)" "off < length bs" using Suc.prems(1) by (auto simp: body_left_def)
  show ?case
  proof (cases "length bs - off \<le> 4096")
    case True
    then have "n = 0" using Suc.prems(2) rest(2) by (simp add: pulls_for_def)
    then show ?thesis using body_left_small [OF Suc.prems(1) True] body_piece [of heap p bs rest off "length bs - off"] rest True
      by (simp add: vec_size_def)
  next
    case False
    then obtain h1 where h1: "step_read_data h = (ReadVec (VData (PHeap p) (int off) 4096) False, h1)" "body_left heap p bs (off + 4096) h1"
      using body_left_large [OF Suc.prems(1)] by auto
    have "n = pulls_for (length bs - (off + 4096))" using Suc.prems(2) False by (simp add: pulls_for_def)
    then obtain vs h' where "pull n h1 = (vs, h')" "h_datadone h'" "vecs_bytes heap vs = Inr (drop (off + 4096) bs)"
      "list_all (\<lambda>v. vec_size v \<le> 4096) vs"
      using Suc.IH [OF h1(2)] by blast
    moreover have "vec_bytes heap (VData (PHeap p) (int off) 4096) = Inr (take 4096 (drop off bs))"
      using body_piece [of heap p bs rest off 4096] rest False by simp
    moreover have "take 4096 (drop off bs) @ drop (off + 4096) bs = drop off bs"
      by (metis append_take_drop_id drop_drop add.commute)
    ultimately show ?thesis using h1(1) by (simp add: vec_size_def)
  qed
qed


section \<open>A connection as it starts\<close>

definition conn_ids :: "sptr \<Rightarrow> ssl_id list" where
  "conn_ids c = \<lparr>sid_s = Some c, sid_id = UINT64_MAX, sid_status = 0\<rparr> # replicate 19 free_slot"

lemma free_slots: "streams_wf (replicate n free_slot) \<and> slots_view (replicate n free_slot) = Map.empty"
  by (induction n) (auto simp: streams_wf_Cons streams_wf_def)

lemma conn_ids_ok: "slots_ok c (conn_ids c)" "slots_view (conn_ids c) = Map.empty"
  by (simp_all add: conn_ids_def slots_okI free_slots slots_view_conn)

lemma add_conn:
  "xs_ids st = h_ssl_ids init_ids \<Longrightarrow> add_id UINT64_MAX c st = Inr (on_h3 (\<lambda>h. h\<lparr>h_ssl_ids := conn_ids c\<rparr>) st)"
  by (simp add: add_id_def init_ids_def conn_ids_def MAXSSL_IDS_def free_slot_def numeral_eq_Suc)

definition new_st :: "nat ex_st" where
  "new_st = \<lparr>xs_world = 0, xs_h3 = init_ids\<lparr>h_ssl_ids := conn_ids 5\<rparr>, xs_heap = Map.empty, xs_objs = []\<rparr>"

definition new_ops :: "table_op list" where
  "new_ops = [Put 0 7, Put 2 8, Mark 2 CLIENTUNIOPEN, Del 0]"

theorem slots_are_a_map_witness:
  "\<exists>st'. run_ops (st_op (\<lambda>s w. w)) new_ops new_st = Inr st' \<and> slots_ok 5 (xs_ids st') \<and>
     slots_view (xs_ids st') 2 = Some (8, CLIENTUNIOPEN) \<and> slots_view (xs_ids st') 0 = None"
proof -
  have v: "xs_ids new_st = conn_ids 5" by (simp add: new_st_def)
  have s: "run_ops spec_op new_ops Map.empty = Inr [2 \<mapsto> (8, CLIENTUNIOPEN)]"
    by (auto simp: new_ops_def spec_op_def)
  moreover have "legal_ops new_ops Map.empty"
    by (simp add: new_ops_def spec_op_def legal_op_def UINT64_MAX_def)
  ultimately show ?thesis
    using slots_are_a_map [of 5 new_st new_ops "\<lambda>s w. w"] v conn_ids_ok [of 5]
    by (cases "run_ops (st_op (\<lambda>s w. w)) new_ops new_st") auto
qed

text \<open>The path \<^verbatim>\<open>//etc/passwd\<close> names an absolute file.\<close>

theorem path_to_url_witness:
  "map_sum (\<lambda>e. e) url_string (ex_on_recv_header True 1 1 (map (\<lambda>c. of_nat (of_char c)) ''//etc/passwd'') new_st) =
     Inr (Some (map (\<lambda>c. of_nat (of_char c)) ''/etc/passwd''))"
proof -
  have "h_url (xs_h3 new_st) = replicate MAXURL 0" by (simp add: new_st_def init_ids_def)
  then show ?thesis using path_to_url [of new_st "map (\<lambda>c. of_nat (of_char c)) ''//etc/passwd''" True 1] by simp
qed


end
