(* ===== verification/H3X_Poll.thy ===== *)
theory H3X_Poll
  imports H3X_Table H3Q_Transport
begin

text \<open>
  The example server, second part: reading a stream into nghttp3, opening the three streams of the
  server, and \<^verbatim>\<open>read_from_ssl_ids\<close>, which polls the connection with its streams and handles what happened.

  The events of a poll are a record of flags, one for each bit the program tests; \<open>ev_other\<close> is any
  other bit. SSL objects are told apart by numbers that are not used again, so that the id and the type
  of a stream, which never change, are functions of its number. A call of OpenSSL with NULL in place of an object is outside its contract.
\<close>

section \<open>The calls\<close>

record poll_event =
  ev_ISB :: bool
  ev_ISU :: bool
  ev_OSB :: bool
  ev_OSU :: bool
  ev_EC :: bool
  ev_ECD :: bool
  ev_R :: bool
  ev_ER :: bool
  ev_EW :: bool
  ev_other :: bool

definition no_event :: poll_event where
  "no_event = \<lparr>ev_ISB = False, ev_ISU = False, ev_OSB = False, ev_OSU = False, ev_EC = False, ev_ECD = False,
               ev_R = False, ev_ER = False, ev_EW = False, ev_other = False\<rparr>"

record 'w ex_env =
  ex_memcpy_moves :: bool
  ex_TOKEN__PATH :: int
  ex_SSL_free :: "sptr \<Rightarrow> 'w \<Rightarrow> 'w"
  ex_SSL_has_pending :: "sptr \<Rightarrow> 'w \<Rightarrow> bool"
  ex_SSL_read :: "sptr \<Rightarrow> nat \<Rightarrow> 'w \<Rightarrow> (int \<times> byte list) \<times> 'w"
  ex_SSL_get_error :: "sptr \<Rightarrow> int \<Rightarrow> 'w \<Rightarrow> ssl_error"
  ex_SSL_new_stream :: "sptr \<Rightarrow> 'w \<Rightarrow> sptr option \<times> 'w"
  ex_SSL_get_stream_id :: "sptr \<Rightarrow> uint64_t"
  ex_SSL_is_bidi :: "sptr \<Rightarrow> bool"
  ex_SSL_accept_stream :: "sptr \<Rightarrow> 'w \<Rightarrow> sptr option \<times> 'w"
  ex_SSL_poll :: "sptr list \<Rightarrow> 'w \<Rightarrow> (bool \<times> nat \<times> poll_event list) \<times> 'w"
  ex_conn_read_stream :: "ngptr \<Rightarrow> uint64_t \<Rightarrow> byte list \<Rightarrow> 'w \<Rightarrow> ('w, int) cb"
  ex_err_is_fatal :: "int \<Rightarrow> bool"
  ex_bind_qpack_streams :: "ngptr \<Rightarrow> uint64_t \<Rightarrow> uint64_t \<Rightarrow> 'w \<Rightarrow> bool \<times> 'w"
  ex_bind_control_stream :: "ngptr \<Rightarrow> uint64_t \<Rightarrow> 'w \<Rightarrow> bool \<times> 'w"

abbreviation ex_run_cb :: "('w, 'z) ex_env_scheme \<Rightarrow> ('w, 'r) cb \<Rightarrow> 'w ex_st \<Rightarrow> ('r \<times> 'w ex_st) res" where
  "ex_run_cb env \<equiv> run_cb (ex_memcpy_moves env) (ex_TOKEN__PATH env)"

abbreviation conn_ssl_of :: "'w ex_st \<Rightarrow> sptr res" where
  "conn_ssl_of st \<equiv> need (sid_s (xs_ids st ! 0))"

section \<open>Reading a stream\<close>

definition feed_nghttp3 ::
  "('w, 'z) ex_env_scheme \<Rightarrow> ngptr \<Rightarrow> uint64_t \<Rightarrow> int \<Rightarrow> byte list \<Rightarrow> 'w ex_st \<Rightarrow> (int \<times> 'w ex_st) res" where
  "feed_nghttp3 env ng sid ret bs st =
     (if \<not> h_received_from_two (xs_h3 st) \<and> sid \<noteq> 2
      then ex_run_cb env (ex_conn_read_stream env ng sid bs (xs_world st)) st
      else Inr (ret, st))"

definition quic_server_read ::
  "('w, 'z) ex_env_scheme \<Rightarrow> ngptr \<Rightarrow> sptr option \<Rightarrow> uint64_t \<Rightarrow> 'w ex_st \<Rightarrow> (int \<times> 'w ex_st) res" where
  "quic_server_read env ng stream sid st =
     rbind (need stream) (\<lambda>s.
       if \<not> ex_SSL_has_pending env s (xs_world st) then Inr (0, st)
       else case ex_SSL_read env s 16000 (xs_world st) of
              ((ret, bs), w) \<Rightarrow>
                let st = st\<lparr>xs_world := w\<rparr>
                in if ret \<le> 0
                   then Inr (if ex_SSL_get_error env s ret w = SSL_ERROR_WANT_READ then 0 else - 1, st)
                   else rbind (feed_nghttp3 env ng sid ret bs st) (\<lambda>(r, st).
                          if r = ret then Inr (1, st)
                          else if ex_err_is_fatal env r then Inr (- 1, st)
                          else Inr (1, if sid = 2 then on_h3 (\<lambda>h. h\<lparr>h_received_from_two := True\<rparr>) st else st)))"

section \<open>The streams of the server\<close>

definition new_uni :: "('w, 'z) ex_env_scheme \<Rightarrow> 'w ex_st \<Rightarrow> (sptr option \<times> 'w ex_st) res" where
  "new_uni env st =
     rbind (conn_ssl_of st) (\<lambda>c.
       case ex_SSL_new_stream env c (xs_world st) of
         (s, w) \<Rightarrow>
           Inr (s, st\<lparr>xs_world := w, xs_objs := (case s of None \<Rightarrow> [] | Some p \<Rightarrow> [ObjSSL p]) @ xs_objs st\<rparr>))"

definition bind_unis ::
  "('w, 'z) ex_env_scheme \<Rightarrow> ngptr \<Rightarrow> sptr \<Rightarrow> sptr \<Rightarrow> sptr \<Rightarrow> 'w ex_st \<Rightarrow> (int \<times> 'w ex_st) res" where
  "bind_unis env ng r p c st =
     (let w = xs_world st;
          rid = ex_SSL_get_stream_id env r; pid = ex_SSL_get_stream_id env p; cid = ex_SSL_get_stream_id env c
      in case ex_bind_qpack_streams env ng pid rid w of
           (failed, w) \<Rightarrow>
             if failed then Inr (- 1, st\<lparr>xs_world := w\<rparr>)
             else case ex_bind_control_stream env ng cid w of
                    (failed, w) \<Rightarrow>
                      let st = st\<lparr>xs_world := w\<rparr>
                      in if failed then Inr (- 1, st)
                         else rbind (add_id (ex_SSL_get_stream_id env r) r st) (\<lambda>st.
                              rbind (add_id (ex_SSL_get_stream_id env p) p st) (\<lambda>st.
                              rbind (add_id (ex_SSL_get_stream_id env c) c st) (\<lambda>st. Inr (0, st)))))"

definition quic_server_h3streams ::
  "('w, 'z) ex_env_scheme \<Rightarrow> ngptr \<Rightarrow> 'w ex_st \<Rightarrow> (int \<times> 'w ex_st) res" where
  "quic_server_h3streams env ng st =
     rbind (new_uni env st) (\<lambda>(r, st). case r of None \<Rightarrow> Inr (- 1, st) | Some r \<Rightarrow>
     rbind (new_uni env st) (\<lambda>(p, st). case p of None \<Rightarrow> Inr (- 1, st) | Some p \<Rightarrow>
     rbind (new_uni env st) (\<lambda>(c, st). case c of None \<Rightarrow> Inr (- 1, st) | Some c \<Rightarrow>
       bind_unis env ng r p c st)))"

section \<open>Polling\<close>

text \<open>
  A part of \<^verbatim>\<open>read_from_ssl_ids\<close> either returns from it (\<^const>\<open>Inl\<close>) or goes on with the count of things
  that happened (\<^const>\<open>Inr\<close>).
\<close>

type_synonym 'w part = "((int + int) \<times> 'w ex_st) res"

definition then_part :: "'w part \<Rightarrow> (int \<Rightarrow> 'w ex_st \<Rightarrow> 'w part) \<Rightarrow> 'w part" where
  "then_part x f = rbind x (\<lambda>(r, st). case r of Inl v \<Rightarrow> Inr (Inl v, st) | Inr n \<Rightarrow> f n st)"

definition restart_request :: "'w ex_st \<Rightarrow> 'w ex_st res" where
  "restart_request st = rbind (reuse_h3ssl st) (\<lambda>st. Inr (on_h3 (\<lambda>h. h\<lparr>h_restart := True\<rparr>) st))"

definition note_stream :: "('w, 'z) ex_env_scheme \<Rightarrow> sptr \<Rightarrow> uint64_t \<Rightarrow> 'w ex_st \<Rightarrow> 'w ex_st res" where
  "note_stream env s sid st =
     rbind (add_id sid s st) (\<lambda>st.
     rbind (if h_close_wait (xs_h3 st) then restart_request st else Inr st) (\<lambda>st.
       if ex_SSL_is_bidi env s
       then let old = h_id_bidi (xs_h3 st);
                st = (if old \<noteq> UINT64_MAX then remove_id (ex_SSL_free env) old st else st)
            in restart_request (on_h3 (\<lambda>h. h\<lparr>h_id_bidi := sid\<rparr>) st)
       else set_id_status sid CLIENTUNIOPEN st))"

definition accept_part :: "('w, 'z) ex_env_scheme \<Rightarrow> ngptr \<Rightarrow> poll_event \<Rightarrow> int \<Rightarrow> 'w ex_st \<Rightarrow> 'w part" where
  "accept_part env ng e n st =
     (if \<not> ev_ISB e \<and> \<not> ev_ISU e then Inr (Inr n, st)
      else rbind (conn_ssl_of st) (\<lambda>c.
        case ex_SSL_accept_stream env c (xs_world st) of
          (None, w) \<Rightarrow> Inr (Inl (- 1), st\<lparr>xs_world := w\<rparr>)
        | (Some s, w) \<Rightarrow>
            let st = st\<lparr>xs_world := w, xs_objs := ObjSSL s # xs_objs st\<rparr>; sid = ex_SSL_get_stream_id env s
            in rbind (note_stream env s sid st) (\<lambda>st.
               rbind (quic_server_read env ng (Some s) sid st) (\<lambda>(r, st).
                 Inr (if r = - 1 then Inl (- 1) else if r = 1 then Inr (n + 1) else Inr n, st)))))"

definition open_part :: "('w, 'z) ex_env_scheme \<Rightarrow> ngptr \<Rightarrow> poll_event \<Rightarrow> int \<Rightarrow> 'w ex_st \<Rightarrow> 'w part" where
  "open_part env ng e n st =
     (if ev_OSU e \<and> \<not> h_has_uni (xs_h3 st)
      then rbind (quic_server_h3streams env ng st) (\<lambda>(r, st).
             Inr (if r = - 1 then (Inl (- 1), st) else (Inr (n + 1), on_h3 (\<lambda>h. h\<lparr>h_has_uni := True\<rparr>) st)))
      else Inr (Inr n, st))"

definition close_part :: "poll_event \<Rightarrow> int \<Rightarrow> 'w ex_st \<Rightarrow> 'w part" where
  "close_part e n st =
     (let closing = ev_EC e \<and> \<not> h_restart (xs_h3 st);
          st = (if closing \<and> \<not> h_close_done (xs_h3 st) then on_h3 (\<lambda>h. h\<lparr>h_close_done := True\<rparr>) st
                else if closing then on_h3 (\<lambda>h. h\<lparr>h_done := True\<rparr>) st else st);
          n = (if ev_EC e then n + 1 else n);
          st = (if ev_ECD e then on_h3 (\<lambda>h. h\<lparr>h_done := True\<rparr>) st else st)
      in Inr (Inr (if ev_ECD e then n + 1 else n), st))"

text \<open>
  The bits of the connection's item that are handled, and those that are not: the message about the
  latter prints \<^verbatim>\<open>ssl_ids[i].id\<close> with \<^verbatim>\<open>i\<close> at the end of the array.
\<close>

definition conn_processed :: "poll_event \<Rightarrow> bool" where
  "conn_processed e \<longleftrightarrow> ev_ISB e \<or> ev_ISU e \<or> ev_OSB e \<or> ev_OSU e \<or> ev_EC e \<or> ev_ECD e"

definition conn_missed :: "poll_event \<Rightarrow> bool" where
  "conn_missed e \<longleftrightarrow> ev_R e \<or> ev_ER e \<or> ev_EW e \<or> ev_other e"

definition end_part :: "nat \<Rightarrow> nat \<Rightarrow> poll_event \<Rightarrow> int \<Rightarrow> 'w ex_st \<Rightarrow> 'w part" where
  "end_part result_count numitem e n st =
     (if conn_missed e then Inl Undefined
      else Inr (if (result_count = 1 \<and> \<not> conn_processed e) \<or> numitem \<le> 1 then Inl n else Inr n, st))"

text \<open>
  Item \<open>i\<close> of the poll, which the program takes for slot \<open>i\<close> of the table.
\<close>

definition slot_R :: "('w, 'z) ex_env_scheme \<Rightarrow> ngptr \<Rightarrow> nat \<Rightarrow> poll_event \<Rightarrow> 'w ex_st \<Rightarrow> (int \<times> 'w ex_st) res" where
  "slot_R env ng i e st =
     (if ev_R e then quic_server_read env ng (sid_s (xs_ids st ! i)) (sid_id (xs_ids st ! i)) st else Inr (1, st))"

definition slot_ER :: "nat \<Rightarrow> poll_event \<Rightarrow> int \<Rightarrow> 'w ex_st \<Rightarrow> int \<times> 'w ex_st" where
  "slot_ER i e n st =
     (let x = xs_ids st ! i
      in if ev_ER e \<and> sid_status x = CLIENTUNIOPEN
         then (n + 1, on_h3 (\<lambda>h. h\<lparr>h_ssl_ids := (h_ssl_ids h)[i := x\<lparr>sid_status := sid_status x OR CLIENTCLOSED\<rparr>]\<rparr>) st)
         else (n, st))"

definition slot_EW :: "('w, 'z) ex_env_scheme \<Rightarrow> nat \<Rightarrow> poll_event \<Rightarrow> int \<Rightarrow> 'w ex_st \<Rightarrow> (bool \<times> int \<times> 'w ex_st) res" where
  "slot_EW env i e n st =
     (if \<not> ev_EW e then Inr (True, n, st)
      else rbind (need (sid_s (xs_ids st ! i))) (\<lambda>_.
             let sid = sid_id (xs_ids st ! i)
             in Inr (if sid = h_id_bidi (xs_h3 st) \<and> h_close_wait (xs_h3 st)
                     then (True, n + 1, on_h3 (\<lambda>h. h\<lparr>h_id_bidi := UINT64_MAX, h_done := True\<rparr>)
                                         (remove_id (ex_SSL_free env) sid st))
                     else (False, n, st))))"

definition slot_missed :: "poll_event \<Rightarrow> bool \<Rightarrow> bool" where
  "slot_missed e ew_done \<longleftrightarrow>
     ev_ISB e \<or> ev_ISU e \<or> ev_OSB e \<or> ev_OSU e \<or> ev_EC e \<or> ev_ECD e \<or> ev_other e \<or> \<not> ew_done"

definition slot_part :: "('w, 'z) ex_env_scheme \<Rightarrow> ngptr \<Rightarrow> nat \<Rightarrow> poll_event \<Rightarrow> int \<Rightarrow> 'w ex_st \<Rightarrow> 'w part" where
  "slot_part env ng i e n st =
     rbind (slot_R env ng i e st) (\<lambda>(r, st).
       if r = 0 then Inr (Inr n, st)
       else if r = - 1 then Inr (Inl (- 1), st)
       else case slot_ER i e (if ev_R e then n + 1 else n) st of
              (n, st) \<Rightarrow>
                rbind (slot_EW env i e n st) (\<lambda>(ew_done, n, st).
                  if slot_missed e ew_done
                  then rbind (need (sid_s (xs_ids st ! i))) (\<lambda>_. Inr (Inr n, st))
                  else Inr (Inr n, st)))"

fun slots_part :: "('w, 'z) ex_env_scheme \<Rightarrow> ngptr \<Rightarrow> nat \<Rightarrow> poll_event list \<Rightarrow> int \<Rightarrow> 'w ex_st \<Rightarrow> 'w part" where
  "slots_part env ng i [] n st = Inr (Inr n, st)"
| "slots_part env ng i (e # es) n st = then_part (slot_part env ng i e n st) (slots_part env ng (Suc i) es)"

definition poll_items :: "ssl_id list \<Rightarrow> sptr list" where
  "poll_items ids = List.map_filter sid_s ids"

definition handle_events :: "('w, 'z) ex_env_scheme \<Rightarrow> ngptr \<Rightarrow> nat \<Rightarrow> nat \<Rightarrow> poll_event list \<Rightarrow> 'w ex_st \<Rightarrow> 'w part" where
  "handle_events env ng result_count numitem es st =
     (let e = (case es of [] \<Rightarrow> no_event | e # _ \<Rightarrow> e)
      in then_part (accept_part env ng e 0 st) (\<lambda>n st.
         then_part (open_part env ng e n st) (\<lambda>n st.
         then_part (close_part e n st) (\<lambda>n st.
         then_part (end_part result_count numitem e n st) (slots_part env ng 1 (tl es))))))"

definition read_from_ssl_ids :: "('w, 'z) ex_env_scheme \<Rightarrow> ngptr \<Rightarrow> 'w ex_st \<Rightarrow> (int \<times> 'w ex_st) res" where
  "read_from_ssl_ids env ng st =
     (let items = poll_items (xs_ids st)
      in case ex_SSL_poll env items (xs_world st) of
           ((ok, result_count, revents), w) \<Rightarrow>
             let st = st\<lparr>xs_world := w\<rparr>
             in if \<not> ok then Inl Aborted
                else if result_count = 0 then Inr (0, st)
                else rbind (handle_events env ng result_count (length items) (take (length items) revents) st)
                       (\<lambda>(r, st). Inr (case r of Inl v \<Rightarrow> v | Inr n \<Rightarrow> n, st)))"

section \<open>What every part keeps\<close>

primrec cb_worlds :: "('w, 'r) cb \<Rightarrow> 'w set" where
  "cb_worlds (CbRet r w) = {w}"
| "cb_worlds (CbHeader t v k) = cb_worlds k"
| "cb_worlds (CbEndHeaders k) = cb_worlds k"
| "cb_worlds (CbRecvData bs k) = cb_worlds k"
| "cb_worlds (CbEndStream k) = cb_worlds k"
| "cb_worlds (CbReadData k) = (\<Union>a. cb_worlds (k a))"

definition ex_core :: "'w ex_st \<Rightarrow> _" where
  "ex_core st = (xs_world st, xs_heap st, xs_objs st, xs_ids st, h_ptr_data (xs_h3 st), length (h_url (xs_h3 st)))"

lemma write_buf_length: "write_buf bs buf = Inr u \<Longrightarrow> length u = length buf"
  by (auto simp: write_buf_def split: if_splits)

lemma shift_buf_length: "shift_buf m n buf = Inr u \<Longrightarrow> length u = length buf"
  by (auto simp: shift_buf_def split: if_splits dest: write_buf_length)

lemma set_url_core: "length u = length (h_url (xs_h3 st)) \<Longrightarrow> ex_core (set_url u st) = ex_core st"
  by (simp add: ex_core_def set_url_def)

lemma recv_header_core:
  assumes "ex_on_recv_header m pt t v st = Inr st'"
  shows "ex_core st' = ex_core st"
proof (cases "t = pt")
  case True
  then obtain u where u: "write_buf v (h_url (xs_h3 st)) = Inr u"
    using assms by (auto simp: ex_on_recv_header_def rbind_Inr)
  let ?n = "of_nat (length v) - 1 :: size_t"
  have "\<exists>u'. st' = set_url u' st \<and> length u' = length u"
    using assms True u write_buf_length [of "index_html @ [0]" u] shift_buf_length [of m ?n u]
    by (cases "u ! 0 = 47"; cases "u ! 1 = 0") (auto simp: ex_on_recv_header_def rbind_Inr Let_def)
  then show ?thesis using write_buf_length [OF u] set_url_core by auto
qed (use assms in \<open>simp add: ex_on_recv_header_def\<close>)

lemma step_read_data_core:
  "h_ssl_ids (snd (step_read_data h)) = h_ssl_ids h" "h_ptr_data (snd (step_read_data h)) = h_ptr_data h"
  "h_url (snd (step_read_data h)) = h_url h"
  by (simp_all add: step_read_data_def)

lemma run_cb_core:
  "run_cb m pt t st = Inr (r, st') \<Longrightarrow> xs_world st' \<in> cb_worlds t \<and> ex_core st' = ex_core (st\<lparr>xs_world := xs_world st'\<rparr>)"
proof (induction t arbitrary: st)
  case (CbHeader tok v t)
  then obtain st1 where st1: "ex_on_recv_header m pt tok v st = Inr st1" "run_cb m pt t st1 = Inr (r, st')"
    by (auto simp: rbind_Inr)
  then show ?case using CbHeader.IH [OF st1(2)] recv_header_core [OF st1(1)] by (auto simp: ex_core_def)
next
  case (CbReadData k)
  obtain a h where ah: "step_read_data (xs_h3 st) = (a, h)" by fastforce
  then have "run_cb m pt (k a) (st\<lparr>xs_h3 := h\<rparr>) = Inr (r, st')" using CbReadData.prems by simp
  then show ?case using CbReadData.IH [of "k a"] ah step_read_data_core [of "xs_h3 st"] by (fastforce simp: ex_core_def)
next
  case (CbEndHeaders t)
  then show ?case by (fastforce simp: ex_on_end_headers_def ex_core_def)
next
  case (CbRecvData bs t)
  then show ?case by (fastforce simp: ex_on_recv_data_def ex_core_def)
next
  case (CbEndStream t)
  then show ?case by (fastforce simp: ex_on_end_stream_def ex_core_def)
qed (auto simp: ex_core_def)

text \<open>
  An invariant \<open>I\<close> of the state of a connection, with \<open>R\<close> for what calls do to the world: the laws that
  carry it through \<^verbatim>\<open>read_from_ssl_ids\<close>.
\<close>

locale ex_invariant =
  fixes env :: "('w, 'z) ex_env_scheme" and I :: "'w ex_st \<Rightarrow> bool" and R :: "'w \<Rightarrow> 'w \<Rightarrow> bool"
  assumes core_law: "I st \<Longrightarrow> ex_core st' = ex_core st \<Longrightarrow> I st'"
    and world_law: "I st \<Longrightarrow> R (xs_world st) w \<Longrightarrow> I (st\<lparr>xs_world := w\<rparr>)"
    and reuse_law: "I st \<Longrightarrow> reuse_h3ssl st = Inr st' \<Longrightarrow> I st'"
    and status_law: "I st \<Longrightarrow> sid_status (xs_ids st ! i) = CLIENTUNIOPEN \<Longrightarrow> I (on_h3 (\<lambda>h. h\<lparr>h_ssl_ids := (xs_ids st)[i := (xs_ids st ! i)\<lparr>sid_status := v\<rparr>]\<rparr>) st)"
    and mark_law: "I st \<Longrightarrow> set_id_status k v st = Inr st' \<Longrightarrow> I st'"
    and remove_law: "I st \<Longrightarrow> I (remove_id (ex_SSL_free env) k st)"
    and accept_law: "I st \<Longrightarrow> sid_s (xs_ids st ! 0) = Some c \<Longrightarrow> ex_SSL_accept_stream env c (xs_world st) = (Some s, w) \<Longrightarrow>
      add_id (ex_SSL_get_stream_id env s) s (st\<lparr>xs_world := w, xs_objs := ObjSSL s # xs_objs st\<rparr>) = Inr st' \<Longrightarrow> I st'"
    and unis_law: "I st \<Longrightarrow> quic_server_h3streams env ng st = Inr (r, st') \<Longrightarrow> I st'"
    and accept_R: "ex_SSL_accept_stream env c w = (x, w') \<Longrightarrow> R w w'"
    and read_R: "ex_SSL_read env s n w = (y, w') \<Longrightarrow> R w w'"
    and poll_R: "ex_SSL_poll env items w = (z, w') \<Longrightarrow> R w w'"
    and nghttp3_R: "w' \<in> cb_worlds (ex_conn_read_stream env ng k bs w) \<Longrightarrow> R w w'"
begin

lemma cb_I:
  assumes "I st" "run_cb m pt t st = Inr (r, st')" "\<And>w. w \<in> cb_worlds t \<Longrightarrow> R (xs_world st) w"
  shows "I st'"
  using run_cb_core [OF assms(2)] world_law [OF assms(1), of "xs_world st'"] assms(3) core_law by blast

lemma flags_I: "I st \<Longrightarrow> ex_core (on_h3 f st) = ex_core st \<Longrightarrow> I (on_h3 f st)"
  by (rule core_law)

lemma feed_I: "I st \<Longrightarrow> feed_nghttp3 env ng k ret bs st = Inr (r, st') \<Longrightarrow> I st'"
  by (auto simp: feed_nghttp3_def split: if_splits intro: cb_I nghttp3_R)

lemma read_I:
  assumes "I st" "quic_server_read env ng s k st = Inr (r, st')"
  shows "I st'"
proof -
  obtain p where p: "s = Some p" using assms(2) by (auto simp: quic_server_read_def rbind_Inr need_Inr)
  obtain ret bs w where r: "ex_SSL_read env p 16000 (xs_world st) = ((ret, bs), w)" by (metis prod.exhaust)
  have I1: "I (st\<lparr>xs_world := w\<rparr>)" using assms(1) read_R [OF r] world_law by blast
  consider "st' = st" | "st' = st\<lparr>xs_world := w\<rparr>"
    | r1 st1 where "feed_nghttp3 env ng k ret bs (st\<lparr>xs_world := w\<rparr>) = Inr (r1, st1)"
        "st' = st1 \<or> st' = on_h3 (\<lambda>h. h\<lparr>h_received_from_two := True\<rparr>) st1"
    using assms(2) p r by (auto simp: quic_server_read_def rbind_Inr Let_def split: if_splits)
  then show ?thesis
  proof cases
    case 3
    then have "I st1" using feed_I [OF I1] by blast
    then show ?thesis using 3(2) flags_I [of st1] by (auto simp: ex_core_def)
  qed (use assms(1) I1 in auto)
qed

lemma restart_I: "I st \<Longrightarrow> restart_request st = Inr st' \<Longrightarrow> I st'"
  by (auto simp: restart_request_def rbind_Inr ex_core_def intro!: flags_I dest: reuse_law)

end

context ex_invariant
begin

lemma note_stream_I:
  assumes "note_stream env s k st = Inr st'" "\<And>st1. add_id k s st = Inr st1 \<Longrightarrow> I st1"
  shows "I st'"
proof -
  obtain st1 st2 where 1: "add_id k s st = Inr st1"
      "(if h_close_wait (xs_h3 st1) then restart_request st1 else Inr st1) = Inr st2"
      "(if ex_SSL_is_bidi env s
        then restart_request (on_h3 (\<lambda>h. h\<lparr>h_id_bidi := k\<rparr>)
               (if h_id_bidi (xs_h3 st2) \<noteq> UINT64_MAX then remove_id (ex_SSL_free env) (h_id_bidi (xs_h3 st2)) st2 else st2))
        else set_id_status k CLIENTUNIOPEN st2) = Inr st'"
    using assms(1) unfolding note_stream_def rbind_Inr Let_def by blast
  have "I st2" using 1(2) restart_I assms(2) [OF 1(1)] by (auto split: if_splits)
  moreover from this have "I (on_h3 (\<lambda>h. h\<lparr>h_id_bidi := k\<rparr>)
      (if h_id_bidi (xs_h3 st2) \<noteq> UINT64_MAX then remove_id (ex_SSL_free env) (h_id_bidi (xs_h3 st2)) st2 else st2))"
    by (intro flags_I) (auto simp: ex_core_def intro: remove_law)
  ultimately show ?thesis using 1(3) by (auto split: if_splits intro: restart_I mark_law)
qed

lemma accept_part_I:
  assumes "I st" "accept_part env ng e n st = Inr (r, st')"
  shows "I st'"
proof (cases "ev_ISB e \<or> ev_ISU e")
  case True
  then obtain c where c: "sid_s (xs_ids st ! 0) = Some c" using assms(2) by (auto simp: accept_part_def rbind_Inr need_Inr)
  obtain x w where x: "ex_SSL_accept_stream env c (xs_world st) = (x, w)" by fastforce
  show ?thesis
  proof (cases x)
    case None
    then show ?thesis using assms c x True accept_R [OF x] by (auto simp: accept_part_def intro: world_law)
  next
    case (Some s)
    let ?st = "st\<lparr>xs_world := w, xs_objs := ObjSSL s # xs_objs st\<rparr>" and ?k = "ex_SSL_get_stream_id env s"
    obtain st1 r1 where 1: "note_stream env s ?k ?st = Inr st1" "quic_server_read env ng (Some s) ?k st1 = Inr (r1, st')"
      using assms(2) c x True Some by (auto simp: accept_part_def rbind_Inr Let_def)
    have "I st1" using note_stream_I [OF 1(1)] accept_law [OF assms(1) c] x Some by blast
    then show ?thesis using 1(2) read_I by blast
  qed
qed (use assms in \<open>simp add: accept_part_def\<close>)

lemma open_part_I: "I st \<Longrightarrow> open_part env ng e n st = Inr (r, st') \<Longrightarrow> I st'"
  by (auto simp: open_part_def rbind_Inr ex_core_def split: if_splits intro!: flags_I dest: unis_law)

lemma close_part_I:
  assumes "I st" "close_part e n st = Inr (r, st')"
  shows "I st'"
proof -
  have "ex_core st' = ex_core st"
    using assms(2) by (auto simp: close_part_def Let_def ex_core_def split: if_splits)
  then show ?thesis using assms(1) core_law by blast
qed

lemma slot_R_I: "I st \<Longrightarrow> slot_R env ng i e st = Inr (r, st') \<Longrightarrow> I st'"
  by (auto simp: slot_R_def split: if_splits intro: read_I)

lemma slot_ER_I: "I st \<Longrightarrow> I (snd (slot_ER i e n st))"
  using status_law [of st i] by (simp add: slot_ER_def Let_def)

lemma slot_EW_I: "I st \<Longrightarrow> slot_EW env i e n st = Inr (d, n', st') \<Longrightarrow> I st'"
  by (auto simp: slot_EW_def rbind_Inr Let_def ex_core_def split: if_splits intro!: flags_I remove_law)

lemma slot_part_I:
  assumes "I st" "slot_part env ng i e n st = Inr (r, st')"
  shows "I st'"
proof -
  obtain r1 st1 where 1: "slot_R env ng i e st = Inr (r1, st1)" using assms(2) by (auto simp: slot_part_def rbind_Inr)
  then have I1: "I st1" using slot_R_I assms(1) by blast
  obtain n2 st2 where 2: "slot_ER i e (if ev_R e then n + 1 else n) st1 = (n2, st2)" by fastforce
  then have I2: "I st2" using slot_ER_I [OF I1] by (metis snd_conv)
  consider "st' = st1" | d n3 where "slot_EW env i e n2 st2 = Inr (d, n3, st')"
    using assms(2) 1 2 by (auto simp: slot_part_def rbind_Inr split: if_splits)
  then show ?thesis using I1 slot_EW_I [OF I2] by cases blast+
qed

lemma then_part_Inr:
  "then_part x f = Inr (r, st') \<longleftrightarrow>
     (\<exists>r1 st1. x = Inr (r1, st1) \<and> (case r1 of Inl v \<Rightarrow> r = Inl v \<and> st' = st1 | Inr n \<Rightarrow> f n st1 = Inr (r, st')))"
  by (auto simp: then_part_def rbind_Inr split: sum.splits)

lemma then_part_I:
  assumes "then_part x f = Inr (r, st')" "\<And>r1 st1. x = Inr (r1, st1) \<Longrightarrow> I st1"
    "\<And>n st1. I st1 \<Longrightarrow> f n st1 = Inr (r, st') \<Longrightarrow> I st'"
  shows "I st'"
proof -
  obtain r1 st1 where 1: "x = Inr (r1, st1)" "case r1 of Inl v \<Rightarrow> r = Inl v \<and> st' = st1 | Inr n \<Rightarrow> f n st1 = Inr (r, st')"
    using assms(1) unfolding then_part_Inr by blast
  then show ?thesis using assms(2) [OF 1(1)] assms(3) by (cases r1) auto
qed

lemma slots_part_I: "I st \<Longrightarrow> slots_part env ng i es n st = Inr (r, st') \<Longrightarrow> I st'"
proof (induction es arbitrary: i n st)
  case (Cons e es)
  from Cons.prems(2) show ?case
    by (auto elim!: then_part_I intro: slot_part_I [OF Cons.prems(1)] Cons.IH)
qed simp

lemma end_part_I: "I st \<Longrightarrow> end_part rc k e n st = Inr (r, st') \<Longrightarrow> I st'"
  by (simp add: end_part_def split: if_splits)

lemma handle_events_I:
  assumes "I st" "handle_events env ng rc k es st = Inr (r, st')"
  shows "I st'"
  using assms(2) unfolding handle_events_def Let_def
proof (rule then_part_I)
  fix n st1
  let ?e = "case es of [] \<Rightarrow> no_event | e # _ \<Rightarrow> e"
  assume I1: "I st1" and 1: "then_part (open_part env ng ?e n st1) (\<lambda>n st. then_part (close_part ?e n st) (\<lambda>n st.
    then_part (end_part rc k ?e n st) (slots_part env ng 1 (tl es)))) = Inr (r, st')"
  show "I st'"
    by (rule then_part_I [OF 1 open_part_I [OF I1]], assumption,
        erule then_part_I, erule (1) close_part_I, erule then_part_I, erule (1) end_part_I, erule (1) slots_part_I)
qed (rule accept_part_I [OF assms(1)])

lemma read_from_ssl_ids_I:
  assumes "I st" "read_from_ssl_ids env ng st = Inr (r, st')"
  shows "I st'"
proof -
  let ?items = "poll_items (xs_ids st)"
  obtain ok rc es w where p: "ex_SSL_poll env ?items (xs_world st) = ((ok, rc, es), w)" by (metis prod.exhaust)
  then have "I (st\<lparr>xs_world := w\<rparr>)" using assms(1) world_law poll_R by blast
  moreover have "st' = st\<lparr>xs_world := w\<rparr> \<or>
      (\<exists>r1. handle_events env ng rc (length ?items) (take (length ?items) es) (st\<lparr>xs_world := w\<rparr>) = Inr (r1, st'))"
    using assms(2) p by (auto simp: read_from_ssl_ids_def Let_def rbind_Inr split: if_splits)
  ultimately show ?thesis using handle_events_I by blast
qed

end

section \<open>The table stays well formed\<close>

text \<open>
  What is relied on of OpenSSL and nghttp3: for each connection there is a set of the stream ids it has
  given out so far, which only grows, and a new stream has an id outside it that is not
  \<^verbatim>\<open>UINT64_MAX\<close>.
\<close>

type_synonym 'w used_ids = "sptr \<Rightarrow> 'w \<Rightarrow> uint64_t set"

definition grows :: "'w used_ids \<Rightarrow> 'w \<Rightarrow> 'w \<Rightarrow> bool" where
  "grows used w w' \<longleftrightarrow> (\<forall>c. used c w \<subseteq> used c w')"

definition gives_fresh ::
  "('w, 'z) ex_env_scheme \<Rightarrow> 'w used_ids \<Rightarrow> (sptr \<Rightarrow> 'w \<Rightarrow> sptr option \<times> 'w) \<Rightarrow> bool" where
  "gives_fresh env used f \<longleftrightarrow>
     (\<forall>c w x w'. f c w = (x, w') \<longrightarrow> grows used w w' \<and>
        (\<forall>s. x = Some s \<longrightarrow> ex_SSL_get_stream_id env s \<noteq> UINT64_MAX \<and> ex_SSL_get_stream_id env s \<notin> used c w \<and>
              ex_SSL_get_stream_id env s \<in> used c w'))"

definition stream_calls_ok :: "('w, 'z) ex_env_scheme \<Rightarrow> 'w used_ids \<Rightarrow> bool" where
  "stream_calls_ok env used \<longleftrightarrow>
     gives_fresh env used (ex_SSL_accept_stream env) \<and> gives_fresh env used (ex_SSL_new_stream env) \<and>
     (\<forall>s w. grows used w (ex_SSL_free env s w)) \<and>
     (\<forall>s n w. grows used w (snd (ex_SSL_read env s n w))) \<and>
     (\<forall>l w. grows used w (snd (ex_SSL_poll env l w))) \<and>
     (\<forall>ng k bs w w'. w' \<in> cb_worlds (ex_conn_read_stream env ng k bs w) \<longrightarrow> grows used w w') \<and>
     (\<forall>ng p r w. grows used w (snd (ex_bind_qpack_streams env ng p r w))) \<and>
     (\<forall>ng c w. grows used w (snd (ex_bind_control_stream env ng c w)))"

lemma growsD: "grows used w w' \<Longrightarrow> k \<in> used c w \<Longrightarrow> k \<in> used c w'"
  by (auto simp: grows_def)

lemma grows_refl [simp]: "grows used w w"
  by (simp add: grows_def)

lemma grows_trans: "grows used w w' \<Longrightarrow> grows used w' w'' \<Longrightarrow> grows used w w''"
  by (auto simp: grows_def)

definition data_ok :: "'w ex_st \<Rightarrow> bool" where
  "data_ok st \<longleftrightarrow> (\<forall>a. h_ptr_data (xs_h3 st) = PHeap a \<longrightarrow> xs_heap st a \<noteq> None)"

definition conn_inv :: "'w used_ids \<Rightarrow> sptr \<Rightarrow> 'w ex_st \<Rightarrow> bool" where
  "conn_inv used c st \<longleftrightarrow>
     slots_ok c (xs_ids st) \<and> dom (slots_view (xs_ids st)) \<subseteq> used c (xs_world st) \<and> data_ok st \<and> length (h_url (xs_h3 st)) = MAXURL"

lemma conn_inv_core: "conn_inv used c st \<Longrightarrow> ex_core st' = ex_core st \<Longrightarrow> conn_inv used c st'"
  by (simp add: conn_inv_def ex_core_def data_ok_def)

lemma conn_inv_world: "conn_inv used c st \<Longrightarrow> grows used (xs_world st) w \<Longrightarrow> conn_inv used c (st\<lparr>xs_world := w\<rparr>)"
  by (auto simp: conn_inv_def data_ok_def grows_def)

lemma slots_ok_conn: "slots_ok c ids \<Longrightarrow> sid_s (ids ! 0) = Some c"
  by (auto simp: slots_ok_def)

lemma conn_inv_objs: "conn_inv used c (st\<lparr>xs_objs := os\<rparr>) = conn_inv used c st"
  by (simp add: conn_inv_def data_ok_def)

lemma conn_inv_reuse: "conn_inv used c st \<Longrightarrow> reuse_h3ssl st = Inr st' \<Longrightarrow> conn_inv used c st'"
  by (fastforce simp add: conn_inv_def data_ok_def reuse_h3ssl_def rbind_Inr)

lemma slots_dom_used:
  "sid_s x = Some s \<Longrightarrow> sid_id x \<noteq> UINT64_MAX \<Longrightarrow> dom (slots_view (x # xs)) = insert (sid_id x) (dom (slots_view xs))"
  by (simp add: slots_view_used)

lemma status_slots:
  "streams_wf xs \<Longrightarrow> i < length xs \<Longrightarrow> sid_s (xs ! i) \<noteq> None \<Longrightarrow>
   streams_wf (xs[i := (xs ! i)\<lparr>sid_status := v\<rparr>]) \<and> dom (slots_view (xs[i := (xs ! i)\<lparr>sid_status := v\<rparr>])) = dom (slots_view xs)"
proof (induction xs arbitrary: i)
  case (Cons x xs)
  from Cons.prems(1) show ?case
  proof (cases rule: streams_wf_cases)
    case 1
    then obtain j where "i = Suc j" using Cons.prems by (cases i) auto
    then show ?thesis using Cons.IH [of j] Cons.prems 1 by (simp add: streams_wf_Cons)
  next
    case (2 s)
    then show ?thesis using Cons.prems
    proof (cases i)
      case (Suc j)
      let ?ys = "xs[j := (xs ! j)\<lparr>sid_status := v\<rparr>]"
      have ys: "streams_wf ?ys" "dom (slots_view ?ys) = dom (slots_view xs)" using Cons.IH [of j] Cons.prems 2 Suc by simp_all
      then have "slots_view ?ys (sid_id x) = None" using 2(4) by blast
      then show ?thesis using ys 2 Suc by (simp add: streams_wf_Cons slot_wf_def slots_dom_used)
    qed (simp add: streams_wf_Cons slot_wf_def slots_dom_used)
  qed
qed simp

lemma conn_inv_status:
  assumes "conn_inv used c st" "sid_status (xs_ids st ! i) = CLIENTUNIOPEN"
  shows "conn_inv used c (on_h3 (\<lambda>h. h\<lparr>h_ssl_ids := (xs_ids st)[i := (xs_ids st ! i)\<lparr>sid_status := v\<rparr>]\<rparr>) st)"
proof (cases "i < length (xs_ids st)")
  case True
  let ?ids = "(xs_ids st)[i := (xs_ids st ! i)\<lparr>sid_status := v\<rparr>]"
  obtain x xs where x: "xs_ids st = x # xs" "length xs = 19" "sid_s x = Some c" "sid_id x = UINT64_MAX" "streams_wf xs"
    "slots_view (xs_ids st) = slots_view xs" using assms(1) unfolding conn_inv_def by (auto elim: slots_okE)
  have "slots_ok c ?ids \<and> dom (slots_view ?ids) = dom (slots_view (xs_ids st))"
  proof (cases i)
    case 0
    then show ?thesis using x by (simp add: slots_okI slots_view_conn)
  next
    case (Suc j)
    have "slot_wf (xs ! j)" using x(5) Suc True x(1) by (auto simp: streams_wf_def list_all_length)
    then have "sid_s (xs ! j) \<noteq> None"
      using assms(2) x(1) Suc by (auto simp: slot_wf_def free_slot_def CLIENTUNIOPEN_def)
    then show ?thesis using status_slots [OF x(5), of j v] x Suc True by (simp add: slots_okI slots_view_conn)
  qed
  then show ?thesis using assms(1) by (simp add: conn_inv_def data_ok_def)
qed (use conn_inv_core [OF assms(1)] in \<open>simp add: ex_core_def list_update_beyond\<close>)

lemma conn_inv_ids:
  "conn_inv used c st \<Longrightarrow> slots_ok c ids \<Longrightarrow> dom (slots_view ids) \<subseteq> used c (xs_world st) \<Longrightarrow>
   conn_inv used c (on_h3 (\<lambda>h. h\<lparr>h_ssl_ids := ids\<rparr>) st)"
  by (simp add: conn_inv_def data_ok_def)

lemma conn_inv_add:
  assumes "conn_inv used c st" "k \<noteq> UINT64_MAX" "k \<notin> dom (slots_view (xs_ids st))" "k \<in> used c (xs_world st)" "add_id k s st = Inr st'"
  shows "conn_inv used c st' \<and> dom (slots_view (xs_ids st')) = insert k (dom (slots_view (xs_ids st))) \<and> xs_world st' = xs_world st"
proof -
  have ok: "slots_ok c (xs_ids st)" "dom (slots_view (xs_ids st)) \<subseteq> used c (xs_world st)" using assms(1) by (simp_all add: conn_inv_def)
  have "slots_view (xs_ids st) k = None" using assms(3) by (meson domIff)
  from add_id_table [OF ok(1) assms(2) this, of s] assms(5)
  obtain ids where "st' = on_h3 (\<lambda>h. h\<lparr>h_ssl_ids := ids\<rparr>) st" "slots_ok c ids" "slots_view ids = (slots_view (xs_ids st))(k \<mapsto> (s, 0))"
    by (auto split: if_splits)
  then show ?thesis using conn_inv_ids [OF assms(1), of ids] ok(2) assms(4) by auto
qed

lemma fresh_used:
  assumes "gives_fresh env used f" "f c w = (x, w')"
  shows "grows used w w'"
    "x = Some s \<Longrightarrow> ex_SSL_get_stream_id env s \<noteq> UINT64_MAX \<and> ex_SSL_get_stream_id env s \<notin> used c w \<and> ex_SSL_get_stream_id env s \<in> used c w'"
  using assms unfolding gives_fresh_def by blast+

lemma new_uni_cases:
  assumes "new_uni env st = Inr (x, st')"
  shows "\<exists>c w. sid_s (xs_ids st ! 0) = Some c \<and> ex_SSL_new_stream env c (xs_world st) = (x, w) \<and>
    st' = st\<lparr>xs_world := w, xs_objs := (case x of None \<Rightarrow> [] | Some p \<Rightarrow> [ObjSSL p]) @ xs_objs st\<rparr>"
proof -
  obtain c where c: "conn_ssl_of st = Inr c" using assms by (auto simp: new_uni_def rbind_Inr)
  obtain y w where "ex_SSL_new_stream env c (xs_world st) = (y, w)" by fastforce
  then show ?thesis using assms c by (auto simp: new_uni_def need_Inr)
qed

lemma new_uni_inv:
  assumes "stream_calls_ok env used" "conn_inv used c st" "new_uni env st = Inr (x, st')"
  shows "conn_inv used c st' \<and> grows used (xs_world st) (xs_world st') \<and> xs_ids st' = xs_ids st \<and>
    (\<forall>s. x = Some s \<longrightarrow> ex_SSL_get_stream_id env s \<noteq> UINT64_MAX \<and> ex_SSL_get_stream_id env s \<notin> used c (xs_world st) \<and>
       ex_SSL_get_stream_id env s \<in> used c (xs_world st'))"
proof -
  from new_uni_cases [OF assms(3)] slots_ok_conn [of c "xs_ids st"] assms(2)
  obtain w where p: "ex_SSL_new_stream env c (xs_world st) = (x, w)"
    and st': "\<exists>os. st' = st\<lparr>xs_world := w, xs_objs := os\<rparr>"
    by (auto simp: conn_inv_def)
  have f: "gives_fresh env used (ex_SSL_new_stream env)" using assms(1) by (simp add: stream_calls_ok_def)
  show ?thesis using st' fresh_used [OF f p] conn_inv_world [OF assms(2), of w] by (auto simp: conn_inv_objs)
qed

lemma bind_unis_inv:
  assumes "stream_calls_ok env used" "conn_inv used c st" "bind_unis env ng r p k st = Inr (x, st')"
    and ids: "list_all (\<lambda>i. i \<noteq> UINT64_MAX \<and> i \<in> used c (xs_world st) \<and> i \<notin> dom (slots_view (xs_ids st))) (map (ex_SSL_get_stream_id env) [r, p, k])"
      "distinct (map (ex_SSL_get_stream_id env) [k, p, r])"
  shows "conn_inv used c st'"
proof -
  let ?i = "ex_SSL_get_stream_id env"
  obtain f1 w1 f2 w2 where b: "ex_bind_qpack_streams env ng (?i p) (?i r) (xs_world st) = (f1, w1)" "ex_bind_control_stream env ng (?i k) w1 = (f2, w2)"
    by (meson surj_pair)
  then have u: "grows used (xs_world st) w1" "grows used w1 w2" using assms(1) unfolding stream_calls_ok_def by (metis snd_conv)+
  have I1: "conn_inv used c (st\<lparr>xs_world := w1\<rparr>)" by (rule conn_inv_world [OF assms(2) u(1)])
  have I2: "conn_inv used c (st\<lparr>xs_world := w2\<rparr>)" by (rule conn_inv_world [OF assms(2) grows_trans [OF u]])
  show ?thesis
  proof (cases "f1 \<or> f2")
    case True
    then show ?thesis using assms(3) b I1 I2 by (auto simp: bind_unis_def Let_def split: if_splits)
  next
    case False
    then obtain st1 st2 where a: "add_id (?i r) r (st\<lparr>xs_world := w2\<rparr>) = Inr st1" "add_id (?i p) p st1 = Inr st2" "add_id (?i k) k st2 = Inr st'"
      using assms(3) b by (auto simp: bind_unis_def Let_def rbind_Inr)
    have n: "?i r \<in> used c w2" "?i p \<in> used c w2" "?i k \<in> used c w2" using ids(1) growsD [OF grows_trans [OF u]] by auto
    from conn_inv_add [OF I2 _ _ _ a(1)] n ids have 1: "conn_inv used c st1" "xs_world st1 = w2"
      "dom (slots_view (xs_ids st1)) = insert (?i r) (dom (slots_view (xs_ids st)))" by simp_all
    from conn_inv_add [OF 1(1) _ _ _ a(2)] n ids 1 have 2: "conn_inv used c st2" "xs_world st2 = w2"
      "dom (slots_view (xs_ids st2)) = insert (?i p) (insert (?i r) (dom (slots_view (xs_ids st))))" by simp_all
    from conn_inv_add [OF 2(1) _ _ _ a(3)] n ids 2 show ?thesis by simp
  qed
qed

lemma h3streams_inv:
  assumes "stream_calls_ok env used" "conn_inv used c st" "quic_server_h3streams env ng st = Inr (x, st')"
  shows "conn_inv used c st'"
proof -
  let ?i = "ex_SSL_get_stream_id env"
  obtain r st1 where r: "new_uni env st = Inr (r, st1)" using assms(3) by (auto simp: quic_server_h3streams_def rbind_Inr)
  note 1 = new_uni_inv [OF assms(1,2) r]
  show ?thesis
  proof (cases r)
    case (Some r')
    then obtain p st2 where p: "new_uni env st1 = Inr (p, st2)" using assms(3) r by (auto simp: quic_server_h3streams_def rbind_Inr)
    note 2 = new_uni_inv [OF assms(1) _ p, of c]
    show ?thesis
    proof (cases p)
      case (Some p')
      then obtain k st3 where k: "new_uni env st2 = Inr (k, st3)"
        using assms(3) r p \<open>r = Some r'\<close> by (auto simp: quic_server_h3streams_def rbind_Inr)
      note 3 = new_uni_inv [OF assms(1) _ k, of c]
      show ?thesis
      proof (cases k)
        case (Some k')
        then have b: "bind_unis env ng r' p' k' st3 = Inr (x, st')"
          using assms(3) r p k \<open>r = Some r'\<close> \<open>p = Some p'\<close> by (simp add: quic_server_h3streams_def)
        have d: "dom (slots_view (xs_ids st)) \<subseteq> used c (xs_world st)" using assms(2) by (simp add: conn_inv_def)
        show ?thesis
          by (rule bind_unis_inv [OF assms(1) _ b])
            (use 1 2 3 d \<open>r = Some r'\<close> \<open>p = Some p'\<close> Some in \<open>auto simp: subset_iff domIff dest: growsD\<close>)
      qed (use assms(3) r p k 1 2 3 \<open>r = Some r'\<close> Some in \<open>simp add: quic_server_h3streams_def\<close>)
    qed (use assms(3) r p 1 2 Some in \<open>simp add: quic_server_h3streams_def\<close>)
  qed (use assms(3) r 1 in \<open>simp add: quic_server_h3streams_def\<close>)
qed

lemma conn_inv_mark:
  assumes "conn_inv used c st" "set_id_status k v st = Inr st'"
  shows "conn_inv used c st'"
proof -
  have ok: "slots_ok c (xs_ids st)" "dom (slots_view (xs_ids st)) \<subseteq> used c (xs_world st)" using assms(1) by (simp_all add: conn_inv_def)
  have "\<exists>ids. st' = on_h3 (\<lambda>h. h\<lparr>h_ssl_ids := ids\<rparr>) st \<and> slots_ok c ids \<and> dom (slots_view ids) = dom (slots_view (xs_ids st))"
  proof (cases "k = UINT64_MAX")
    case True
    from ok(1) obtain x xs where x: "xs_ids st = x # xs" "length xs = 19" "sid_s x = Some c" "sid_id x = UINT64_MAX" "streams_wf xs"
      "slots_view (xs_ids st) = slots_view xs" by (rule slots_okE)
    then show ?thesis using assms(2) True
      by (intro exI [of _ "x\<lparr>sid_status := v\<rparr> # xs"]) (simp add: set_id_status_def slots_okI slots_view_conn)
  next
    case False
    from set_id_status_table [OF ok(1) False, of v] assms(2)
    obtain s u ids where "slots_view (xs_ids st) k = Some (s, u)" "st' = on_h3 (\<lambda>h. h\<lparr>h_ssl_ids := ids\<rparr>) st" "slots_ok c ids"
      "slots_view ids = (slots_view (xs_ids st))(k \<mapsto> (s, v))" by (auto split: option.splits)
    then show ?thesis by (intro exI [of _ ids]) (auto simp: insert_absorb)
  qed
  then show ?thesis using conn_inv_ids [OF assms(1)] ok(2) by auto
qed

lemma conn_inv_remove:
  assumes "conn_inv used c st" "stream_calls_ok env used"
  shows "conn_inv used c (remove_id (ex_SSL_free env) k st)"
proof -
  let ?st = "remove_id (ex_SSL_free env) k st"
  have ok: "slots_ok c (xs_ids st)" "dom (slots_view (xs_ids st)) \<subseteq> used c (xs_world st)" using assms(1) by (simp_all add: conn_inv_def)
  note r = remove_id_table [OF ok(1), of "ex_SSL_free env" k]
  have "grows used (xs_world st) (xs_world ?st)"
    using assms(2) by (auto simp: remove_id_def ssl_free_def stream_calls_ok_def split: option.splits)
  then have u: "used c (xs_world st) \<subseteq> used c (xs_world ?st)" by (simp add: grows_def)
  have "dom (slots_view (xs_ids ?st)) \<subseteq> dom (slots_view (xs_ids st))" using r by simp
  then have "dom (slots_view (xs_ids ?st)) \<subseteq> used c (xs_world ?st)" by (rule subset_trans [OF _ subset_trans [OF ok(2) u]])
  moreover have "h_ptr_data (xs_h3 ?st) = h_ptr_data (xs_h3 st)" "h_url (xs_h3 ?st) = h_url (xs_h3 st)" "xs_heap ?st = xs_heap st"
    by (simp_all add: remove_id_def ssl_free_def split: option.split)
  ultimately show ?thesis using assms(1) r unfolding conn_inv_def data_ok_def by simp
qed

lemma conn_inv_accept:
  assumes "conn_inv used c st" "stream_calls_ok env used" "ex_SSL_accept_stream env c (xs_world st) = (Some s, w)"
    "add_id (ex_SSL_get_stream_id env s) s (st\<lparr>xs_world := w, xs_objs := os\<rparr>) = Inr st'"
  shows "conn_inv used c st'"
proof -
  have "gives_fresh env used (ex_SSL_accept_stream env)" using assms(2) by (simp add: stream_calls_ok_def)
  note f = fresh_used [OF this assms(3)]
  have "conn_inv used c (st\<lparr>xs_world := w, xs_objs := os\<rparr>)" using conn_inv_world [OF assms(1) f(1)] by (simp add: conn_inv_objs)
  moreover have "ex_SSL_get_stream_id env s \<notin> dom (slots_view (xs_ids st))" using f(2) assms(1) by (auto simp: conn_inv_def)
  ultimately show ?thesis using conn_inv_add [OF _ _ _ _ assms(4)] f(2) by simp
qed

interpretation conn_ex: ex_invariant env "\<lambda>st. stream_calls_ok env used \<and> conn_inv used c st"
  "\<lambda>w w'. stream_calls_ok env used \<longrightarrow> grows used w w'"
proof (unfold_locales, goal_cases)
  case (9 p w x w')
  then show ?case by (auto simp: stream_calls_ok_def gives_fresh_def)
next
  case (7 st p s w st')
  then have "p = c" using slots_ok_conn [of c "xs_ids st"] by (simp add: conn_inv_def)
  then show ?case using 7 conn_inv_accept [OF _ _ _ 7(4), of used c] by simp
next
  case (10 s n w y w')
  then show ?case by (metis snd_conv stream_calls_ok_def)
next
  case (11 items w z w')
  then show ?case by (metis snd_conv stream_calls_ok_def)
qed (auto simp: stream_calls_ok_def [of env used, THEN iffD1] intro: conn_inv_core conn_inv_world conn_inv_reuse conn_inv_status conn_inv_mark
    conn_inv_remove conn_inv_accept h3streams_inv)

text \<open>Objects that are not of OpenSSL's \<^verbatim>\<open>SSL\<close> type are not touched.\<close>

definition is_SSL :: "ex_obj \<Rightarrow> bool" where
  "is_SSL ob \<longleftrightarrow> (case ob of ObjSSL s \<Rightarrow> True | _ \<Rightarrow> False)"

definition other_objs :: "'w ex_st \<Rightarrow> ex_obj list" where
  "other_objs st = filter (\<lambda>ob. \<not> is_SSL ob) (xs_objs st)"

lemma other_objs_simps [simp]:
  "other_objs (st\<lparr>xs_world := w\<rparr>) = other_objs st" "other_objs (st\<lparr>xs_h3 := h\<rparr>) = other_objs st" "other_objs (st\<lparr>xs_heap := hp\<rparr>) = other_objs st"
  "other_objs (st\<lparr>xs_objs := ObjSSL s # xs_objs st\<rparr>) = other_objs st"
  "other_objs (st\<lparr>xs_world := w, xs_objs := ObjSSL s # xs_objs st\<rparr>) = other_objs st"
  by (simp_all add: other_objs_def is_SSL_def)

lemma other_objs_free [simp]: "other_objs (ssl_free f s st) = other_objs st"
  by (simp add: other_objs_def ssl_free_def filter_remove1 is_SSL_def remove1_idem split: option.split)

lemma other_objs_add: "add_id k s st = Inr st' \<Longrightarrow> other_objs st' = other_objs st"
  by (auto simp: add_id_def split: option.splits)

lemma other_objs_remove: "other_objs (remove_id f k st) = other_objs st"
  by (simp add: remove_id_def split: option.split)

lemma other_objs_uni: "new_uni env st = Inr (x, st') \<Longrightarrow> other_objs st' = other_objs st"
  by (drule new_uni_cases) (auto split: option.splits)

lemma other_objs_bind:
  assumes "bind_unis env ng r p k st = Inr (x, st')"
  shows "other_objs st' = other_objs st"
  using assms by (auto simp: bind_unis_def Let_def rbind_Inr split: prod.splits if_splits dest!: other_objs_add)

lemma other_objs_h3streams: "quic_server_h3streams env ng st = Inr (x, st') \<Longrightarrow> other_objs st' = other_objs st"
  by (auto simp: quic_server_h3streams_def rbind_Inr split: prod.splits option.splits dest!: other_objs_uni other_objs_bind)

interpretation objs_ex: ex_invariant env "\<lambda>st. other_objs st = obs" "\<lambda>w w'. True"
proof (unfold_locales, goal_cases)
  case (1 st st')
  then show ?case by (simp add: other_objs_def ex_core_def)
qed (auto simp: reuse_h3ssl_def rbind_Inr set_id_status_def other_objs_remove other_objs_h3streams 
      split: if_splits dest!: other_objs_add)

section \<open>Items and slots\<close>

lemma put_slot_nth:
  "put_slot k s xs = Some ys \<Longrightarrow>
   \<exists>m < length xs. sid_s (xs ! m) = None \<and> (\<forall>j < m. sid_s (xs ! j) \<noteq> None) \<and> ys = xs[m := (xs ! m)\<lparr>sid_s := Some s, sid_id := k\<rparr>]"
proof (induction xs arbitrary: ys)
  case (Cons x xs)
  show ?case
  proof (cases "sid_s x")
    case None
    then show ?thesis using Cons.prems by (intro exI [of _ 0]) auto
  next
    case (Some t)
    then obtain zs where zs: "put_slot k s xs = Some zs" "ys = x # zs" using Cons.prems by auto
    from Cons.IH [OF zs(1)] obtain m where "m < length xs" "sid_s (xs ! m) = None" "\<forall>j < m. sid_s (xs ! j) \<noteq> None"
      "zs = xs[m := (xs ! m)\<lparr>sid_s := Some s, sid_id := k\<rparr>]" by blast
    then show ?thesis using zs(2) Some by (intro exI [of _ "Suc m"]) (auto simp: less_Suc_eq_0_disj)
  qed
qed simp

lemma upd_slot_nth:
  "i < length xs \<Longrightarrow> sid_id (xs ! i) = k \<Longrightarrow> \<forall>j < i. sid_id (xs ! j) \<noteq> k \<Longrightarrow> upd_slot k f xs = xs[i := f (xs ! i)]"
proof (induction xs arbitrary: i)
  case (Cons x xs)
  show ?case
  proof (cases i)
    case (Suc j)
    then show ?thesis using Cons.IH [of j] Cons.prems by fastforce
  qed (use Cons.prems in simp)
qed simp

lemma find_id_nth: "i < length xs \<Longrightarrow> sid_id (xs ! i) = k \<Longrightarrow> find_id k xs \<noteq> None"
  unfolding find_id_def find_None_iff by (metis nth_mem)

lemma poll_items_past:
  assumes "\<forall>j < i. sid_s (xs ! j) \<noteq> None" "i < m" "m < length xs" "sid_s (xs ! m) \<noteq> None"
  shows "i < length (poll_items xs)"
proof -
  let ?P = "\<lambda>x. sid_s x \<noteq> None"
  have "filter ?P (take i xs) = take i xs" using assms(1-3) by (auto simp: filter_id_conv in_set_conv_nth)
  moreover have "xs ! m \<in> set (filter ?P (drop i xs))"
    using assms(2-4) by (auto simp: in_set_conv_nth intro!: exI [of _ "m - i"])
  then have "0 < length (filter ?P (drop i xs))" by (rule length_pos_if_in_set)
  moreover have "length (filter ?P xs) = length (filter ?P (take i xs)) + length (filter ?P (drop i xs))"
    by (metis append_take_drop_id filter_append length_append)
  ultimately show ?thesis using assms(2,3) by (simp add: poll_items_def List.map_filter_def)
qed

lemma restart_ids: "restart_request st = Inr st' \<Longrightarrow> xs_ids st' = xs_ids st \<and> h_id_bidi (xs_h3 st') = h_id_bidi (xs_h3 st)"
  by (auto simp: restart_request_def reuse_h3ssl_def rbind_Inr)

text \<open>
  C36: When a client opens another request stream on a connection, the example server frees the slot
  of the previous one and goes on taking item \<open>i\<close> of a poll for slot \<open>i\<close>: the poll still has an item
  with the number of the freed slot, and when it is readable the program reads from NULL.
\<close>

theorem second_request_reads_null:
  assumes "h_id_bidi (xs_h3 st) = k" "k \<noteq> UINT64_MAX" "i < length (xs_ids st)" "sid_id (xs_ids st ! i) = k" "sid_s (xs_ids st ! i) \<noteq> None"
    and before: "\<forall>j < i. sid_s (xs_ids st ! j) \<noteq> None \<and> sid_id (xs_ids st ! j) \<noteq> k"
    and "ex_SSL_is_bidi env s" "note_stream env s sid st = Inr st'" "ev_R e"
  shows "i < length (poll_items (xs_ids st')) \<and> slot_part env ng i e n st' = Inl Undefined"
proof -
  obtain st1 st2 where 1: "add_id sid s st = Inr st1"
      "(if h_close_wait (xs_h3 st1) then restart_request st1 else Inr st1) = Inr st2"
      "restart_request (on_h3 (\<lambda>h. h\<lparr>h_id_bidi := sid\<rparr>)
          (if h_id_bidi (xs_h3 st2) \<noteq> UINT64_MAX then remove_id (ex_SSL_free env) (h_id_bidi (xs_h3 st2)) st2 else st2)) = Inr st'"
    using assms(7,8) unfolding note_stream_def rbind_Inr Let_def by auto
  obtain m where m: "m < length (xs_ids st)" "sid_s (xs_ids st ! m) = None" "\<forall>j < m. sid_s (xs_ids st ! j) \<noteq> None"
      "xs_ids st1 = (xs_ids st)[m := (xs_ids st ! m)\<lparr>sid_s := Some s, sid_id := sid\<rparr>]" and b: "h_id_bidi (xs_h3 st1) = k"
    using 1(1) put_slot_nth [of sid s "xs_ids st"] assms(1) by (auto simp: add_id_def split: option.splits)
  have im: "i < m" using m(2) before assms(5) by (metis linorder_neqE_nat)
  have 2: "xs_ids st2 = xs_ids st1" "h_id_bidi (xs_h3 st2) = k" using 1(2) restart_ids b by (auto split: if_splits)
  have "upd_slot k (\<lambda>_. free_slot) (xs_ids st1) = (xs_ids st1)[i := free_slot]"
    by (rule upd_slot_nth) (use m im before assms in auto)
  moreover have "find_id k (xs_ids st1) \<noteq> None" by (rule find_id_nth [of i]) (use m im assms in auto)
  ultimately have ids: "xs_ids st' = (xs_ids st1)[i := free_slot]"
    using restart_ids [OF 1(3)] 2 assms(2) by (auto simp: remove_id_def)
  have "i < length (poll_items (xs_ids st'))"
    by (rule poll_items_past [of i _ m]) (use ids m im before in auto)
  moreover have "sid_s (xs_ids st' ! i) = None" using ids m assms(3) by simp
  ultimately show ?thesis using assms(9) by (simp add: slot_part_def slot_R_def quic_server_read_def)
qed

text \<open>
  A poll with a single result that is not the connection's changes nothing in the example server:
  the readable stream is not read, the program reports that nothing happened.
\<close>

theorem lone_stream_event_ignored:
  assumes "ex_SSL_poll env (poll_items (xs_ids st)) (xs_world st) = ((True, 1, no_event # es), w)"
    and "sid_s (xs_ids st ! 0) \<noteq> None" and "xs_ids st \<noteq> []"
  shows "read_from_ssl_ids env ng st = Inr (0, st\<lparr>xs_world := w\<rparr>)"
proof -
  obtain x xs p where "xs_ids st = x # xs" "sid_s x = Some p" using assms(2,3) by (cases "xs_ids st") auto
  then have "0 < length (poll_items (xs_ids st))" by (simp add: poll_items_def List.map_filter_simps)
  then obtain n where "length (poll_items (xs_ids st)) = Suc n" by (cases "length (poll_items (xs_ids st))") auto
  then show ?thesis using assms(1)
    by (simp add: read_from_ssl_ids_def handle_events_def then_part_def accept_part_def open_part_def close_part_def end_part_def
        conn_missed_def conn_processed_def no_event_def Let_def)
qed

section \<open>A sample connection\<close>

definition quiet_env :: "nat ex_env" where
  "quiet_env =
     \<lparr>ex_memcpy_moves = True, ex_TOKEN__PATH = 1, ex_SSL_free = (\<lambda>s w. w), ex_SSL_has_pending = (\<lambda>s w. False),
      ex_SSL_read = (\<lambda>s n w. ((0, []), w)), ex_SSL_get_error = (\<lambda>s r w. SSL_ERROR_WANT_READ),
      ex_SSL_new_stream = (\<lambda>c w. (None, w)), ex_SSL_get_stream_id = (\<lambda>s. of_nat s), ex_SSL_is_bidi = (\<lambda>s. True),
      ex_SSL_accept_stream = (\<lambda>c w. (None, w)), ex_SSL_poll = (\<lambda>l w. ((True, 1, no_event # map (\<lambda>_. no_event\<lparr>ev_R := True\<rparr>) (tl l)), w)),
      ex_conn_read_stream = (\<lambda>ng k bs w. CbRet (int (length bs)) w), ex_err_is_fatal = (\<lambda>r. True),
      ex_bind_qpack_streams = (\<lambda>ng p r w. (False, w)), ex_bind_control_stream = (\<lambda>ng c w. (False, w))\<rparr>"

definition one_request :: "nat ex_st" where
  "one_request =
     on_h3 (\<lambda>h. h\<lparr>h_ssl_ids := (conn_ids 5)[1 := \<lparr>sid_s = Some 0, sid_id = 0, sid_status = 0\<rparr>], h_id_bidi := 0\<rparr>) new_st"

lemma one_request_ids:
  "xs_ids one_request = \<lparr>sid_s = Some 5, sid_id = UINT64_MAX, sid_status = 0\<rparr> # \<lparr>sid_s = Some 0, sid_id = 0, sid_status = 0\<rparr> # replicate 18 free_slot"
  by (simp add: one_request_def conn_ids_def numeral_eq_Suc)

lemma one_request_noted: "\<exists>st'. note_stream quiet_env 4 4 one_request = Inr st'"
proof -
  have "put_slot 4 4 (xs_ids one_request) =
      Some (\<lparr>sid_s = Some 5, sid_id = UINT64_MAX, sid_status = 0\<rparr> # \<lparr>sid_s = Some 0, sid_id = 0, sid_status = 0\<rparr> #
        \<lparr>sid_s = Some 4, sid_id = 4, sid_status = 0\<rparr> # replicate 17 free_slot)"
    by (simp add: one_request_ids numeral_eq_Suc free_slot_def)
  then show ?thesis
    by (simp add: note_stream_def add_id_def restart_request_def reuse_h3ssl_def free_data_def quiet_env_def one_request_def new_st_def
        init_ids_def remove_id_def ssl_free_def UINT64_MAX_def)
qed

theorem second_request_reads_null_witness:
  "\<exists>st'. note_stream quiet_env 4 4 one_request = Inr st' \<and> 1 < length (poll_items (xs_ids st')) \<and>
     slot_part quiet_env 0 1 (no_event\<lparr>ev_R := True\<rparr>) 0 st' = Inl Undefined"
proof -
  obtain st' where st': "note_stream quiet_env 4 4 one_request = Inr st'" using one_request_noted by blast
  have "1 < length (poll_items (xs_ids st')) \<and> slot_part quiet_env 0 1 (no_event\<lparr>ev_R := True\<rparr>) 0 st' = Inl Undefined"
    by (rule second_request_reads_null [OF _ _ _ _ _ _ _ st'])
      (simp_all add: one_request_ids, simp_all add: one_request_def quiet_env_def UINT64_MAX_def)
  then show ?thesis using st' by blast
qed

theorem lone_stream_event_ignored_witness:
  "read_from_ssl_ids quiet_env 0 one_request = Inr (0, one_request) \<and>
   (\<exists>e. snd (snd (fst (ex_SSL_poll quiet_env (poll_items (xs_ids one_request)) 0))) = [no_event, e] \<and> ev_R e)"
proof -
  have items: "poll_items (xs_ids one_request) = [5, 0]"
    by (simp add: one_request_ids poll_items_def List.map_filter_def numeral_eq_Suc)
  have w: "xs_world one_request = 0" by (simp add: one_request_def new_st_def)
  have "one_request\<lparr>xs_world := 0\<rparr> = one_request" by (simp add: one_request_def new_st_def)
  then show ?thesis
    using lone_stream_event_ignored [of quiet_env one_request "[no_event\<lparr>ev_R := True\<rparr>]" 0 0] items w
    by (simp add: quiet_env_def one_request_ids)
qed

end
