(* ===== verification/H3X_Server.thy ===== *)
theory H3X_Server
  imports H3X_Poll
begin

text \<open>
  The example server, third part: files, the TLS context and the socket, sending a response, and the
  loop of \<^verbatim>\<open>run_quic_server\<close> with \<^verbatim>\<open>main\<close>.

  The loop is made of jumps. It is modelled as a machine: \<open>label\<close> has the labels of the program and the
  heads of its loops, \<open>ex_cfg\<close> the local variables, \<open>srv_step\<close> does the code from one label to the
  next jump. A stream leaves the table in the same step in which it is freed; the connection is
  freed through a variable that keeps its value, so freeing it is checked against \<open>xs_objs\<close>.
\<close>

section \<open>The calls\<close>

record 'w srv_env = "'w ex_env" +
  xv_malloc :: "(nat \<rightharpoonup> byte list) \<Rightarrow> nat \<Rightarrow> (nat \<times> byte list) option"
  xv_stat :: "byte list \<Rightarrow> 'w \<Rightarrow> (bool \<times> int) option \<times> 'w"
  xv_read_file :: "byte list \<Rightarrow> nat \<Rightarrow> 'w \<Rightarrow> byte list option \<times> 'w"
  xv_SSL_write_ex2 :: "sptr \<Rightarrow> byte list \<Rightarrow> bool \<Rightarrow> 'w \<Rightarrow> bool \<times> 'w"
  xv_SSL_get_event_timeout :: "sptr \<Rightarrow> 'w \<Rightarrow> bool \<times> bool \<times> int \<times> int"
  xv_SSL_handle_events :: "sptr \<Rightarrow> 'w \<Rightarrow> bool \<times> 'w"
  xv_SSL_both_shutdown :: "sptr \<Rightarrow> 'w \<Rightarrow> bool"
  xv_select :: "int \<Rightarrow> (int \<times> int) option \<Rightarrow> 'w \<Rightarrow> int \<times> 'w"
  xv_SSL_new_listener :: "nat \<Rightarrow> 'w \<Rightarrow> sptr option \<times> 'w"
  xv_SSL_set_fd :: "sptr \<Rightarrow> int \<Rightarrow> 'w \<Rightarrow> bool \<times> 'w"
  xv_SSL_listen :: "sptr \<Rightarrow> 'w \<Rightarrow> bool \<times> 'w"
  xv_SSL_set_nonblocking :: "sptr \<Rightarrow> 'w \<Rightarrow> bool \<times> 'w"
  xv_SSL_accept_connection :: "sptr \<Rightarrow> 'w \<Rightarrow> sptr option \<times> 'w"
  xv_SSL_set_policy_accept :: "sptr \<Rightarrow> 'w \<Rightarrow> bool \<times> 'w"
  xv_conn_server_new :: "'w \<Rightarrow> ngptr option \<times> 'w"
  xv_submit_response :: "ngptr \<Rightarrow> uint64_t \<Rightarrow> (string \<times> string) list \<Rightarrow> 'w \<Rightarrow> bool \<times> 'w"
  xv_writev_stream :: "ngptr \<Rightarrow> 'w \<Rightarrow> ('w, int \<times> int \<times> bool \<times> vec list) cb"
  xv_add_write_offset :: "ngptr \<Rightarrow> int \<Rightarrow> nat \<Rightarrow> 'w \<Rightarrow> bool \<times> 'w"
  xv_block_stream :: "ngptr \<Rightarrow> int \<Rightarrow> 'w \<Rightarrow> 'w"
  xv_unblock_stream :: "ngptr \<Rightarrow> int \<Rightarrow> 'w \<Rightarrow> 'w"
  xv_SSL_CTX_new :: "'w \<Rightarrow> nat option \<times> 'w"
  xv_use_certificate :: "nat \<Rightarrow> string \<Rightarrow> 'w \<Rightarrow> int \<times> 'w"
  xv_use_key :: "nat \<Rightarrow> string \<Rightarrow> 'w \<Rightarrow> int \<times> 'w"
  xv_check_key :: "nat \<Rightarrow> 'w \<Rightarrow> bool \<times> 'w"
  xv_SSL_CTX_free :: "nat \<Rightarrow> 'w \<Rightarrow> 'w"
  xv_socket :: "'w \<Rightarrow> int \<times> 'w"
  xv_bind :: "int \<Rightarrow> nat \<Rightarrow> 'w \<Rightarrow> int \<times> 'w"
  xv_closesocket :: "int \<Rightarrow> 'w \<Rightarrow> 'w"

section \<open>Files\<close>

definition bytes_of :: "string \<Rightarrow> byte list" where
  "bytes_of s = map (\<lambda>c. of_nat (of_char c)) s"

definition get_file_length :: "('w, 'z) srv_env_scheme \<Rightarrow> byte list \<Rightarrow> 'w \<Rightarrow> int \<times> 'w" where
  "get_file_length env name w =
     (if name = bytes_of ''big'' then (INT_MAX, w)
      else case xv_stat env name w of
             (Some (True, n), w) \<Rightarrow> (sint (of_int n :: 32 word), w)
           | (_, w) \<Rightarrow> (0, w))"

text \<open>
  The file in a block one byte longer. The size may be negative, which makes the write of the final
  zero hit memory before the block; \<^verbatim>\<open>malloc\<close> may fail, which makes it hit NULL.
\<close>

definition get_file_data :: "('w, 'z) srv_env_scheme \<Rightarrow> byte list \<Rightarrow> 'w ex_st \<Rightarrow> (data_ptr \<times> 'w ex_st) res" where
  "get_file_data env name st =
     (case get_file_length env name (xs_world st) of
        (n, w) \<Rightarrow>
          let st = st\<lparr>xs_world := w\<rparr>
          in if n = 0 then Inr (PNull, st)
             else if n < 0 \<or> n = INT_MAX then Inl Undefined
             else rbind (need (xv_malloc env (xs_heap st) (nat n + 1))) (\<lambda>(a, init).
                    case xv_read_file env name (nat n) w of
                      (None, w) \<Rightarrow> Inr (PNull, st\<lparr>xs_world := w\<rparr>)
                    | (Some bs, w) \<Rightarrow>
                        Inr (PHeap a, st\<lparr>xs_world := w,
                          xs_heap := (xs_heap st)(a \<mapsto> bs @ drop (length bs) (init[nat n := 0]))\<rparr>)))"

section \<open>The response head\<close>

fun strstr :: "'a list \<Rightarrow> 'a list \<Rightarrow> bool" where
  "strstr hay needle \<longleftrightarrow> take (length needle) hay = needle \<or> (case hay of [] \<Rightarrow> False | _ # t \<Rightarrow> strstr t needle)"

declare strstr.simps [simp del]

text \<open>\<^verbatim>\<open>sprintf\<close> of a number into the 11 bytes of \<^verbatim>\<open>slength\<close>.\<close>

definition print_length :: "32 word \<Rightarrow> string res" where
  "print_length n = (let s = show_int (sint n) in if length s \<ge> 11 then Inl Undefined else Inr s)"

definition content_type :: "byte list \<Rightarrow> string" where
  "content_type url =
     (if strstr url (bytes_of ''.png'') then ''image/png''
      else if strstr url (bytes_of ''.ico'') then ''image/vnd.microsoft.icon'' else ''text/html'')"

definition set_body :: "data_ptr \<Rightarrow> 32 word \<Rightarrow> 'w ex_st \<Rightarrow> 'w ex_st" where
  "set_body p n st = on_h3 (\<lambda>h. h\<lparr>h_ptr_data := p, h_ldata := n\<rparr>) st"

definition build_response :: "('w, 'z) srv_env_scheme \<Rightarrow> 'w ex_st \<Rightarrow> ((string \<times> string) list \<times> 'w ex_st) res" where
  "build_response env st =
     rbind (need (url_string st)) (\<lambda>url.
       case get_file_length env url (xs_world st) of
         (n, w) \<Rightarrow>
           let st = st\<lparr>xs_world := w\<rparr>; ldata = of_int n :: 32 word
           in if ldata = 0
              then Inr ([('':status'', ''200''), (''content-type'', ''text/html''), (''content-length'', ''20'')], set_body PNulldata 20 st)
              else if n = INT_MAX
              then rbind (need (xv_malloc env (xs_heap st) 4096)) (\<lambda>(a, _).
                   rbind (print_length ldata) (\<lambda>len.
                     Inr ([('':status'', ''200''), (''content-length'', len)],
                          set_body (PHeap a) ldata (st\<lparr>xs_heap := (xs_heap st)(a \<mapsto> replicate 4096 65)\<rparr>))))
              else rbind (print_length ldata) (\<lambda>len.
                   rbind (get_file_data env url st) (\<lambda>(p, st).
                     if p = PNull then Inl Aborted
                     else Inr ([('':status'', ''200''), (''content-type'', content_type url), (''content-length'', len)],
                               set_body p ldata st))))"

section \<open>Writing\<close>

definition quic_server_write ::
  "('w, 'z) srv_env_scheme \<Rightarrow> uint64_t \<Rightarrow> vec \<Rightarrow> bool \<Rightarrow> 'w ex_st \<Rightarrow> (bool \<times> 'w ex_st) res" where
  "quic_server_write env streamid v conclude st =
     (case find_id streamid (xs_ids st) of
        None \<Rightarrow> Inr (False, st)
      | Some x \<Rightarrow>
          rbind (need (sid_s x)) (\<lambda>s.
          rbind (vec_bytes (xs_heap st) v) (\<lambda>bs.
            case xv_SSL_write_ex2 env s bs conclude (xs_world st) of
              (ok, w) \<Rightarrow> Inr (ok, st\<lparr>xs_world := w\<rparr>))))"

definition id_SSL_get_error :: "('w, 'z) srv_env_scheme \<Rightarrow> uint64_t \<Rightarrow> 'w ex_st \<Rightarrow> ssl_error option res" where
  "id_SSL_get_error env streamid st =
     (case find_id streamid (xs_ids st) of
        None \<Rightarrow> Inr None
      | Some x \<Rightarrow> rbind (need (sid_s x)) (\<lambda>s. Inr (Some (ex_SSL_get_error env s 0 (xs_world st)))))"

text \<open>The vectors of one call of nghttp3; \<^const>\<open>None\<close> gives the connection up.\<close>

fun write_vecs ::
  "('w, 'z) srv_env_scheme \<Rightarrow> ngptr \<Rightarrow> int \<Rightarrow> bool \<Rightarrow> vec list \<Rightarrow> nat \<Rightarrow> 'w ex_st \<Rightarrow> (nat option \<times> 'w ex_st) res" where
  "write_vecs env ng streamid fin [] sent st = Inr (Some sent, st)"
| "write_vecs env ng streamid fin (v # vs) sent st =
     rbind (quic_server_write env (of_int streamid) v (fin \<and> vs = []) st) (\<lambda>(ok, st).
       if ok
       then write_vecs env ng streamid fin vs (sent + vec_size v)
              (st\<lparr>xs_world := xv_unblock_stream env ng streamid (xs_world st)\<rparr>)
       else rbind (id_SSL_get_error env (of_int streamid) st) (\<lambda>err.
              if err = Some SSL_ERROR_WANT_WRITE
              then Inr (Some sent, st\<lparr>xs_world := xv_block_stream env ng streamid (xs_world st)\<rparr>)
              else Inr (None, st)))"

section \<open>The TLS context and the socket\<close>

definition select_alpn :: "(byte list \<Rightarrow> byte list \<Rightarrow> bool \<times> byte list) \<Rightarrow> byte list \<Rightarrow> bool \<times> byte list" where
  "select_alpn SSL_select_next_proto client =
     SSL_select_next_proto (5 # bytes_of ''h3-29'' @ 2 # bytes_of ''h3'') client"

definition free_ctx :: "('w, 'z) srv_env_scheme \<Rightarrow> nat option \<Rightarrow> 'w ex_st \<Rightarrow> 'w ex_st" where
  "free_ctx env ctx st =
     (case ctx of
        None \<Rightarrow> st
      | Some p \<Rightarrow> st\<lparr>xs_world := xv_SSL_CTX_free env p (xs_world st), xs_objs := remove1 (ObjCtx p) (xs_objs st)\<rparr>)"

definition create_ctx :: "('w, 'z) srv_env_scheme \<Rightarrow> string \<Rightarrow> string \<Rightarrow> 'w ex_st \<Rightarrow> nat option \<times> 'w ex_st" where
  "create_ctx env cert key st =
     (case xv_SSL_CTX_new env (xs_world st) of
        (None, w) \<Rightarrow> (None, st\<lparr>xs_world := w\<rparr>)
      | (Some p, w) \<Rightarrow>
          let st = st\<lparr>xs_objs := ObjCtx p # xs_objs st\<rparr>; (r1, w) = xv_use_certificate env p cert w
          in if r1 \<le> 0 then (None, free_ctx env (Some p) (st\<lparr>xs_world := w\<rparr>))
             else let (r2, w) = xv_use_key env p key w
                  in if r2 \<le> 0 then (None, free_ctx env (Some p) (st\<lparr>xs_world := w\<rparr>))
                     else let (ok, w) = xv_check_key env p w
                          in if \<not> ok then (None, free_ctx env (Some p) (st\<lparr>xs_world := w\<rparr>))
                             else (Some p, st\<lparr>xs_world := w\<rparr>))"

definition close_fd :: "('w, 'z) srv_env_scheme \<Rightarrow> int \<Rightarrow> 'w ex_st \<Rightarrow> 'w ex_st" where
  "close_fd env fd st = st\<lparr>xs_world := xv_closesocket env fd (xs_world st), xs_objs := remove1 (ObjFd fd) (xs_objs st)\<rparr>"

definition create_socket :: "('w, 'z) srv_env_scheme \<Rightarrow> nat \<Rightarrow> 'w ex_st \<Rightarrow> int \<times> 'w ex_st" where
  "create_socket env port st =
     (case xv_socket env (xs_world st) of
        (fd, w) \<Rightarrow>
          if fd < 0 then (- 1, st\<lparr>xs_world := w\<rparr>)
          else case xv_bind env fd port w of
                 (r, w) \<Rightarrow>
                   let st = st\<lparr>xs_world := w, xs_objs := ObjFd fd # xs_objs st\<rparr>
                   in if r < 0 then (- 1, close_fd env fd st) else (fd, st))"

definition waitsocket :: "('w, 'z) srv_env_scheme \<Rightarrow> int \<Rightarrow> int \<Rightarrow> int \<Rightarrow> 'w \<Rightarrow> int \<times> 'w" where
  "waitsocket env fd sec usec w =
     (let tv = (if sec = 0 \<and> usec = 0 then None else if sec = 0 then Some (0, usec + 1000) else Some (sec + 1, 0))
      in case xv_select env fd tv w of
           (ret, w) \<Rightarrow> (if ret = - 1 then - 2 else if ret \<noteq> 0 then 0 else - 1, w))"

definition get_next_timeout :: "('w, 'z) srv_env_scheme \<Rightarrow> 'w ex_st \<Rightarrow> (int \<times> int \<times> int) res" where
  "get_next_timeout env st =
     rbind (conn_ssl_of st) (\<lambda>c.
       case xv_SSL_get_event_timeout env c (xs_world st) of
         (ok, is_infinite, tv) \<Rightarrow> Inr (if \<not> ok then - 1 else if is_infinite then 0 else 1, tv))"

section \<open>The server as a machine\<close>

datatype label = LAccept | LRestart | LHeaders | LRespond | LSending | LSendLoop | LSent | LWaitClose | LDone | LErr

record 'w ex_cfg =
  cf_st :: "'w ex_st"
  cf_fd :: int
  cf_listener :: sptr
  cf_conn :: "sptr option"
  cf_h3conn :: ngptr
  cf_hassomething :: int
  cf_numtimeout :: int
  cf_num_nothing :: int

datatype 'w jump = Goto label "'w ex_cfg" | Ret int "'w ex_st" | Halt stop

definition on_res :: "'a res \<Rightarrow> ('a \<Rightarrow> 'w jump) \<Rightarrow> 'w jump" where
  "on_res x f = (case x of Inl e \<Rightarrow> Halt e | Inr v \<Rightarrow> f v)"

abbreviation on_st :: "('w ex_st \<Rightarrow> 'w ex_st) \<Rightarrow> 'w ex_cfg \<Rightarrow> 'w ex_cfg" where
  "on_st f c \<equiv> c\<lparr>cf_st := f (cf_st c)\<rparr>"

abbreviation cf_world :: "'w ex_cfg \<Rightarrow> 'w" where
  "cf_world c \<equiv> xs_world (cf_st c)"

abbreviation cf_h3 :: "'w ex_cfg \<Rightarrow> h3ssl" where
  "cf_h3 c \<equiv> xs_h3 (cf_st c)"

definition set_world :: "'w \<Rightarrow> 'w ex_cfg \<Rightarrow> 'w ex_cfg" where
  "set_world w c = on_st (\<lambda>st. st\<lparr>xs_world := w\<rparr>) c"

definition set_flags :: "(h3ssl \<Rightarrow> h3ssl) \<Rightarrow> 'w ex_cfg \<Rightarrow> 'w ex_cfg" where
  "set_flags f c = on_st (on_h3 f) c"

definition free_conn :: "('w, 'z) srv_env_scheme \<Rightarrow> 'w ex_cfg \<Rightarrow> 'w ex_cfg res" where
  "free_conn env c =
     (case cf_conn c of
        None \<Rightarrow> Inr c
      | Some p \<Rightarrow> if ObjSSL p \<in> set (xs_objs (cf_st c)) then Inr (on_st (ssl_free (ex_SSL_free env) (Some p)) c) else Inl Undefined)"

definition accept_conn :: "('w, 'z) srv_env_scheme \<Rightarrow> 'w ex_cfg \<Rightarrow> 'w ex_cfg" where
  "accept_conn env c =
     (case xv_SSL_accept_connection env (cf_listener c) (cf_world c) of
        (x, w) \<Rightarrow>
          c\<lparr>cf_conn := x,
             cf_st := (cf_st c)\<lparr>xs_world := w, xs_objs := (case x of None \<Rightarrow> [] | Some p \<Rightarrow> [ObjSSL p]) @ xs_objs (cf_st c)\<rparr>\<rparr>)"

text \<open>A new connection: its state, nghttp3's connection, and the first slot of the table.\<close>

definition new_connection :: "('w, 'z) srv_env_scheme \<Rightarrow> sptr \<Rightarrow> 'w ex_cfg \<Rightarrow> 'w jump" where
  "new_connection env p c =
     (case xv_SSL_set_policy_accept env p (cf_world c) of
        (ok, w) \<Rightarrow>
          if \<not> ok then Goto LErr (set_world w c)
          else case xv_conn_server_new env w of
                 (None, w) \<Rightarrow> Halt (Exited 1)
               | (Some ng, w) \<Rightarrow>
                   on_res (add_id UINT64_MAX p
                            ((cf_st c)\<lparr>xs_world := w, xs_h3 := init_ids, xs_objs := ObjNg ng # xs_objs (cf_st c)\<rparr>))
                     (\<lambda>st. Goto LRestart (c\<lparr>cf_st := st, cf_h3conn := ng, cf_numtimeout := 0, cf_num_nothing := 0\<rparr>)))"

definition accept_step :: "('w, 'z) srv_env_scheme \<Rightarrow> 'w ex_cfg \<Rightarrow> 'w jump" where
  "accept_step env c =
     (let (ret, w) = (if cf_hassomething c = 0 then waitsocket env (cf_fd c) 0 0 (cf_world c) else (0, cf_world c));
          c = set_world w c
      in if ret = - 2 then on_res (free_conn env c) (Goto LErr)
         else let c = accept_conn env c
              in case cf_conn c of
                   None \<Rightarrow> Goto LAccept (c\<lparr>cf_hassomething := 0\<rparr>)
                 | Some p \<Rightarrow> new_connection env p c)"

text \<open>Waiting for something on the connection: what to do next, and whether to give up.\<close>

definition handle_conn_events :: "('w, 'z) srv_env_scheme \<Rightarrow> 'w ex_cfg \<Rightarrow> ('w ex_cfg \<Rightarrow> 'w jump) \<Rightarrow> 'w jump" where
  "handle_conn_events env c f =
     on_res (conn_ssl_of (cf_st c)) (\<lambda>p.
       case xv_SSL_handle_events env p (cf_world c) of
         (ok, w) \<Rightarrow> if ok then f (set_world w c) else Goto LErr (set_world w c))"

definition wait_headers :: "('w, 'z) srv_env_scheme \<Rightarrow> 'w ex_cfg \<Rightarrow> ('w ex_cfg \<Rightarrow> 'w jump) \<Rightarrow> 'w jump" where
  "wait_headers env c f =
     (if cf_hassomething c \<noteq> 0 then f c
      else on_res (get_next_timeout env (cf_st c)) (\<lambda>(ret, sec, usec).
        if ret = - 1 then Goto LErr c
        else if ret = 0 then Goto LDone c
        else case waitsocket env (cf_fd c) sec usec (cf_world c) of
               (r, w) \<Rightarrow>
                 let c = set_world w c
                 in if r \<noteq> 0
                    then let c = c\<lparr>cf_numtimeout := cf_numtimeout c + 1\<rparr>
                         in if cf_numtimeout c = 35 then Goto LErr c else f c
                    else handle_conn_events env c f))"

definition headers_read :: "('w, 'z) srv_env_scheme \<Rightarrow> 'w ex_cfg \<Rightarrow> 'w jump" where
  "headers_read env c =
     on_res (read_from_ssl_ids env (cf_h3conn c) (cf_st c)) (\<lambda>(n, st).
       let c = c\<lparr>cf_st := st, cf_hassomething := n\<rparr>
       in if n = - 1 then Goto LErr c
          else if n = 0 then Goto LHeaders c
          else let c = c\<lparr>cf_numtimeout := 0\<rparr>
               in if h_close_done (cf_h3 c) then Goto LRespond c
                  else Goto LHeaders (set_flags (\<lambda>h. h\<lparr>h_restart := False\<rparr>) c))"

definition headers_step :: "('w, 'z) srv_env_scheme \<Rightarrow> 'w ex_cfg \<Rightarrow> 'w jump" where
  "headers_step env c =
     (if h_end_headers_received (cf_h3 c) then Goto LRespond c else wait_headers env c (headers_read env))"

definition respond_step :: "('w, 'z) srv_env_scheme \<Rightarrow> 'w ex_cfg \<Rightarrow> 'w jump" where
  "respond_step env c =
     (if h_close_done (cf_h3 c) then Goto LWaitClose c
      else on_res (if h_has_uni (cf_h3 c) then Inr (0, cf_st c) else quic_server_h3streams env (cf_h3conn c) (cf_st c)) (\<lambda>(r, st).
        if r = - 1 then Goto LErr (c\<lparr>cf_st := st\<rparr>)
        else on_res (build_response env (on_h3 (\<lambda>h. h\<lparr>h_has_uni := True\<rparr>) st)) (\<lambda>(resp, st).
          case xv_submit_response env (cf_h3conn c) (h_id_bidi (xs_h3 st)) resp (xs_world st) of
            (failed, w) \<Rightarrow> Goto (if failed then LErr else LSending) (c\<lparr>cf_st := st\<lparr>xs_world := w\<rparr>\<rparr>))))"

definition sendloop_step :: "('w, 'z) srv_env_scheme \<Rightarrow> 'w ex_cfg \<Rightarrow> 'w jump" where
  "sendloop_step env c =
     on_res (ex_run_cb env (xv_writev_stream env (cf_h3conn c) (cf_world c)) (cf_st c)) (\<lambda>((sveccnt, streamid, fin, vecs), st).
       let c = c\<lparr>cf_st := st\<rparr>
       in if sveccnt \<le> 0
          then let c = c\<lparr>cf_num_nothing := cf_num_nothing c + 1\<rparr>
               in if streamid \<noteq> - 1 \<and> fin
                  then Goto LSendLoop (set_world (snd (xv_add_write_offset env (cf_h3conn c) streamid 0 (cf_world c))) c)
                  else if \<not> h_datadone (cf_h3 c) \<and> sveccnt < 0 then Goto LErr c
                  else Goto LSent c
          else on_res (write_vecs env (cf_h3conn c) streamid fin vecs 0 st) (\<lambda>(r, st).
                 let c = c\<lparr>cf_st := st\<rparr>
                 in case r of
                      None \<Rightarrow> Goto LDone c
                    | Some sent \<Rightarrow>
                        if sent = 0 then Goto LSendLoop c
                        else case xv_add_write_offset env (cf_h3conn c) streamid sent (cf_world c) of
                               (failed, w) \<Rightarrow> Goto (if failed then LErr else LSendLoop) (set_world w c)))"

definition sent_step :: "('w, 'z) srv_env_scheme \<Rightarrow> 'w ex_cfg \<Rightarrow> 'w jump" where
  "sent_step env c =
     (if h_datadone (cf_h3 c)
      then Goto LWaitClose (if h_close_done (cf_h3 c) then c else set_flags (\<lambda>h. h\<lparr>h_close_wait := True\<rparr>) c)
      else on_res (read_from_ssl_ids env (cf_h3conn c) (cf_st c)) (\<lambda>(n, st).
        let c = c\<lparr>cf_st := st\<rparr>;
            c = (if cf_num_nothing c = 50
                 then set_world (xv_unblock_stream env (cf_h3conn c) (sint (h_id_bidi (cf_h3 c))) (cf_world c)) c else c)
        in if cf_num_nothing c = 100 then Halt (Exited 1) else Goto LSending c))"

definition wait_event :: "('w, 'z) srv_env_scheme \<Rightarrow> 'w ex_cfg \<Rightarrow> int \<Rightarrow> int \<Rightarrow> (bool \<Rightarrow> 'w ex_cfg \<Rightarrow> 'w jump) \<Rightarrow> 'w jump" where
  "wait_event env c sec usec f =
     (if sec = 0 \<and> usec = 0 then f False c
      else case waitsocket env (cf_fd c) sec usec (cf_world c) of
             (r, w) \<Rightarrow> handle_conn_events env (set_world w c) (f (r = 0)))"

definition check_shutdown :: "('w, 'z) srv_env_scheme \<Rightarrow> 'w ex_cfg \<Rightarrow> 'w jump \<Rightarrow> 'w jump" where
  "check_shutdown env c k =
     on_res (conn_ssl_of (cf_st c)) (\<lambda>p. if xv_SSL_both_shutdown env p (cf_world c) then Goto LDone c else k)"

definition wait_nothing :: "('w, 'z) srv_env_scheme \<Rightarrow> bool \<Rightarrow> 'w ex_cfg \<Rightarrow> 'w jump" where
  "wait_nothing env notimeout c =
     handle_conn_events env (if notimeout then accept_conn env c else c) (\<lambda>c.
       check_shutdown env c (Goto LWaitClose c))"

definition wait_something :: "('w, 'z) srv_env_scheme \<Rightarrow> bool \<Rightarrow> 'w ex_cfg \<Rightarrow> 'w jump" where
  "wait_something env notimeout c =
     (if h_done (cf_h3 c) then Goto LDone (c\<lparr>cf_hassomething := 1\<rparr>)
      else if h_restart (cf_h3 c) then Goto LRestart (set_flags (\<lambda>h. h\<lparr>h_restart := False\<rparr>) c)
      else if are_all_clientid_closed (cf_h3 c) then Goto LDone (c\<lparr>cf_hassomething := 1\<rparr>)
      else check_shutdown env c (Goto LWaitClose (if notimeout then accept_conn env c else c)))"

definition wait_read :: "('w, 'z) srv_env_scheme \<Rightarrow> bool \<Rightarrow> 'w ex_cfg \<Rightarrow> 'w jump" where
  "wait_read env notimeout c =
     on_res (read_from_ssl_ids env (cf_h3conn c) (cf_st c)) (\<lambda>(n, st).
       let c = c\<lparr>cf_st := st\<rparr>
       in if n = - 1 then Goto LDone c
          else if n = 0 then wait_nothing env notimeout c else wait_something env notimeout c)"

definition wait_body :: "('w, 'z) srv_env_scheme \<Rightarrow> int \<Rightarrow> int \<Rightarrow> 'w ex_cfg \<Rightarrow> 'w jump" where
  "wait_body env sec usec c = wait_event env c sec usec (wait_read env)"

definition wait_close_step :: "('w, 'z) srv_env_scheme \<Rightarrow> 'w ex_cfg \<Rightarrow> 'w jump" where
  "wait_close_step env c =
     on_res (get_next_timeout env (cf_st c)) (\<lambda>(ret, sec, usec).
       if ret = - 1 then Goto LErr c
       else if ret = 0
       then handle_conn_events env (c\<lparr>cf_hassomething := 0\<rparr>) (\<lambda>c. check_shutdown env c (wait_body env sec usec c))
       else wait_body env sec usec c)"

definition srv_step :: "('w, 'z) srv_env_scheme \<Rightarrow> label \<Rightarrow> 'w ex_cfg \<Rightarrow> 'w jump" where
  "srv_step env l c =
     (case l of
        LAccept \<Rightarrow> accept_step env c
      | LRestart \<Rightarrow> Goto LHeaders (c\<lparr>cf_numtimeout := 0\<rparr>)
      | LHeaders \<Rightarrow> headers_step env c
      | LRespond \<Rightarrow> respond_step env c
      | LSending \<Rightarrow> Goto LSendLoop c
      | LSendLoop \<Rightarrow> sendloop_step env c
      | LSent \<Rightarrow> sent_step env c
      | LWaitClose \<Rightarrow> wait_close_step env c
      | LDone \<Rightarrow> on_res (free_conn env c) (Goto LAccept)
      | LErr \<Rightarrow> Ret 0 (ssl_free (ex_SSL_free env) (Some (cf_listener c)) (cf_st c)))"

partial_function (option) run_from :: "('w, 'z) srv_env_scheme \<Rightarrow> label \<Rightarrow> 'w ex_cfg \<Rightarrow> (int \<times> 'w ex_st) res option" where
  "run_from env l c =
     (case srv_step env l c of
        Goto l' c' \<Rightarrow> run_from env l' c'
      | Ret r st \<Rightarrow> Some (Inr (r, st))
      | Halt e \<Rightarrow> Some (Inl e))"

definition run_quic_server :: "('w, 'z) srv_env_scheme \<Rightarrow> nat \<Rightarrow> int \<Rightarrow> 'w ex_st \<Rightarrow> (int \<times> 'w ex_st) res option" where
  "run_quic_server env ctx fd st =
     (case xv_SSL_new_listener env ctx (xs_world st) of
        (None, w) \<Rightarrow> Some (Inr (0, st\<lparr>xs_world := w\<rparr>))
      | (Some l, w) \<Rightarrow>
          let st = st\<lparr>xs_objs := ObjSSL l # xs_objs st\<rparr>;
              (ok, w) = xv_SSL_set_fd env l fd w;
              (ok, w) = (if ok then xv_SSL_listen env l w else (False, w));
              (ok, w) = (if ok then xv_SSL_set_nonblocking env l w else (False, w))
          in run_from env (if ok then LAccept else LErr)
               \<lparr>cf_st = st\<lparr>xs_world := w\<rparr>, cf_fd = fd, cf_listener = l, cf_conn = None, cf_h3conn = 0,
                cf_hassomething = 0, cf_numtimeout = 0, cf_num_nothing = 0\<rparr>)"

section \<open>The main program\<close>

text \<open>\<^verbatim>\<open>strtoul\<close> in base 0: octal after \<^verbatim>\<open>0\<close>, hexadecimal after \<^verbatim>\<open>0x\<close>, decimal otherwise.\<close>

definition digit_val :: "char \<Rightarrow> nat option" where
  "digit_val c =
     (let n = of_char c :: nat
      in if 48 \<le> n \<and> n \<le> 57 then Some (n - 48)
         else if 97 \<le> n \<and> n \<le> 122 then Some (n - 87)
         else if 65 \<le> n \<and> n \<le> 90 then Some (n - 55) else None)"

fun read_digits :: "nat \<Rightarrow> nat \<Rightarrow> string \<Rightarrow> nat" where
  "read_digits b acc [] = acc"
| "read_digits b acc (c # cs) =
     (case digit_val c of Some d \<Rightarrow> if d < b then read_digits b (acc * b + d) cs else acc | None \<Rightarrow> acc)"

definition c_isspace :: "char \<Rightarrow> bool" where
  "c_isspace c \<longleftrightarrow> (let n = of_char c :: nat in n = 32 \<or> (9 \<le> n \<and> n \<le> 13))"

definition strtoul0 :: "string \<Rightarrow> uint64_t" where
  "strtoul0 s =
     (let t = dropWhile c_isspace s;
          neg = (take 1 t = ''-'');
          u = (if neg \<or> take 1 t = ''+'' then tl t else t);
          hex = (take 2 u = ''0x'' \<or> take 2 u = ''0X'') \<and> (case drop 2 u of [] \<Rightarrow> False | c # _ \<Rightarrow> (case digit_val c of Some d \<Rightarrow> d < 16 | None \<Rightarrow> False));
          v = (if hex then read_digits 16 0 (drop 2 u) else if take 1 u = ''0'' then read_digits 8 0 u else read_digits 10 0 u)
      in if v \<ge> 2 ^ 64 then - 1 else if neg then - of_nat v else of_nat v)"

text \<open>The exit code, with everything released that \<^verbatim>\<open>main\<close> holds.\<close>

definition main_exit :: "('w, 'z) srv_env_scheme \<Rightarrow> int \<Rightarrow> nat option \<Rightarrow> int \<Rightarrow> 'w ex_st \<Rightarrow> (int \<times> 'w ex_st) res option" where
  "main_exit env rc ctx fd st =
     (let st = free_ctx env ctx st in Some (Inr (rc, if fd \<noteq> - 1 then close_fd env fd st else st)))"

definition ex_main :: "('w, 'z) srv_env_scheme \<Rightarrow> string list \<Rightarrow> 'w ex_st \<Rightarrow> (int \<times> 'w ex_st) res option" where
  "ex_main env argv st =
     (if length argv < 4 then main_exit env 1 None (- 1) st
      else case create_ctx env (argv ! 2) (argv ! 3) st of
             (None, st) \<Rightarrow> main_exit env 1 None (- 1) st
           | (Some ctx, st) \<Rightarrow>
               let port = strtoul0 (argv ! 1)
               in if port = 0 \<or> port > 65535 then main_exit env 1 (Some ctx) (- 1) st
                  else case create_socket env (unat port) st of
                         (fd, st) \<Rightarrow>
                           if fd < 0 then main_exit env 1 (Some ctx) (- 1) st
                           else case run_quic_server env ctx fd st of
                                  None \<Rightarrow> None
                                | Some (Inl e) \<Rightarrow> Some (Inl e)
                                | Some (Inr (ok, st)) \<Rightarrow> main_exit env (if ok = 0 then 1 else 0) (Some ctx) fd st)"

section \<open>What the machine keeps\<close>

lemma on_res_Goto: "on_res x f = Goto l c \<longleftrightarrow> (\<exists>v. x = Inr v \<and> f v = Goto l c)"
  by (cases x) (simp_all add: on_res_def)

lemma on_res_Inr [simp]: "on_res (Inr v) f = f v"
  by (simp add: on_res_def)

locale srv_invariant = ex_invariant env I R
  for env :: "('w, 'z) srv_env_scheme" and I :: "'w ex_st \<Rightarrow> bool" and R :: "'w \<Rightarrow> 'w \<Rightarrow> bool" +
  assumes object_law: "I st \<Longrightarrow> I (st\<lparr>xs_objs := ObjSSL s # xs_objs st\<rparr>)"
    and build_law: "I st \<Longrightarrow> build_response env st = Inr (resp, st') \<Longrightarrow> I st'"
    and write_R: "R w (snd (xv_SSL_write_ex2 env s bs b w))"
    and events_R: "R w (snd (xv_SSL_handle_events env s w))"
    and select_R: "R w (snd (xv_select env fd tv w))"
    and conns_R: "R w (snd (xv_SSL_accept_connection env s w))"
    and submit_R: "R w (snd (xv_submit_response env ng k resp w))"
    and writev_R: "w' \<in> cb_worlds (xv_writev_stream env ng w) \<Longrightarrow> R w w'"
    and offset_R: "R w (snd (xv_add_write_offset env ng sid n w))"
    and block_R: "R w (xv_block_stream env ng sid w)" "R w (xv_unblock_stream env ng sid w)"
begin

lemma world_I: "I (cf_st c) \<Longrightarrow> R (cf_world c) w \<Longrightarrow> I (cf_st (set_world w c))"
  by (simp add: set_world_def world_law)

lemma flag_I: "I (cf_st c) \<Longrightarrow> ex_core (on_h3 f (cf_st c)) = ex_core (cf_st c) \<Longrightarrow> I (cf_st (set_flags f c))"
  by (simp add: set_flags_def flags_I)

lemma waitsocket_R: "waitsocket env fd sec usec w = (r, w') \<Longrightarrow> R w w'"
  using select_R by (auto simp: waitsocket_def Let_def split: prod.splits) (metis snd_conv)+

lemma handle_conn_events_I:
  assumes "I (cf_st c)" "handle_conn_events env c f = Goto l c'" "\<And>c1. I (cf_st c1) \<Longrightarrow> f c1 = Goto l c' \<Longrightarrow> I (cf_st c')"
  shows "I (cf_st c')"
proof -
  obtain p where p: "conn_ssl_of (cf_st c) = Inr p" using assms(2) by (auto simp: handle_conn_events_def on_res_Goto)
  obtain ok w where w: "xv_SSL_handle_events env p (cf_world c) = (ok, w)" by fastforce
  then have "I (cf_st (set_world w c))" using world_I [OF assms(1)] events_R by (metis snd_conv)
  then show ?thesis using assms(2,3) p w by (auto simp: handle_conn_events_def split: if_splits)
qed

lemma accept_conn_I:
  assumes "I (cf_st c)"
  shows "I (cf_st (accept_conn env c))"
proof -
  obtain x w where x: "xv_SSL_accept_connection env (cf_listener c) (cf_world c) = (x, w)" by fastforce
  then have "I ((cf_st c)\<lparr>xs_world := w\<rparr>)" using world_law [OF assms] conns_R by (metis snd_conv)
  then show ?thesis using x object_law by (auto simp: accept_conn_def split: option.split dest: object_law)
qed

lemma quic_server_write_I:
  assumes "I st" "quic_server_write env k v b st = Inr (ok, st')"
  shows "I st'"
proof (cases "find_id k (xs_ids st)")
  case (Some x)
  then obtain s bs where s: "need (sid_s x) = Inr s" "vec_bytes (xs_heap st) v = Inr bs"
    using assms(2) by (auto simp: quic_server_write_def rbind_Inr)
  obtain ok1 w where w: "xv_SSL_write_ex2 env s bs b (xs_world st) = (ok1, w)" by fastforce
  then have "R (xs_world st) w" using write_R by (metis snd_conv)
  then have "I (st\<lparr>xs_world := w\<rparr>)" by (rule world_law [OF assms(1)])
  then show ?thesis using assms(2) Some s w by (simp add: quic_server_write_def)
qed (use assms in \<open>simp add: quic_server_write_def\<close>)

lemma write_vecs_I: "I st \<Longrightarrow> write_vecs env ng k fin vs sent st = Inr (r, st') \<Longrightarrow> I st'"
proof (induction vs arbitrary: sent st)
  case (Cons v vs)
  obtain ok st1 where 1: "quic_server_write env (of_int k) v (fin \<and> vs = []) st = Inr (ok, st1)"
    using Cons.prems(2) by (auto simp: rbind_Inr)
  then have I1: "I st1" using quic_server_write_I Cons.prems(1) by blast
  show ?case
  proof (cases ok)
    case True
    then show ?thesis using Cons.IH [OF world_law [OF I1 block_R(2)]] Cons.prems(2) 1 by simp
  next
    case False
    then show ?thesis using Cons.prems(2) 1 I1 world_law [OF I1] block_R(1) by (auto simp: rbind_Inr split: if_splits)
  qed
qed simp

lemma wait_headers_I:
  assumes "I (cf_st c)" "wait_headers env c f = Goto l c'" "\<And>c1. I (cf_st c1) \<Longrightarrow> f c1 = Goto l c' \<Longrightarrow> I (cf_st c')"
  shows "I (cf_st c')"
proof (cases "cf_hassomething c = 0")
  case True
  then obtain ret sec usec where 1: "get_next_timeout env (cf_st c) = Inr (ret, sec, usec)"
    using assms(2) by (auto simp: wait_headers_def on_res_Goto)
  obtain r w where w: "waitsocket env (cf_fd c) sec usec (cf_world c) = (r, w)" by fastforce
  have Iw: "I (cf_st (set_world w c))" by (rule world_I [OF assms(1) waitsocket_R [OF w]])
  then have It: "I (cf_st ((set_world w c)\<lparr>cf_numtimeout := n\<rparr>))" for n by simp
  consider "c' = c" | n where "c' = (set_world w c)\<lparr>cf_numtimeout := n\<rparr>" | n where "f ((set_world w c)\<lparr>cf_numtimeout := n\<rparr>) = Goto l c'"
    | "handle_conn_events env (set_world w c) f = Goto l c'"
    using assms(2) True 1 w by (auto simp: wait_headers_def Let_def split: if_splits)
  then show ?thesis
  proof cases
    case 4
    then show ?thesis using handle_conn_events_I [OF Iw] assms(3) by blast
  next
    case (3 n)
    then show ?thesis using assms(3) [OF It] by blast
  qed (use assms(1) It in auto)
qed (use assms in \<open>simp add: wait_headers_def\<close>)

lemma headers_read_I:
  assumes "I (cf_st c)" "headers_read env c = Goto l c'"
  shows "I (cf_st c')"
proof -
  obtain n st where r: "read_from_ssl_ids env (cf_h3conn c) (cf_st c) = Inr (n, st)"
    using assms(2) by (auto simp: headers_read_def on_res_Goto)
  then have "I st" using read_from_ssl_ids_I assms(1) by blast
  then show ?thesis using assms(2) r flags_I [of st]
    by (auto simp: headers_read_def Let_def set_flags_def ex_core_def split: if_splits)
qed

lemma headers_step_I: "I (cf_st c) \<Longrightarrow> headers_step env c = Goto l c' \<Longrightarrow> I (cf_st c')"
  by (auto simp: headers_step_def split: if_splits intro: wait_headers_I headers_read_I)

lemma respond_step_I:
  assumes "I (cf_st c)" "respond_step env c = Goto l c'"
  shows "I (cf_st c')"
proof (cases "h_close_done (cf_h3 c)")
  case False
  then obtain r st where 1: "(if h_has_uni (cf_h3 c) then Inr (0, cf_st c) else quic_server_h3streams env (cf_h3conn c) (cf_st c)) = Inr (r, st)"
    using assms(2) by (auto simp: respond_step_def on_res_Goto)
  then have I1: "I st" using assms(1) unis_law by (auto split: if_splits)
  then have I2: "I (on_h3 (\<lambda>h. h\<lparr>h_has_uni := True\<rparr>) st)" by (rule flags_I) (simp add: ex_core_def)
  show ?thesis
  proof (cases "r = - 1")
    case False
    then obtain resp st2 where 2: "build_response env (on_h3 (\<lambda>h. h\<lparr>h_has_uni := True\<rparr>) st) = Inr (resp, st2)"
      using assms(2) 1 \<open>\<not> h_close_done (cf_h3 c)\<close> by (auto simp: respond_step_def on_res_Goto)
    have I3: "I st2" by (rule build_law [OF I2 2])
    obtain f w where w: "xv_submit_response env (cf_h3conn c) (h_id_bidi (xs_h3 st2)) resp (xs_world st2) = (f, w)" by fastforce
    then have "R (xs_world st2) w" using submit_R by (metis snd_conv)
    then have "I (st2\<lparr>xs_world := w\<rparr>)" by (rule world_law [OF I3])
    then show ?thesis using assms(2) 1 2 w False \<open>\<not> h_close_done (cf_h3 c)\<close> by (auto simp: respond_step_def)
  qed (use assms(2) 1 I1 False in \<open>auto simp: respond_step_def\<close>)
qed (use assms in \<open>simp add: respond_step_def\<close>)

lemma sendloop_step_I:
  assumes "I (cf_st c)" "sendloop_step env c = Goto l c'"
  shows "I (cf_st c')"
proof -
  obtain n k fin vs st where 1: "ex_run_cb env (xv_writev_stream env (cf_h3conn c) (cf_world c)) (cf_st c) = Inr ((n, k, fin, vs), st)"
    using assms(2) by (auto simp: sendloop_step_def on_res_Goto)
  have I1: "I st" by (rule cb_I [OF assms(1) 1]) (rule writev_R)
  have off: "R w (snd (xv_add_write_offset env ng k m w))" for ng m w by (rule offset_R)
  show ?thesis
  proof (cases "n \<le> 0")
    case True
    then show ?thesis using assms(2) 1 I1 world_law [OF I1 off]
      by (auto simp: sendloop_step_def Let_def set_world_def split: if_splits)
  next
    case False
    then obtain r st2 where 2: "write_vecs env (cf_h3conn c) k fin vs 0 st = Inr (r, st2)"
      using assms(2) 1 by (auto simp: sendloop_step_def Let_def on_res_Goto)
    have I2: "I st2" by (rule write_vecs_I [OF I1 2])
    show ?thesis
    proof (cases r)
      case (Some sent)
      obtain f w where w: "xv_add_write_offset env (cf_h3conn c) k sent (xs_world st2) = (f, w)" by fastforce
      then have "R (xs_world st2) w" using off by (metis snd_conv)
      then have "I (st2\<lparr>xs_world := w\<rparr>)" by (rule world_law [OF I2])
      then show ?thesis using assms(2) 1 2 w Some False I2
        by (auto simp: sendloop_step_def Let_def set_world_def split: if_splits)
    qed (use assms(2) 1 2 False I2 in \<open>auto simp: sendloop_step_def Let_def\<close>)
  qed
qed

lemma sent_step_I:
  assumes "I (cf_st c)" "sent_step env c = Goto l c'"
  shows "I (cf_st c')"
proof (cases "h_datadone (cf_h3 c)")
  case True
  then show ?thesis using assms flags_I [OF assms(1)] by (auto simp: sent_step_def set_flags_def ex_core_def)
next
  case False
  then obtain n st where r: "read_from_ssl_ids env (cf_h3conn c) (cf_st c) = Inr (n, st)"
    using assms(2) by (auto simp: sent_step_def on_res_Goto)
  have I1: "I st" by (rule read_from_ssl_ids_I [OF assms(1) r])
  then show ?thesis using assms(2) r False world_law [OF I1 block_R(2)]
    by (auto simp: sent_step_def Let_def set_world_def split: if_splits)
qed

end

definition served :: "label set" where
  "served = {LRestart, LHeaders, LRespond, LSending, LSendLoop, LSent, LWaitClose}"

context srv_invariant
begin

lemma wait_event_I:
  assumes "I (cf_st c)" "wait_event env c sec usec f = Goto l c'" "\<And>b c1. I (cf_st c1) \<Longrightarrow> f b c1 = Goto l c' \<Longrightarrow> I (cf_st c')"
  shows "I (cf_st c')"
proof (cases "sec = 0 \<and> usec = 0")
  case True
  then show ?thesis using assms by (simp add: wait_event_def)
next
  case False
  obtain r w where w: "waitsocket env (cf_fd c) sec usec (cf_world c) = (r, w)" by fastforce
  have "I (cf_st (set_world w c))" by (rule world_I [OF assms(1) waitsocket_R [OF w]])
  moreover have "handle_conn_events env (set_world w c) (f (r = 0)) = Goto l c'" using assms(2) False w by (auto simp: wait_event_def)
  ultimately show ?thesis using handle_conn_events_I assms(3) by blast
qed

lemma check_shutdown_I:
  "I (cf_st c) \<Longrightarrow> check_shutdown env c k = Goto l c' \<Longrightarrow> (k = Goto l c' \<Longrightarrow> I (cf_st c')) \<Longrightarrow> I (cf_st c')"
  by (auto simp: check_shutdown_def on_res_Goto split: if_splits)

lemma wait_nothing_I:
  assumes "I (cf_st c)" "wait_nothing env b c = Goto l c'"
  shows "I (cf_st c')"
proof -
  have "I (cf_st (if b then accept_conn env c else c))" using assms(1) accept_conn_I by simp
  then show ?thesis using assms(2) unfolding wait_nothing_def
  proof (rule handle_conn_events_I)
    fix c1 assume I1: "I (cf_st c1)" and g: "check_shutdown env c1 (Goto LWaitClose c1) = Goto l c'"
    show "I (cf_st c')" by (rule check_shutdown_I [OF I1 g]) (use I1 in simp)
  qed
qed

lemma wait_something_I:
  assumes "I (cf_st c)" "wait_something env b c = Goto l c'"
  shows "I (cf_st c')"
proof -
  have "I (cf_st (set_flags (\<lambda>h. h\<lparr>h_restart := False\<rparr>) c))" by (rule flag_I [OF assms(1)]) (simp add: ex_core_def)
  moreover have "I (cf_st c')" if "check_shutdown env c (Goto LWaitClose (if b then accept_conn env c else c)) = Goto l c'"
    by (rule check_shutdown_I [OF assms(1) that]) (use assms(1) accept_conn_I [OF assms(1)] in \<open>auto split: if_splits\<close>)
  ultimately show ?thesis using assms by (auto simp: wait_something_def split: if_splits)
qed

lemma wait_read_I:
  assumes "I (cf_st c)" "wait_read env b c = Goto l c'"
  shows "I (cf_st c')"
proof -
  obtain n st where r: "read_from_ssl_ids env (cf_h3conn c) (cf_st c) = Inr (n, st)"
    using assms(2) by (auto simp: wait_read_def on_res_Goto)
  then have "I (cf_st (c\<lparr>cf_st := st\<rparr>))" using read_from_ssl_ids_I assms(1) by simp
  moreover have "c' = c\<lparr>cf_st := st\<rparr> \<or> wait_nothing env b (c\<lparr>cf_st := st\<rparr>) = Goto l c' \<or> wait_something env b (c\<lparr>cf_st := st\<rparr>) = Goto l c'"
    using assms(2) r by (auto simp: wait_read_def Let_def split: if_splits)
  ultimately show ?thesis using wait_nothing_I wait_something_I by blast
qed

lemma wait_body_I:
  assumes "I (cf_st c)" "wait_body env sec usec c = Goto l c'"
  shows "I (cf_st c')"
  using wait_event_I [OF assms(1) assms(2) [unfolded wait_body_def]] wait_read_I by blast

lemma wait_close_step_I:
  assumes "I (cf_st c)" "wait_close_step env c = Goto l c'"
  shows "I (cf_st c')"
proof -
  obtain ret sec usec where 1: "get_next_timeout env (cf_st c) = Inr (ret, sec, usec)"
    using assms(2) by (auto simp: wait_close_step_def on_res_Goto)
  have "I (cf_st c')" if g: "handle_conn_events env (c\<lparr>cf_hassomething := 0\<rparr>) (\<lambda>c. check_shutdown env c (wait_body env sec usec c)) = Goto l c'"
  proof (rule handle_conn_events_I [OF _ g])
    fix c1 assume I1: "I (cf_st c1)" and h: "check_shutdown env c1 (wait_body env sec usec c1) = Goto l c'"
    show "I (cf_st c')" by (rule check_shutdown_I [OF I1 h]) (rule wait_body_I [OF I1])
  qed (use assms(1) in simp)
  then show ?thesis using assms 1 wait_body_I by (auto simp: wait_close_step_def split: if_splits)
qed

lemma srv_step_I: "I (cf_st c) \<Longrightarrow> l \<in> served \<Longrightarrow> srv_step env l c = Goto l' c' \<Longrightarrow> I (cf_st c')"
  by (cases l) (auto simp: srv_step_def served_def
      intro: headers_step_I respond_step_I sendloop_step_I sent_step_I wait_close_step_I)

end

definition srv_calls_ok :: "('w, 'z) srv_env_scheme \<Rightarrow> 'w used_ids \<Rightarrow> bool" where
  "srv_calls_ok env used \<longleftrightarrow>
     stream_calls_ok env used \<and>
     (\<forall>name w. grows used w (snd (xv_stat env name w))) \<and>
     (\<forall>name n w. grows used w (snd (xv_read_file env name n w))) \<and>
     (\<forall>s bs b w. grows used w (snd (xv_SSL_write_ex2 env s bs b w))) \<and>
     (\<forall>s w. grows used w (snd (xv_SSL_handle_events env s w))) \<and>
     (\<forall>fd tv w. grows used w (snd (xv_select env fd tv w))) \<and>
     (\<forall>s w. grows used w (snd (xv_SSL_accept_connection env s w))) \<and>
     (\<forall>ng k resp w. grows used w (snd (xv_submit_response env ng k resp w))) \<and>
     (\<forall>ng w w'. w' \<in> cb_worlds (xv_writev_stream env ng w) \<longrightarrow> grows used w w') \<and>
     (\<forall>ng k n w. grows used w (snd (xv_add_write_offset env ng k n w))) \<and>
     (\<forall>ng k w. grows used w (xv_block_stream env ng k w)) \<and>
     (\<forall>ng k w. grows used w (xv_unblock_stream env ng k w))"

text \<open>The world after a file was looked at or read.\<close>

inductive file_world :: "('w, 'z) srv_env_scheme \<Rightarrow> 'w \<Rightarrow> 'w \<Rightarrow> bool" for env w where
  "file_world env w w"
| "file_world env w w' \<Longrightarrow> file_world env w (snd (xv_stat env name w'))"
| "file_world env w w' \<Longrightarrow> file_world env w (snd (xv_read_file env name n w'))"

lemma file_world_grows: "file_world env w w' \<Longrightarrow> srv_calls_ok env used \<Longrightarrow> grows used w w'"
  by (induction rule: file_world.induct) (auto simp: srv_calls_ok_def intro: grows_trans)

lemma file_length_world:
  assumes "get_file_length env name w1 = (n, w2)" "file_world env w w1"
  shows "file_world env w w2"
proof (cases "name = bytes_of ''big''")
  case False
  obtain x w3 where "xv_stat env name w1 = (x, w3)" by fastforce
  then show ?thesis using assms False file_world.intros(2) [OF assms(2), of name]
    by (auto simp: get_file_length_def split: option.splits bool.splits prod.splits)
qed (use assms in \<open>auto simp: get_file_length_def\<close>)

lemma file_data_result:
  assumes "get_file_data env name st = Inr (p, st')" "file_world env w (xs_world st)"
  shows "xs_h3 st' = xs_h3 st \<and> xs_objs st' = xs_objs st \<and> file_world env w (xs_world st') \<and> (\<forall>a. p = PHeap a \<longrightarrow> xs_heap st' a \<noteq> None)"
proof -
  obtain n w1 where 1: "get_file_length env name (xs_world st) = (n, w1)" by fastforce
  have f: "file_world env w w1" by (rule file_length_world [OF 1 assms(2)])
  obtain x w2 where 2: "xv_read_file env name (nat n) w1 = (x, w2)" by fastforce
  have "file_world env w w2" using file_world.intros(3) [OF f, of name "nat n"] 2 by simp
  then show ?thesis using assms(1) 1 2 f
    by (auto simp: get_file_data_def Let_def rbind_Inr need_Inr split: if_splits option.splits)
qed

lemma build_response_result:
  assumes "build_response env st = Inr (resp, st')"
  shows "\<exists>p n. xs_h3 st' = (xs_h3 st)\<lparr>h_ptr_data := p, h_ldata := n\<rparr> \<and> xs_objs st' = xs_objs st \<and>
    file_world env (xs_world st) (xs_world st') \<and> data_ok st'"
proof -
  obtain url where url: "url_string st = Some url" using assms by (auto simp: build_response_def rbind_Inr need_Inr)
  obtain n w1 where 1: "get_file_length env url (xs_world st) = (n, w1)" by fastforce
  have f: "file_world env (xs_world st) w1" by (rule file_length_world [OF 1 file_world.intros(1)])
  consider "st' = set_body PNulldata 20 (st\<lparr>xs_world := w1\<rparr>)"
    | a m bs where "st' = set_body (PHeap a) m (st\<lparr>xs_world := w1, xs_heap := (xs_heap st)(a \<mapsto> bs)\<rparr>)"
    | p m st2 where "get_file_data env url (st\<lparr>xs_world := w1\<rparr>) = Inr (p, st2)" "st' = set_body p m st2"
    using assms url 1 by (auto simp: build_response_def rbind_Inr need_Inr Let_def split: if_splits)
  then show ?thesis
  proof cases
    case (3 p m st2)
    then show ?thesis using file_data_result [OF 3(1), of "xs_world st"] f by (auto simp: set_body_def data_ok_def)
  qed (use f in \<open>auto simp: set_body_def data_ok_def\<close>)
qed

lemma build_inv:
  assumes "srv_calls_ok env used" "conn_inv used c st" "build_response env st = Inr (resp, st')"
  shows "conn_inv used c st'"
proof -
  from build_response_result [OF assms(3)] obtain p n where b: "xs_h3 st' = (xs_h3 st)\<lparr>h_ptr_data := p, h_ldata := n\<rparr>"
    "file_world env (xs_world st) (xs_world st')" "data_ok st'" by blast
  have "used c (xs_world st) \<subseteq> used c (xs_world st')" using file_world_grows [OF b(2) assms(1)] by (simp add: grows_def)
  then show ?thesis using assms(2) b by (auto simp: conn_inv_def)
qed

interpretation conn_srv: srv_invariant env "\<lambda>st. srv_calls_ok env used \<and> conn_inv used c st"
  "\<lambda>w w'. srv_calls_ok env used \<longrightarrow> grows used w w'"
proof -
  have s: "srv_calls_ok env used \<Longrightarrow> stream_calls_ok env used" by (simp add: srv_calls_ok_def)
  show "srv_invariant env (\<lambda>st. srv_calls_ok env used \<and> conn_inv used c st) (\<lambda>w w'. srv_calls_ok env used \<longrightarrow> grows used w w')"
  proof (unfold_locales, goal_cases)
    case (7 st p s w st')
    then show ?case using conn_ex.accept_law [of env used c st p s w st'] s by blast
  next
    case (9 p w x w')
    then show ?case using conn_ex.accept_R [of env p w x w' used] s by blast
  next
    case (10 s' n w y w')
    then show ?case using conn_ex.read_R [of env s' n w y w' used] s by blast
  next
    case (11 items w z w')
    then show ?case using conn_ex.poll_R [of env items w z w' used] s by blast
  qed (auto simp: conn_inv_objs intro: conn_inv_core conn_inv_world conn_inv_reuse conn_inv_status conn_inv_mark
      conn_inv_remove h3streams_inv build_inv s simp: srv_calls_ok_def [of env used, THEN iffD1] stream_calls_ok_def [of env used, THEN iffD1])
qed

lemma build_other: "build_response env st = Inr (resp, st') \<Longrightarrow> other_objs st' = other_objs st"
  by (drule build_response_result) (auto simp: other_objs_def)

interpretation objs_srv: srv_invariant env "\<lambda>st. other_objs st = obs" "\<lambda>w w'. True"
  by unfold_locales (auto dest: build_other)

section \<open>Runs of the server\<close>

text \<open>A run, with the number of connections accepted on the way.\<close>

inductive srv_run :: "('w, 'z) srv_env_scheme \<Rightarrow> label \<Rightarrow> 'w ex_cfg \<Rightarrow> nat \<Rightarrow> label \<Rightarrow> 'w ex_cfg \<Rightarrow> bool" for env l0 c0 where
  run_start: "srv_run env l0 c0 0 l0 c0"
| run_step: "srv_run env l0 c0 n l c \<Longrightarrow> srv_step env l c = Goto l' c' \<Longrightarrow> srv_run env l0 c0 (if l = LAccept \<and> l' = LRestart then Suc n else n) l' c'"

inductive_simps srv_run_0: "srv_run env l0 c0 0 l c"

lemma free_conn_other: "free_conn env c = Inr c' \<Longrightarrow> other_objs (cf_st c') = other_objs (cf_st c)"
  by (auto simp: free_conn_def split: option.splits if_splits)

lemma new_connection_result:
  assumes "new_connection env p c = Goto l c'"
  shows "(l = LErr \<and> other_objs (cf_st c') = other_objs (cf_st c)) \<or>
    (l = LRestart \<and> conn_inv used p (cf_st c') \<and> (\<exists>ng. other_objs (cf_st c') = ObjNg ng # other_objs (cf_st c)))"
proof -
  obtain ok w where 1: "xv_SSL_set_policy_accept env p (cf_world c) = (ok, w)" by fastforce
  obtain x w2 where 2: "xv_conn_server_new env w = (x, w2)" by fastforce
  show ?thesis
  proof (cases "ok \<and> x \<noteq> None")
    case False
    then show ?thesis using assms 1 2 by (cases ok) (auto simp: new_connection_def set_world_def)
  next
    case True
    then obtain ng where ng: "x = Some ng" by blast
    let ?st = "(cf_st c)\<lparr>xs_world := w2, xs_h3 := init_ids, xs_objs := ObjNg ng # xs_objs (cf_st c)\<rparr>"
    have "l = LRestart \<and> cf_st c' = on_h3 (\<lambda>h. h\<lparr>h_ssl_ids := conn_ids p\<rparr>) ?st"
      using assms 1 2 ng True add_conn [of ?st p] by (auto simp: new_connection_def)
    then show ?thesis using conn_ids_ok [of p]
      by (auto simp: conn_inv_def data_ok_def init_ids_def other_objs_def is_SSL_def)
  qed
qed

lemma accept_step_result:
  assumes "accept_step env c = Goto l c'"
  shows "(l \<in> {LErr, LAccept} \<and> other_objs (cf_st c') = other_objs (cf_st c)) \<or>
    (l = LRestart \<and> (\<exists>p. conn_inv used p (cf_st c')) \<and> (\<exists>ng. other_objs (cf_st c') = ObjNg ng # other_objs (cf_st c)))"
proof -
  obtain ret w where w: "(if cf_hassomething c = 0 then waitsocket env (cf_fd c) 0 0 (cf_world c) else (0, cf_world c)) = (ret, w)" by fastforce
  let ?c = "accept_conn env (set_world w c)"
  have o1: "other_objs (cf_st (set_world w c)) = other_objs (cf_st c)" by (simp add: set_world_def)
  have o2: "other_objs (cf_st ?c) = other_objs (cf_st c)" using objs_srv.accept_conn_I [OF o1] .
  show ?thesis
  proof (cases "ret = - 2")
    case True
    then have "free_conn env (set_world w c) = Inr c'" "l = LErr" using assms w by (auto simp: accept_step_def on_res_Goto)
    then show ?thesis using free_conn_other [of env "set_world w c" c'] o1 by simp
  next
    case False
    then have g: "(case cf_conn ?c of None \<Rightarrow> Goto LAccept (?c\<lparr>cf_hassomething := 0\<rparr>) | Some p \<Rightarrow> new_connection env p ?c) = Goto l c'"
      using assms w by (simp add: accept_step_def Let_def)
    show ?thesis
    proof (cases "cf_conn ?c")
      case (Some p)
      then have "new_connection env p ?c = Goto l c'" using g by simp
      then show ?thesis using new_connection_result [of env p ?c l c' used] o2 by auto
    qed (use g o2 in auto)
  qed
qed

lemma srv_step_other:
  assumes "srv_step env l c = Goto l' c'"
  shows "if l = LAccept \<and> l' = LRestart then \<exists>ng. other_objs (cf_st c') = ObjNg ng # other_objs (cf_st c)
         else other_objs (cf_st c') = other_objs (cf_st c)"
proof (cases "l \<in> served")
  case True
  then have "l \<noteq> LAccept" by (auto simp: served_def)
  then show ?thesis using objs_srv.srv_step_I [OF refl True assms] by simp
next
  case False
  then consider "l = LAccept" | "l = LDone" | "l = LErr" by (cases l) (auto simp: served_def)
  then show ?thesis
  proof cases
    case 1
    then show ?thesis using accept_step_result [of env c l' c'] assms by (auto simp: srv_step_def)
  qed (use assms in \<open>auto simp: srv_step_def on_res_Goto dest: free_conn_other\<close>)
qed

text \<open>
  C35: While the example server serves a connection, whatever the client, OpenSSL and nghttp3 do, the
  first slot of its table holds that connection, the other slots are free or hold streams with
  different ids, the response data is in memory that is allocated, and the buffer for the file name
  has its 255 bytes.
\<close>

theorem served_connection_kept:
  assumes "srv_calls_ok env used" and "srv_run env LAccept c0 n l c" and "l \<in> served"
  shows "\<exists>p. conn_inv used p (cf_st c)"
  using assms(2,3)
proof (induction rule: srv_run.induct)
  case (run_step n l c l' c')
  show ?case
  proof (cases "l \<in> served")
    case True
    then obtain p where "conn_inv used p (cf_st c)" using run_step by blast
    then show ?thesis using conn_srv.srv_step_I [of env used p c l l' c'] True run_step.hyps(2) assms(1) by blast
  next
    case False
    then have "l = LAccept" using run_step by (cases l) (auto simp: served_def srv_step_def on_res_Goto)
    then show ?thesis using accept_step_result [of env c l' c' used] run_step.hyps(2) run_step.prems by (auto simp: srv_step_def served_def)
  qed
qed (simp add: served_def)

text \<open>
  The example server never releases nghttp3's state: over any run the number of nghttp3 connections
  that exist grows by one with every connection accepted.
\<close>

theorem nghttp3_connections_pile_up:
  assumes "srv_run env LAccept c0 n l c"
  shows "length (filter (\<lambda>ob. \<exists>ng. ob = ObjNg ng) (xs_objs (cf_st c))) = length (filter (\<lambda>ob. \<exists>ng. ob = ObjNg ng) (xs_objs (cf_st c0))) + n"
proof -
  have e: "filter (\<lambda>ob. \<exists>ng. ob = ObjNg ng) (xs_objs st) = filter (\<lambda>ob. \<exists>ng. ob = ObjNg ng) (other_objs st)" for st :: "'a ex_st"
    by (auto simp: other_objs_def is_SSL_def intro!: filter_cong)
  show ?thesis using assms unfolding e
  proof (induction rule: srv_run.induct)
    case (run_step n l c l' c')
    then show ?case using srv_step_other [OF run_step.hyps(2)] by (auto split: if_splits)
  qed simp
qed

section \<open>The main program never succeeds\<close>

definition os_objs :: "'w ex_st \<Rightarrow> ex_obj list" where
  "os_objs st = filter (\<lambda>ob. case ob of ObjCtx p \<Rightarrow> True | ObjFd fd \<Rightarrow> True | _ \<Rightarrow> False) (xs_objs st)"

lemma os_objs_eq: "os_objs st = filter (\<lambda>ob. case ob of ObjCtx p \<Rightarrow> True | ObjFd fd \<Rightarrow> True | _ \<Rightarrow> False) (other_objs st)"
  by (auto simp: other_objs_def is_SSL_def os_objs_def intro!: filter_cong split: ex_obj.splits)

lemma on_res_Ret: "on_res x f = Ret r st \<longleftrightarrow> (\<exists>v. x = Inr v \<and> f v = Ret r st)"
  by (cases x) (simp_all add: on_res_def)

lemma events_Ret: "handle_conn_events env c f = Ret r st \<Longrightarrow> \<exists>c1. f c1 = Ret r st"
  by (auto simp: handle_conn_events_def on_res_Ret case_prod_unfold split: if_splits)

lemma shutdown_Ret: "check_shutdown env c k = Ret r st \<Longrightarrow> k = Ret r st"
  by (auto simp: check_shutdown_def on_res_Ret split: if_splits)

lemma headers_Ret: "headers_step env c \<noteq> Ret r st"
proof
  assume "headers_step env c = Ret r st"
  then have "\<exists>c1. headers_read env c1 = Ret r st"
    by (auto simp: headers_step_def wait_headers_def on_res_Ret Let_def split: if_splits prod.splits dest!: events_Ret)
  then show False by (auto simp: headers_read_def on_res_Ret Let_def split: if_splits)
qed

lemma wait_read_Ret: "wait_read env b c \<noteq> Ret r st"
  by (auto simp: wait_read_def wait_nothing_def wait_something_def on_res_Ret Let_def split: if_splits dest!: events_Ret shutdown_Ret)

lemma wait_close_Ret: "wait_close_step env c \<noteq> Ret r st"
proof
  assume "wait_close_step env c = Ret r st"
  then have "\<exists>c1 sec usec. wait_body env sec usec c1 = Ret r st"
    by (auto simp: wait_close_step_def on_res_Ret split: if_splits dest!: events_Ret shutdown_Ret)
  then show False
    by (auto simp: wait_body_def wait_event_def wait_read_Ret split: if_splits prod.splits dest!: events_Ret)
qed

lemma respond_Ret: "respond_step env c \<noteq> Ret r st"
  by (auto simp: respond_step_def on_res_Ret split: if_splits prod.splits)

lemma sendloop_Ret: "sendloop_step env c \<noteq> Ret r st"
  by (auto simp: sendloop_step_def on_res_Ret Let_def split: if_splits prod.splits option.splits)

lemma sent_Ret: "sent_step env c \<noteq> Ret r st"
  by (auto simp: sent_step_def on_res_Ret Let_def split: if_splits)

lemma accept_Ret: "accept_step env c \<noteq> Ret r st"
  by (auto simp: accept_step_def new_connection_def on_res_Ret Let_def split: if_splits prod.splits option.splits)

lemma srv_step_Ret: "srv_step env l c = Ret r st \<Longrightarrow> l = LErr \<and> r = 0 \<and> os_objs st = os_objs (cf_st c)"
  by (cases l) (auto simp: srv_step_def on_res_Ret headers_Ret wait_close_Ret respond_Ret sendloop_Ret sent_Ret accept_Ret os_objs_eq)

lemma srv_step_os: "srv_step env l c = Goto l' c' \<Longrightarrow> os_objs (cf_st c') = os_objs (cf_st c)"
  by (drule srv_step_other) (auto simp: os_objs_eq split: if_splits)

lemma run_from_result:
  fixes env :: "('w, 'z) srv_env_scheme"
  assumes "run_from env l c = Some (Inr (r, st))"
  shows "r = 0 \<and> os_objs st = os_objs (cf_st c)"
proof -
  let ?P = "\<lambda>(env :: ('w, 'z) srv_env_scheme) (l :: label) c (y :: (int \<times> 'w ex_st) res). \<forall>r st. y = Inr (r, st) \<longrightarrow> r = 0 \<and> os_objs st = os_objs (cf_st c)"
  have "?P env l c (Inr (r, st))"
  proof (rule run_from.raw_induct [where P = ?P, OF _ assms])
    fix run :: "('w, 'z) srv_env_scheme \<Rightarrow> label \<Rightarrow> 'w ex_cfg \<Rightarrow> (int \<times> 'w ex_st) res option" and env l c y
    assume IH: "\<And>env l c y. run env l c = Some y \<Longrightarrow> ?P env l c y"
      and body: "(case srv_step env l c of Goto l' c' \<Rightarrow> run env l' c' | Ret r st \<Rightarrow> Some (Inr (r, st)) | Halt e \<Rightarrow> Some (Inl e)) = Some y"
    show "?P env l c y"
    proof (cases "srv_step env l c")
      case (Goto l' c')
      then show ?thesis using IH [of env l' c' y] body srv_step_os by fastforce
    qed (use body srv_step_Ret in \<open>fastforce+\<close>)
  qed
  then show ?thesis by simp
qed

lemma os_objs_simps [simp]:
  "os_objs (st\<lparr>xs_world := w\<rparr>) = os_objs st" "os_objs (st\<lparr>xs_objs := ObjCtx p # os\<rparr>) = ObjCtx p # os_objs (st\<lparr>xs_objs := os\<rparr>)"
  "os_objs (st\<lparr>xs_objs := ObjFd fd # os\<rparr>) = ObjFd fd # os_objs (st\<lparr>xs_objs := os\<rparr>)" "os_objs (st\<lparr>xs_objs := ObjSSL s # os\<rparr>) = os_objs (st\<lparr>xs_objs := os\<rparr>)"
  "os_objs (st\<lparr>xs_world := w, xs_objs := os\<rparr>) = os_objs (st\<lparr>xs_objs := os\<rparr>)" "os_objs (st\<lparr>xs_objs := xs_objs st\<rparr>) = os_objs st"
  by (simp_all add: os_objs_def)

lemma os_objs_free_ctx: "os_objs (free_ctx env ctx st) = (case ctx of None \<Rightarrow> os_objs st | Some p \<Rightarrow> remove1 (ObjCtx p) (os_objs st))"
  by (simp add: free_ctx_def os_objs_def filter_remove1 split: option.split)

lemma os_objs_close: "os_objs (close_fd env fd st) = remove1 (ObjFd fd) (os_objs st)"
  by (simp add: close_fd_def os_objs_def filter_remove1)

lemma create_ctx_result:
  "create_ctx env cert key st = (x, st') \<Longrightarrow> os_objs st' = (case x of None \<Rightarrow> os_objs st | Some p \<Rightarrow> ObjCtx p # os_objs st)"
  by (auto simp: create_ctx_def Let_def os_objs_free_ctx split: prod.splits option.splits if_splits)

lemma create_socket_result:
  "create_socket env port st = (fd, st') \<Longrightarrow> os_objs st' = (if fd < 0 then os_objs st else ObjFd fd # os_objs st)"
  by (auto simp: create_socket_def Let_def os_objs_close split: prod.splits if_splits)

lemma run_quic_server_result:
  "run_quic_server env ctx fd st = Some (Inr (ok, st')) \<Longrightarrow> ok = 0 \<and> os_objs st' = os_objs st"
  by (auto simp: run_quic_server_def Let_def split: prod.splits option.splits if_splits dest!: run_from_result)

text \<open>
  C37: The main program of the example server, when it returns, has released the TLS context and the
  socket, and returns 1: the loop of the server is only left by an error, so success is never
  reported.
\<close>

theorem main_releases_and_fails:
  assumes "ex_main env argv st = Some (Inr (rc, st'))"
  shows "rc = 1 \<and> os_objs st' = os_objs st"
proof (cases "length argv < 4")
  case True
  then show ?thesis using assms by (simp add: ex_main_def main_exit_def free_ctx_def)
next
  case False
  obtain x st1 where c: "create_ctx env (argv ! 2) (argv ! 3) st = (x, st1)" by fastforce
  note c' = create_ctx_result [OF c]
  show ?thesis
  proof (cases x)
    case None
    then show ?thesis using assms False c c' by (simp add: ex_main_def main_exit_def free_ctx_def)
  next
    case (Some ctx)
    let ?port = "strtoul0 (argv ! 1)"
    obtain fd st2 where s: "create_socket env (unat ?port) st1 = (fd, st2)" by fastforce
    note s' = create_socket_result [OF s]
    show ?thesis
    proof (cases "?port = 0 \<or> ?port > 65535 \<or> fd < 0")
      case True
      then show ?thesis using assms False c c' Some s s' by (auto simp: ex_main_def main_exit_def os_objs_free_ctx Let_def split: if_splits)
    next
      case ok: False
      then obtain v st3 where r: "run_quic_server env ctx fd st2 = Some (Inr (v, st3))"
        using assms False c Some s by (auto simp: ex_main_def Let_def split: option.splits sum.splits)
      then show ?thesis using assms False c c' Some s s' ok run_quic_server_result [OF r]
        by (auto simp: ex_main_def main_exit_def Let_def os_objs_free_ctx os_objs_close split: if_splits)
    qed
  qed
qed

section \<open>A silent client\<close>

text \<open>From now on nothing arrives: every wait times out and every poll is empty.\<close>

definition silent :: "('w, 'z) srv_env_scheme \<Rightarrow> bool" where
  "silent env \<longleftrightarrow>
     (\<forall>s w. \<exists>tv. xv_SSL_get_event_timeout env s w = (True, False, tv)) \<and>
     (\<forall>fd tv w. fst (xv_select env fd tv w) = 0) \<and>
     (\<forall>l w. \<exists>es w'. ex_SSL_poll env l w = ((True, 0, es), w'))"

definition waits_for_headers :: "int \<Rightarrow> 'w ex_cfg \<Rightarrow> bool" where
  "waits_for_headers n c \<longleftrightarrow>
     \<not> h_end_headers_received (cf_h3 c) \<and> sid_s (xs_ids (cf_st c) ! 0) \<noteq> None \<and> cf_hassomething c = 0 \<and> cf_numtimeout c = n"

lemma silent_round:
  assumes "silent env" "waits_for_headers n c"
  shows "\<exists>c'. headers_step env c = Goto (if n = 34 then LErr else LHeaders) c' \<and> (n \<noteq> 34 \<longrightarrow> waits_for_headers (n + 1) c')"
proof -
  obtain p where p: "sid_s (xs_ids (cf_st c) ! 0) = Some p" using assms(2) by (auto simp: waits_for_headers_def)
  obtain sec usec where t: "xv_SSL_get_event_timeout env p (cf_world c) = (True, False, sec, usec)"
    using assms(1) unfolding silent_def by (metis prod.exhaust)
  obtain r w where s: "waitsocket env (cf_fd c) sec usec (cf_world c) = (r, w)" by fastforce
  then have "r = - 1" using assms(1) by (auto simp: waitsocket_def silent_def Let_def case_prod_unfold split: if_splits)
  moreover obtain es w' where "ex_SSL_poll env (poll_items (xs_ids (cf_st c))) w = ((True, 0, es), w')"
    using assms(1) unfolding silent_def by blast
  ultimately show ?thesis using assms(2) p t s
    by (auto simp: headers_step_def wait_headers_def headers_read_def get_next_timeout_def waits_for_headers_def set_world_def
        read_from_ssl_ids_def Let_def)
qed

lemma silent_run: "silent env \<Longrightarrow> waits_for_headers n c \<Longrightarrow> n \<le> 34 \<Longrightarrow> k = nat (34 - n) \<Longrightarrow> \<exists>st. run_from env LHeaders c = Some (Inr (0, st))"
proof (induction k arbitrary: n c)
  case 0
  then obtain c' where "headers_step env c = Goto LErr c'" using silent_round [of env n c] by auto
  then have "run_from env LHeaders c = run_from env LErr c'" by (subst run_from.simps) (simp add: srv_step_def)
  moreover have "\<exists>st. run_from env LErr c' = Some (Inr (0, st))" by (subst run_from.simps) (simp add: srv_step_def)
  ultimately show ?case by simp
next
  case (Suc k)
  then obtain c' where c': "headers_step env c = Goto LHeaders c'" "waits_for_headers (n + 1) c'" using silent_round [of env n c] by auto
  then have "run_from env LHeaders c = run_from env LHeaders c'" by (subst run_from.simps) (simp add: srv_step_def)
  then show ?case using Suc.IH [of "n + 1" c'] Suc.prems c' by simp
qed


text \<open>
  The variable for the connection keeps its value after the connection was freed: if waiting for the
  next client then fails, the example server frees the same connection again.
\<close>

theorem connection_freed_twice:
  assumes "cf_conn c = Some p" "count_list (xs_objs (cf_st c)) (ObjSSL p) = 1" "cf_hassomething c = 0"
    and "\<forall>w. fst (xv_select env (cf_fd c) None w) = - 1"
  shows "\<exists>c'. srv_step env LDone c = Goto LAccept c' \<and> srv_step env LAccept c' = Halt Undefined"
proof -
  have f: "ObjSSL p \<in> set (xs_objs (cf_st c))" using assms(2) count_list_0_iff [of "xs_objs (cf_st c)" "ObjSSL p"] by force
  have "count_list (remove1 x xs) x = count_list xs x - 1" for x :: ex_obj and xs by (induction xs) auto
  then have g: "ObjSSL p \<notin> set (remove1 (ObjSSL p) (xs_objs (cf_st c)))"
    using assms(2) by (metis count_list_0_iff diff_self_eq_0)
  show ?thesis using assms f g
    by (auto simp: srv_step_def free_conn_def on_res_def accept_step_def waitsocket_def set_world_def ssl_free_def Let_def case_prod_unfold)
qed

section \<open>A sample server\<close>

definition demo_srv :: "nat srv_env" where
  "demo_srv =
     \<lparr>ex_memcpy_moves = True, ex_TOKEN__PATH = 1, ex_SSL_free = (\<lambda>s w. w), ex_SSL_has_pending = (\<lambda>s w. False),
      ex_SSL_read = (\<lambda>s n w. ((0, []), w)), ex_SSL_get_error = (\<lambda>s r w. SSL_ERROR_WANT_READ),
      ex_SSL_new_stream = (\<lambda>c w. (None, w)), ex_SSL_get_stream_id = (\<lambda>s. of_nat s), ex_SSL_is_bidi = (\<lambda>s. True),
      ex_SSL_accept_stream = (\<lambda>c w. (None, w)), ex_SSL_poll = (\<lambda>l w. ((True, 0, []), w)),
      ex_conn_read_stream = (\<lambda>ng k bs w. CbRet (int (length bs)) w), ex_err_is_fatal = (\<lambda>r. True),
      ex_bind_qpack_streams = (\<lambda>ng p r w. (False, w)), ex_bind_control_stream = (\<lambda>ng c w. (False, w)),
      xv_malloc = (\<lambda>h n. None), xv_stat = (\<lambda>name w. (None, w)), xv_read_file = (\<lambda>name n w. (None, w)),
      xv_SSL_write_ex2 = (\<lambda>s bs b w. (True, w)), xv_SSL_get_event_timeout = (\<lambda>s w. (True, False, 1, 0)),
      xv_SSL_handle_events = (\<lambda>s w. (True, w)), xv_SSL_both_shutdown = (\<lambda>s w. False), xv_select = (\<lambda>fd tv w. (0, w)),
      xv_SSL_new_listener = (\<lambda>ctx w. (Some 3, w)), xv_SSL_set_fd = (\<lambda>s fd w. (True, w)), xv_SSL_listen = (\<lambda>s w. (True, w)),
      xv_SSL_set_nonblocking = (\<lambda>s w. (True, w)), xv_SSL_accept_connection = (\<lambda>s w. if w = 0 then (Some 5, 1) else (None, w)),
      xv_SSL_set_policy_accept = (\<lambda>s w. (True, w)), xv_conn_server_new = (\<lambda>w. (Some 8, w)),
      xv_submit_response = (\<lambda>ng k r w. (False, w)), xv_writev_stream = (\<lambda>ng w. CbRet (0, - 1, False, []) w),
      xv_add_write_offset = (\<lambda>ng k n w. (False, w)), xv_block_stream = (\<lambda>ng k w. w), xv_unblock_stream = (\<lambda>ng k w. w),
      xv_SSL_CTX_new = (\<lambda>w. (Some 2, w)), xv_use_certificate = (\<lambda>p f w. (1, w)), xv_use_key = (\<lambda>p f w. (1, w)),
      xv_check_key = (\<lambda>p w. (True, w)), xv_SSL_CTX_free = (\<lambda>p w. w), xv_socket = (\<lambda>w. (4, w)), xv_bind = (\<lambda>fd port w. (0, w)),
      xv_closesocket = (\<lambda>fd w. w)\<rparr>"

definition demo_cfg :: "nat ex_cfg" where
  "demo_cfg =
     \<lparr>cf_st = new_st, cf_fd = 4, cf_listener = 3, cf_conn = None, cf_h3conn = 0, cf_hassomething = 0, cf_numtimeout = 0, cf_num_nothing = 0\<rparr>"

lemma demo_srv_ok: "srv_calls_ok demo_srv (\<lambda>c w. {})"
  by (simp add: srv_calls_ok_def stream_calls_ok_def gives_fresh_def grows_def demo_srv_def)

lemma demo_srv_silent: "silent demo_srv"
  by (simp add: silent_def demo_srv_def)

lemma demo_accepts: "\<exists>c. new_connection demo_srv 5 (accept_conn demo_srv demo_cfg) = Goto LRestart c"
  using add_conn [of "(cf_st (accept_conn demo_srv demo_cfg))\<lparr>xs_world := 1, xs_h3 := init_ids, xs_objs := ObjNg 8 # xs_objs (cf_st (accept_conn demo_srv demo_cfg))\<rparr>" 5]
  by (simp add: new_connection_def accept_conn_def demo_srv_def demo_cfg_def new_st_def)

lemma demo_run: "\<exists>c. srv_run demo_srv LAccept demo_cfg 1 LRestart c"
proof -
  obtain c where c: "new_connection demo_srv 5 (accept_conn demo_srv demo_cfg) = Goto LRestart c" using demo_accepts by blast
  have "set_world 0 demo_cfg = demo_cfg" by (simp add: set_world_def demo_cfg_def new_st_def)
  then have "srv_step demo_srv LAccept demo_cfg = Goto LRestart c"
    using c by (simp add: srv_step_def accept_step_def waitsocket_def) (simp add: demo_srv_def demo_cfg_def new_st_def accept_conn_def)
  then show ?thesis using run_step [OF run_start] by fastforce
qed

theorem served_connection_kept_witness:
  "\<exists>c p. srv_run demo_srv LAccept demo_cfg 1 LRestart c \<and> conn_inv (\<lambda>c w. {}) p (cf_st c)"
  using demo_run served_connection_kept [OF demo_srv_ok, of demo_cfg 1 LRestart] by (fastforce simp: served_def)

theorem nghttp3_connections_pile_up_witness:
  "\<exists>c. srv_run demo_srv LAccept demo_cfg 1 LRestart c \<and> length (filter (\<lambda>ob. \<exists>ng. ob = ObjNg ng) (xs_objs (cf_st c))) = 1"
proof -
  obtain c where "srv_run demo_srv LAccept demo_cfg 1 LRestart c" using demo_run by blast
  moreover from nghttp3_connections_pile_up [OF this] have "length (filter (\<lambda>ob. \<exists>ng. ob = ObjNg ng) (xs_objs (cf_st c))) = 1"
    by (simp add: demo_cfg_def new_st_def)
  ultimately show ?thesis by blast
qed


theorem connection_freed_twice_witness:
  "\<exists>c'. srv_step (demo_srv\<lparr>xv_select := (\<lambda>fd tv w. (- 1, w))\<rparr>) LDone (demo_cfg\<lparr>cf_conn := Some 5, cf_st := new_st\<lparr>xs_objs := [ObjSSL 5]\<rparr>\<rparr>) = Goto LAccept c' \<and>
     srv_step (demo_srv\<lparr>xv_select := (\<lambda>fd tv w. (- 1, w))\<rparr>) LAccept c' = Halt Undefined"
  by (rule connection_freed_twice [of _ 5]) (simp_all add: demo_cfg_def)

theorem main_releases_and_fails_witness:
  "\<exists>st'. ex_main (demo_srv\<lparr>xv_SSL_listen := (\<lambda>s w. (False, w))\<rparr>) [''server'', ''4433'', ''crt'', ''key''] new_st = Some (Inr (1, st')) \<and> os_objs st' = []"
proof -
  let ?env = "demo_srv\<lparr>xv_SSL_listen := (\<lambda>s w. (False, w))\<rparr>" and ?argv = "[''server'', ''4433'', ''crt'', ''key'']"
  have "strtoul0 ''4433'' = 4433" by (simp add: strtoul0_def c_isspace_def digit_val_def)
  then have "\<exists>rc st'. ex_main ?env ?argv new_st = Some (Inr (rc, st'))"
    by (simp add: ex_main_def create_ctx_def create_socket_def run_quic_server_def main_exit_def demo_srv_def bytes_of_def Let_def)
      (simp add: create_socket_def run_quic_server_def main_exit_def new_st_def demo_srv_def run_from.simps [of _ LErr] srv_step_def free_conn_def)
  then obtain rc st' where m: "ex_main ?env ?argv new_st = Some (Inr (rc, st'))" by blast
  have "os_objs new_st = []" by (simp add: os_objs_def new_st_def)
  then show ?thesis using main_releases_and_fails [OF m] m by simp
qed

end
