(* ===== verification/H3X_Bio.thy ===== *)
theory H3X_Bio
  imports H3X_Table
begin

text \<open>
  The memory-BIO example \<^verbatim>\<open>examples/biomemexample.c\<close>: two processes run TLS over a pair of pipes, each
  relaying between its pipes and the memory BIOs of its \<^verbatim>\<open>SSL\<close> object by hand.

  \<open>bs_buf\<close> and \<open>bs_error\<close> are the locals the loops share. \<open>bs_log\<close> is not in the program: it lists the
  bytes each relaying call moved, oldest first. The calls of OpenSSL and of the system are a record
  \<open>bio_env\<close>; what the program prints is left out, but a \<^verbatim>\<open>%s\<close> that runs off its buffer is \<open>Undefined\<close>.
\<close>

section \<open>State and calls\<close>

definition SSL_ERR_NONE :: int where "SSL_ERR_NONE = 0"
definition SSL_ERR_SSL :: int where "SSL_ERR_SSL = 1"
definition SSL_ERR_WANT_READ :: int where "SSL_ERR_WANT_READ = 2"
definition SSL_ERR_WANT_WRITE :: int where "SSL_ERR_WANT_WRITE = 3"
definition BUF_LEN :: nat where "BUF_LEN = 4096"

datatype relay = BioOut "byte list" | PipeOut "byte list" | PipeIn "byte list" | BioIn "byte list"

record 'w bio_st =
  bs_world :: 'w
  bs_string :: "byte list"
  bs_buf :: "byte list"
  bs_error :: int
  bs_log :: "relay list"

record 'w bio_env =
  be_library_init :: "'w \<Rightarrow> bool \<times> 'w"
  be_junk :: "'w \<Rightarrow> byte list"
  be_BIO_new :: "'w \<Rightarrow> nat option \<times> 'w"
  be_SSL_CTX_new :: "bool \<Rightarrow> 'w \<Rightarrow> nat option \<times> 'w"
  be_use_certificate_file :: "nat \<Rightarrow> string \<Rightarrow> 'w \<Rightarrow> 'w"
  be_use_PrivateKey_file :: "nat \<Rightarrow> string \<Rightarrow> 'w \<Rightarrow> 'w"
  be_SSL_new :: "nat \<Rightarrow> 'w \<Rightarrow> nat option \<times> 'w"
  be_SSL_set_bio :: "nat \<Rightarrow> nat option \<Rightarrow> nat option \<Rightarrow> 'w \<Rightarrow> 'w"
  be_set_state :: "bool \<Rightarrow> nat \<Rightarrow> 'w \<Rightarrow> 'w"
  be_is_init_finished :: "nat \<Rightarrow> 'w \<Rightarrow> bool"
  be_do_handshake :: "nat \<Rightarrow> 'w \<Rightarrow> int \<times> 'w"
  be_get_error :: "nat \<Rightarrow> int \<Rightarrow> 'w \<Rightarrow> int"
  be_SSL_write :: "nat \<Rightarrow> byte list \<Rightarrow> 'w \<Rightarrow> int \<times> 'w"
  be_SSL_read :: "nat \<Rightarrow> nat \<Rightarrow> 'w \<Rightarrow> (int \<times> byte list) \<times> 'w"
  be_BIO_read :: "nat option \<Rightarrow> nat \<Rightarrow> 'w \<Rightarrow> (int \<times> byte list) \<times> 'w"
  be_BIO_write :: "nat option \<Rightarrow> byte list \<Rightarrow> 'w \<Rightarrow> int \<times> 'w"
  be_read :: "int \<Rightarrow> nat \<Rightarrow> 'w \<Rightarrow> (int \<times> byte list) \<times> 'w"
  be_write :: "int \<Rightarrow> byte list \<Rightarrow> 'w \<Rightarrow> 'w"
  be_select :: "int \<Rightarrow> 'w \<Rightarrow> int \<times> 'w"
  be_sleep :: "'w \<Rightarrow> 'w"
  be_pipe :: "'w \<Rightarrow> (int \<times> int) option \<times> 'w"
  be_fork :: "'w \<Rightarrow> int \<times> 'w"
  be_close :: "int \<Rightarrow> 'w \<Rightarrow> 'w"

section \<open>Moving bytes\<close>

definition fill :: "byte list \<Rightarrow> byte list \<Rightarrow> byte list" where
  "fill bs buf = bs @ drop (length bs) buf"

text \<open>The calls that fill \<^verbatim>\<open>buf\<close>, and the ones that send its first \<open>n\<close> bytes. A negative \<open>n\<close> cast to
  \<^verbatim>\<open>size_t\<close>, like one above 4096, reads past the buffer.\<close>

definition bio_read :: "('w, 'z) bio_env_scheme \<Rightarrow> nat option \<Rightarrow> 'w bio_st \<Rightarrow> int \<times> 'w bio_st" where
  "bio_read env b st =
     (let ((n, bs), w) = be_BIO_read env b BUF_LEN (bs_world st)
      in (n, st\<lparr>bs_world := w, bs_buf := fill bs (bs_buf st), bs_log := bs_log st @ [BioOut bs]\<rparr>))"

definition pipe_read :: "('w, 'z) bio_env_scheme \<Rightarrow> int \<Rightarrow> 'w bio_st \<Rightarrow> int \<times> 'w bio_st" where
  "pipe_read env fd st =
     (let ((n, bs), w) = be_read env fd BUF_LEN (bs_world st)
      in (n, st\<lparr>bs_world := w, bs_buf := fill bs (bs_buf st), bs_log := bs_log st @ [PipeIn bs]\<rparr>))"

definition pipe_write :: "('w, 'z) bio_env_scheme \<Rightarrow> int \<Rightarrow> int \<Rightarrow> 'w bio_st \<Rightarrow> 'w bio_st res" where
  "pipe_write env fd n st =
     (if n < 0 \<or> int (length (bs_buf st)) < n then Inl Undefined
      else let bs = take (nat n) (bs_buf st)
           in Inr (st\<lparr>bs_world := be_write env fd bs (bs_world st), bs_log := bs_log st @ [PipeOut bs]\<rparr>))"

definition bio_write :: "('w, 'z) bio_env_scheme \<Rightarrow> nat option \<Rightarrow> int \<Rightarrow> 'w bio_st \<Rightarrow> (int \<times> 'w bio_st) res" where
  "bio_write env b n st =
     (if int (length (bs_buf st)) < n then Inl Undefined
      else let bs = take (nat n) (bs_buf st); (r, w) = be_BIO_write env b bs (bs_world st)
           in Inr (r, st\<lparr>bs_world := w, bs_log := bs_log st @ [BioIn bs]\<rparr>))"

definition note_error :: "('w, 'z) bio_env_scheme \<Rightarrow> nat \<Rightarrow> int \<Rightarrow> 'w bio_st \<Rightarrow> 'w bio_st" where
  "note_error env s r st = st\<lparr>bs_error := be_get_error env s r (bs_world st)\<rparr>"

definition init_OpenSSL :: "('w, 'z) bio_env_scheme \<Rightarrow> 'w bio_st \<Rightarrow> 'w bio_st res" where
  "init_OpenSSL env st =
     (let (ok, w) = be_library_init env (bs_world st) in if ok then Inr (st\<lparr>bs_world := w\<rparr>) else Inl (Exited 1))"

section \<open>Exchange after the handshake\<close>

text \<open>A pass of a loop ends in leaving it or in another pass.\<close>

partial_function (option) passes :: "('s \<Rightarrow> (bool \<times> 's) res) \<Rightarrow> 's \<Rightarrow> 's res option" where
  "passes step st =
     (case step st of Inl e \<Rightarrow> Some (Inl e) | Inr (again, st) \<Rightarrow> if again then passes step st else Some (Inr st))"

definition receive_part ::
  "('w, 'z) bio_env_scheme \<Rightarrow> nat \<Rightarrow> nat option \<Rightarrow> int \<Rightarrow> 'w bio_st \<Rightarrow> (bool \<times> 'w bio_st) res" where
  "receive_part env s ssl_r fdread st =
     (let (n, st) = pipe_read env fdread st
      in if n \<le> 0 then Inr (False, st)
         else rbind (bio_write env ssl_r n st) (\<lambda>(ret, st).
              let st = note_error env s ret st
              in if bs_error st \<noteq> SSL_ERR_NONE then Inr (False, st)
                 else let ((ret, bs), w) = be_SSL_read env s BUF_LEN (bs_world st);
                          st = st\<lparr>bs_world := w, bs_buf := fill bs (bs_buf st)\<rparr>
                      in if 0 \<notin> set (bs_buf st) then Inl Undefined else Inr (True, st)))"

definition sendreceive_pass ::
  "('w, 'z) bio_env_scheme \<Rightarrow> nat \<Rightarrow> nat option \<Rightarrow> nat option \<Rightarrow> int \<Rightarrow> int \<Rightarrow> 'w bio_st \<Rightarrow> (bool \<times> 'w bio_st) res" where
  "sendreceive_pass env s ssl_r ssl_w fdread fdwrite st =
     (let (r, w) = be_SSL_write env s (take 10 (bs_string st)) (bs_world st);
          (ret, st) = bio_read env ssl_w (st\<lparr>bs_world := w\<rparr>)
      in rbind (pipe_write env fdwrite ret st) (receive_part env s ssl_r fdread))"

definition sendreceive_loop ::
  "('w, 'z) bio_env_scheme \<Rightarrow> nat \<Rightarrow> nat option \<Rightarrow> nat option \<Rightarrow> int \<Rightarrow> int \<Rightarrow> 'w bio_st \<Rightarrow> 'w bio_st res option" where
  "sendreceive_loop env s ssl_r ssl_w fdread fdwrite = passes (sendreceive_pass env s ssl_r ssl_w fdread fdwrite)"

definition sendreceive ::
  "('w, 'z) bio_env_scheme \<Rightarrow> nat \<Rightarrow> nat option \<Rightarrow> nat option \<Rightarrow> int \<Rightarrow> int \<Rightarrow> 'w bio_st \<Rightarrow> 'w bio_st res option" where
  "sendreceive env s ssl_r ssl_w fdread fdwrite st =
     sendreceive_loop env s ssl_r ssl_w fdread fdwrite
       (st\<lparr>bs_world := be_sleep env (bs_world st), bs_buf := be_junk env (bs_world st), bs_error := SSL_ERR_NONE\<rparr>)"

section \<open>The handshake\<close>

text \<open>The two sides begin a pass alike: do the handshake while it is not finished; done, with
  bytes left to send, ends the loop.\<close>

definition handshake_part ::
  "('w, 'z) bio_env_scheme \<Rightarrow> nat \<Rightarrow> nat option \<Rightarrow> int \<Rightarrow> 'w bio_st \<Rightarrow> (bool \<times> 'w bio_st) res" where
  "handshake_part env s b fdwrite st =
     (if be_is_init_finished env s (bs_world st) then Inr (True, st)
      else let (ret, w) = be_do_handshake env s (bs_world st);
               st = note_error env s ret (st\<lparr>bs_world := w\<rparr>)
           in if bs_error st \<noteq> SSL_ERR_NONE then Inr (True, st)
              else let (rret, st) = bio_read env b st
                   in if rret > 0 then rbind (pipe_write env fdwrite rret st) (\<lambda>st. Inr (False, st)) else Inr (True, st))"

text \<open>Both end a pass alike: wait a second for the peer, read what came, and see if the handshake is
  over.\<close>

definition select_part ::
  "('w, 'z) bio_env_scheme \<Rightarrow> nat \<Rightarrow> nat option \<Rightarrow> int \<Rightarrow> 'w bio_st \<Rightarrow> (bool \<times> 'w bio_st) res" where
  "select_part env s b fdread st =
     (if fdread < 0 \<or> 1024 \<le> fdread then Inl Undefined
      else let (err, w) = be_select env fdread (bs_world st); st = st\<lparr>bs_world := w\<rparr>
           in if err > 0
              then let (n, st) = pipe_read env fdread st
                   in if n \<le> 0 then Inr (False, st)
                      else rbind (bio_write env b n st) (\<lambda>(ret, st).
                           let st = note_error env s ret st in Inr (\<not> be_is_init_finished env s (bs_world st), st))
              else Inr (\<not> be_is_init_finished env s (bs_world st), st))"

definition client_write_part ::
  "('w, 'z) bio_env_scheme \<Rightarrow> nat \<Rightarrow> nat option \<Rightarrow> int \<Rightarrow> 'w bio_st \<Rightarrow> (bool \<times> 'w bio_st) res" where
  "client_write_part env s r fdread st =
     (if bs_error st = SSL_ERR_WANT_WRITE
      then let (n, st) = pipe_read env fdread st
           in if n \<le> 0 then Inr (False, st)
              else rbind (bio_write env r n st) (\<lambda>(ret, st). Inr (True, note_error env s ret st))
      else select_part env s r fdread st)"

definition client_pass ::
  "('w, 'z) bio_env_scheme \<Rightarrow> nat \<Rightarrow> nat option \<Rightarrow> nat option \<Rightarrow> int \<Rightarrow> int \<Rightarrow> 'w bio_st \<Rightarrow> (bool \<times> 'w bio_st) res" where
  "client_pass env s r w fdread fdwrite st =
     rbind (handshake_part env s w fdwrite st) (\<lambda>(go, st).
       if \<not> go then Inr (False, st)
       else if bs_error st = SSL_ERR_WANT_READ
       then let (ret, st) = bio_read env w st
            in if ret > 0 then rbind (pipe_write env fdwrite ret st) (\<lambda>st. Inr (True, st))
               else client_write_part env s r fdread (note_error env s ret st)
       else client_write_part env s r fdread st)"

definition client_loop ::
  "('w, 'z) bio_env_scheme \<Rightarrow> nat \<Rightarrow> nat option \<Rightarrow> nat option \<Rightarrow> int \<Rightarrow> int \<Rightarrow> 'w bio_st \<Rightarrow> 'w bio_st res option" where
  "client_loop env s r w fdread fdwrite = passes (client_pass env s r w fdread fdwrite)"

definition server_write_part ::
  "('w, 'z) bio_env_scheme \<Rightarrow> nat \<Rightarrow> nat option \<Rightarrow> int \<Rightarrow> 'w bio_st \<Rightarrow> (bool \<times> 'w bio_st) res" where
  "server_write_part env s r fdread st =
     (if bs_error st = SSL_ERR_WANT_WRITE
      then let (n, st) = pipe_read env fdread st
           in if n \<le> 0 then Inr (False, st)
              else rbind (bio_write env r n st) (\<lambda>(ret, st).
                   if ret \<ge> 0 then Inr (True, st) else select_part env s r fdread (note_error env s ret st))
      else select_part env s r fdread st)"

definition server_pass ::
  "('w, 'z) bio_env_scheme \<Rightarrow> nat \<Rightarrow> nat option \<Rightarrow> nat option \<Rightarrow> int \<Rightarrow> int \<Rightarrow> 'w bio_st \<Rightarrow> (bool \<times> 'w bio_st) res" where
  "server_pass env s r w fdread fdwrite st =
     rbind (handshake_part env s w fdwrite st) (\<lambda>(go, st).
       if \<not> go \<or> bs_error st = SSL_ERR_SSL then Inr (False, st)
       else if bs_error st = SSL_ERR_WANT_READ
       then let (n, st) = bio_read env w st
            in if n < 0 then server_write_part env s r fdread (note_error env s n st)
               else rbind (pipe_write env fdwrite n st) (\<lambda>st. Inr (True, st))
       else server_write_part env s r fdread st)"

definition server_loop ::
  "('w, 'z) bio_env_scheme \<Rightarrow> nat \<Rightarrow> nat option \<Rightarrow> nat option \<Rightarrow> int \<Rightarrow> int \<Rightarrow> 'w bio_st \<Rightarrow> 'w bio_st res option" where
  "server_loop env s r w fdread fdwrite = passes (server_pass env s r w fdread fdwrite)"

section \<open>The two processes\<close>

text \<open>The BIOs, the context and the \<^verbatim>\<open>SSL\<close> object of a side. The context and the object are followed
  without a test.\<close>

definition set_up ::
  "('w, 'z) bio_env_scheme \<Rightarrow> bool \<Rightarrow> 'w bio_st \<Rightarrow> ((nat \<times> nat option \<times> nat option) \<times> 'w bio_st) res" where
  "set_up env is_server st =
     (let (r, w1) = be_BIO_new env (bs_world st); (b, w2) = be_BIO_new env w1
      in rbind (init_OpenSSL env (st\<lparr>bs_world := w2\<rparr>)) (\<lambda>st.
         let (c, w3) = be_SSL_CTX_new env is_server (bs_world st)
         in rbind (need c) (\<lambda>ctx.
            let w4 = (if is_server
                      then be_use_PrivateKey_file env ctx ''/home/jfclere/CERTS/newkey.txt.pem''
                             (be_use_certificate_file env ctx ''/home/jfclere/CERTS/newcert.pem'' w3)
                      else w3);
                (p, w5) = be_SSL_new env ctx w4
            in rbind (need p) (\<lambda>s.
               let w6 = be_set_state env is_server s (be_SSL_set_bio env s r b w5)
               in Inr ((s, r, b), st\<lparr>bs_world := w6, bs_buf := replicate BUF_LEN 0, bs_error := SSL_ERR_NONE\<rparr>)))))"

definition client :: "('w, 'z) bio_env_scheme \<Rightarrow> int \<Rightarrow> int \<Rightarrow> 'w bio_st \<Rightarrow> 'w bio_st res option" where
  "client env fdread fdwrite st =
     (case set_up env False st of
        Inl e \<Rightarrow> Some (Inl e)
      | Inr ((s, r, w), st) \<Rightarrow>
          (case client_loop env s r w fdread fdwrite st of
             None \<Rightarrow> None
           | Some (Inl e) \<Rightarrow> Some (Inl e)
           | Some (Inr st) \<Rightarrow> sendreceive env s r w fdread fdwrite st))"

definition bio_server :: "('w, 'z) bio_env_scheme \<Rightarrow> int \<Rightarrow> int \<Rightarrow> 'w bio_st \<Rightarrow> 'w bio_st res option" where
  "bio_server env fdread fdwrite st =
     (case set_up env True st of
        Inl e \<Rightarrow> Some (Inl e)
      | Inr ((s, r, w), st) \<Rightarrow>
          (case server_loop env s r w fdread fdwrite st of
             None \<Rightarrow> None
           | Some (Inl e) \<Rightarrow> Some (Inl e)
           | Some (Inr st) \<Rightarrow> sendreceive env s r w fdread fdwrite st))"

definition sent_string :: "byte list" where "sent_string = [65, 66, 67, 68, 69, 70, 71, 72, 0, 0]"
definition child_string :: "byte list" where "child_string = [97, 98, 99, 100, 101, 102, 103, 104, 0]"

text \<open>The process in which \<^verbatim>\<open>fork\<close> returned \<open>childpid\<close>.\<close>

definition bio_main :: "('w, 'z) bio_env_scheme \<Rightarrow> 'w \<Rightarrow> 'w bio_st res option" where
  "bio_main env w =
     (case be_pipe env w of
        (None, w) \<Rightarrow> Some (Inl (Exited 1))
      | (Some (fd0, fd1), w) \<Rightarrow>
          (case be_pipe env w of
             (None, w) \<Rightarrow> Some (Inl (Exited 1))
           | (Some (df0, df1), w) \<Rightarrow>
               let (childpid, w) = be_fork env w;
                   st = \<lparr>bs_world = w, bs_string = sent_string, bs_buf = [], bs_error = SSL_ERR_NONE, bs_log = []\<rparr>
               in if childpid = - 1 then Some (Inl (Exited 1))
                  else if childpid = 0
                  then client env fd0 df1 (st\<lparr>bs_world := be_close env df0 (be_close env fd1 w), bs_string := fill child_string sent_string\<rparr>)
                  else bio_server env df0 fd1 (st\<lparr>bs_world := be_close env df1 (be_close env fd0 w)\<rparr>)))"

section \<open>What is relayed\<close>

text \<open>What the manuals say of a call that reads: the count it returns, when positive, is the number of
  bytes given, at most the number asked for.\<close>

definition counts_bytes :: "(nat \<Rightarrow> 'w \<Rightarrow> (int \<times> byte list) \<times> 'w) \<Rightarrow> bool" where
  "counts_bytes call \<longleftrightarrow> (\<forall>n w. int (length (snd (fst (call n w)))) = max 0 (fst (fst (call n w))) \<and> length (snd (fst (call n w))) \<le> n)"

definition relays_ok :: "('w, 'z) bio_env_scheme \<Rightarrow> bool" where
  "relays_ok env \<longleftrightarrow>
     (\<forall>b. counts_bytes (be_BIO_read env b)) \<and> (\<forall>fd. counts_bytes (be_read env fd)) \<and> (\<forall>s. counts_bytes (be_SSL_read env s)) \<and>
     (\<forall>w. length (be_junk env w) = BUF_LEN)"

definition taken :: "relay list \<Rightarrow> byte list" where "taken l = concat (map (\<lambda>e. case e of BioOut bs \<Rightarrow> bs | _ \<Rightarrow> []) l)"
definition forwarded :: "relay list \<Rightarrow> byte list" where "forwarded l = concat (map (\<lambda>e. case e of PipeOut bs \<Rightarrow> bs | _ \<Rightarrow> []) l)"
definition received :: "relay list \<Rightarrow> byte list" where "received l = concat (map (\<lambda>e. case e of PipeIn bs \<Rightarrow> bs | _ \<Rightarrow> []) l)"
definition delivered :: "relay list \<Rightarrow> byte list" where "delivered l = concat (map (\<lambda>e. case e of BioIn bs \<Rightarrow> bs | _ \<Rightarrow> []) l)"

lemma log_simps [simp]:
  "taken [] = []" "taken (k @ l) = taken k @ taken l" "taken (BioOut bs # l) = bs @ taken l"  "taken (PipeOut bs # l) = taken l"  "taken (PipeIn bs # l) = taken l"  "taken (BioIn bs # l) = taken l"
  "forwarded [] = []" "forwarded (k @ l) = forwarded k @ forwarded l" "forwarded (BioOut bs # l) = forwarded l"  "forwarded (PipeOut bs # l) = bs @ forwarded l"  "forwarded (PipeIn bs # l) = forwarded l"  "forwarded (BioIn bs # l) = forwarded l"
  "received [] = []" "received (k @ l) = received k @ received l" "received (BioOut bs # l) = received l"  "received (PipeOut bs # l) = received l"  "received (PipeIn bs # l) = bs @ received l"  "received (BioIn bs # l) = received l"
  "delivered [] = []" "delivered (k @ l) = delivered k @ delivered l" "delivered (BioOut bs # l) = delivered l"  "delivered (PipeOut bs # l) = delivered l"  "delivered (PipeIn bs # l) = delivered l"  "delivered (BioIn bs # l) = bs @ delivered l"
  by (simp_all add: taken_def forwarded_def received_def delivered_def)

definition balanced :: "'w bio_st \<Rightarrow> bool" where
  "balanced st \<longleftrightarrow> length (bs_buf st) = BUF_LEN \<and> forwarded (bs_log st) = taken (bs_log st) \<and> delivered (bs_log st) = received (bs_log st)"

lemma balanced_simps [simp]:
  "balanced (st\<lparr>bs_world := w\<rparr>) = balanced st" "balanced (st\<lparr>bs_error := e\<rparr>) = balanced st" "balanced (note_error env s r st) = balanced st"
  by (simp_all add: balanced_def note_error_def)

lemma length_fill [simp]: "length bs \<le> length buf \<Longrightarrow> length (fill bs buf) = length buf"
  by (simp add: fill_def)

lemma counted:
  assumes "counts_bytes call" "call BUF_LEN w = ((n, bs), w')" "length buf = BUF_LEN"
  shows "length (fill bs buf) = BUF_LEN" "n \<le> 0 \<Longrightarrow> bs = []" "take (nat n) (fill bs buf) = bs"
proof -
  have l: "int (length bs) = max 0 n" "length bs \<le> BUF_LEN"
    using assms(1,2) unfolding counts_bytes_def by (metis fst_conv snd_conv)+
  then show "length (fill bs buf) = BUF_LEN" "n \<le> 0 \<Longrightarrow> bs = []" using assms(3) by simp_all
  have "nat n = length bs" using l by linarith
  then show "take (nat n) (fill bs buf) = bs" by (simp add: fill_def)
qed

text \<open>A read followed by the matching write leaves the balance; so does a read of nothing.\<close>

lemma bio_read_balanced:
  assumes "bio_read env b st = (n, st1)" "relays_ok env" "balanced st"
  shows "(n \<le> 0 \<longrightarrow> balanced st1) \<and> (pipe_write env fd n st1 = Inr st2 \<longrightarrow> balanced st2)"
proof -
  obtain bs w where c: "be_BIO_read env b BUF_LEN (bs_world st) = ((n, bs), w)"
    and st1: "st1 = st\<lparr>bs_world := w, bs_buf := fill bs (bs_buf st), bs_log := bs_log st @ [BioOut bs]\<rparr>"
    using assms(1) by (cases "be_BIO_read env b BUF_LEN (bs_world st)") (auto simp: bio_read_def)
  have k: "counts_bytes (be_BIO_read env b)" "length (bs_buf st) = BUF_LEN" using assms(2,3) by (simp_all add: relays_ok_def balanced_def)
  show ?thesis using assms(3) counted [OF k(1) c k(2)]
    by (auto simp: balanced_def st1 pipe_write_def Let_def split: if_split_asm)
qed

lemma pipe_read_balanced:
  assumes "pipe_read env fd st = (n, st1)" "relays_ok env" "balanced st"
  shows "(n \<le> 0 \<longrightarrow> balanced st1) \<and> (bio_write env b n st1 = Inr (r, st2) \<longrightarrow> balanced st2)"
proof -
  obtain bs w where c: "be_read env fd BUF_LEN (bs_world st) = ((n, bs), w)"
    and st1: "st1 = st\<lparr>bs_world := w, bs_buf := fill bs (bs_buf st), bs_log := bs_log st @ [PipeIn bs]\<rparr>"
    using assms(1) by (cases "be_read env fd BUF_LEN (bs_world st)") (auto simp: pipe_read_def)
  have k: "counts_bytes (be_read env fd)" "length (bs_buf st) = BUF_LEN" using assms(2,3) by (simp_all add: relays_ok_def balanced_def)
  show ?thesis using assms(3) counted [OF k(1) c k(2)]
    by (auto simp: balanced_def st1 bio_write_def Let_def case_prod_unfold split: if_split_asm)
qed

lemmas bio_kept = bio_read_balanced [THEN conjunct1, rule_format] bio_read_balanced [THEN conjunct2, rule_format]
lemmas pipe_kept = pipe_read_balanced [THEN conjunct1, rule_format] pipe_read_balanced [THEN conjunct2, rule_format]

lemma bio_read_nothing:
  "bio_read env b st = (n, st1) \<Longrightarrow> relays_ok env \<Longrightarrow> balanced st \<Longrightarrow> \<not> 0 < n \<Longrightarrow> balanced (note_error env s n st1)"
  "bio_read env b st = (n, st1) \<Longrightarrow> relays_ok env \<Longrightarrow> balanced st \<Longrightarrow> n < 0 \<Longrightarrow> balanced (note_error env s n st1)"
  by (simp_all add: bio_kept(1) [of env b st n st1])

lemma after_error: "balanced st \<Longrightarrow> balanced (note_error env s r st)"
  by simp

lemma handshake_balanced:
  "handshake_part env s b fd st = Inr (go, st') \<Longrightarrow> relays_ok env \<Longrightarrow> balanced st \<Longrightarrow> balanced st'"
  by (auto simp: handshake_part_def Let_def rbind_Inr split: prod.splits if_splits intro: bio_kept)

lemma select_balanced:
  "select_part env s b fd st = Inr (go, st') \<Longrightarrow> relays_ok env \<Longrightarrow> balanced st \<Longrightarrow> balanced st'"
  by (auto simp: select_part_def Let_def rbind_Inr split: prod.splits if_splits dest: pipe_kept)

lemma client_write_balanced:
  "client_write_part env s b fd st = Inr (go, st') \<Longrightarrow> relays_ok env \<Longrightarrow> balanced st \<Longrightarrow> balanced st'"
  by (auto simp: client_write_part_def Let_def rbind_Inr split: prod.splits if_splits intro: pipe_kept select_balanced)

lemma server_write_balanced:
  "server_write_part env s b fd st = Inr (go, st') \<Longrightarrow> relays_ok env \<Longrightarrow> balanced st \<Longrightarrow> balanced st'"
  by (auto simp: server_write_part_def Let_def rbind_Inr split: prod.splits if_splits dest: pipe_kept select_balanced intro: after_error)

lemma client_pass_balanced:
  assumes "client_pass env s r w fdread fdwrite st = Inr (again, st')" "relays_ok env" "balanced st"
  shows "balanced st'"
proof -
  obtain go st1 where h: "handshake_part env s w fdwrite st = Inr (go, st1)"
    using assms(1) by (auto simp: client_pass_def rbind_Inr)
  note b = handshake_balanced [OF h assms(2,3)]
  show ?thesis using assms(1,2) b h
    by (auto simp: client_pass_def Let_def rbind_Inr split: prod.splits if_splits dest: bio_kept client_write_balanced intro: bio_read_nothing)
qed

lemma server_pass_balanced:
  assumes "server_pass env s r w fdread fdwrite st = Inr (again, st')" "relays_ok env" "balanced st"
  shows "balanced st'"
proof -
  obtain go st1 where h: "handshake_part env s w fdwrite st = Inr (go, st1)"
    using assms(1) by (auto simp: server_pass_def rbind_Inr)
  note b = handshake_balanced [OF h assms(2,3)]
  show ?thesis using assms(1,2) b h
    by (auto simp: server_pass_def Let_def rbind_Inr split: prod.splits if_splits dest: bio_kept server_write_balanced intro: bio_read_nothing)
qed

lemma receive_balanced:
  assumes "receive_part env s r fdread st = Inr (again, st')" "relays_ok env" "balanced st"
  shows "balanced st'"
proof (cases "pipe_read env fdread st")
  case (Pair n st3)
  note p = this
  show ?thesis
  proof (cases "n \<le> 0")
    case True
    then show ?thesis using assms(1) pipe_kept(1) [OF p assms(2,3)] p by (simp add: receive_part_def)
  next
    case False
    then obtain ret st4 where w: "bio_write env r n st3 = Inr (ret, st4)" using assms(1) p by (auto simp: receive_part_def rbind_Inr)
    have st4: "balanced st4" by (rule pipe_kept(2) [OF p assms(2,3) w])
    obtain r2 bs w2 where rd: "be_SSL_read env s BUF_LEN (bs_world (note_error env s ret st4)) = ((r2, bs), w2)" by (metis surj_pair)
    have "counts_bytes (be_SSL_read env s)" using assms(2) by (simp add: relays_ok_def)
    from counted(1) [OF this rd] st4 have "length (fill bs (bs_buf st4)) = BUF_LEN" by (simp add: balanced_def)
    then show ?thesis using assms(1) p w False rd st4 by (auto simp: receive_part_def Let_def note_error_def balanced_def split: if_splits)
  qed
qed

lemma sendreceive_pass_balanced:
  assumes "sendreceive_pass env s r w fdread fdwrite st = Inr (again, st')" "relays_ok env" "balanced st"
  shows "balanced st'"
proof -
  obtain w1 ret st1 st2 where b: "bio_read env w (st\<lparr>bs_world := w1\<rparr>) = (ret, st1)" "pipe_write env fdwrite ret st1 = Inr st2"
    and k: "receive_part env s r fdread st2 = Inr (again, st')"
    using assms(1) by (auto simp: sendreceive_pass_def rbind_Inr split: prod.splits)
  have "balanced st2" using bio_kept(2) [OF b(1) assms(2) _ b(2)] assms(3) by simp
  then show ?thesis by (rule receive_balanced [OF k assms(2)])
qed

lemma passes_keep:
  fixes step :: "'s \<Rightarrow> (bool \<times> 's) res"
  assumes "passes step st = Some (Inr st')" and keep: "\<And>st again st'. step st = Inr (again, st') \<Longrightarrow> I st \<Longrightarrow> I st'" and "I st"
  shows "I st'"
proof -
  let ?K = "\<lambda>step :: 's \<Rightarrow> (bool \<times> 's) res. \<forall>st again st'. step st = Inr (again, st') \<longrightarrow> I st \<longrightarrow> I st'"
  let ?P = "\<lambda>(step :: 's \<Rightarrow> (bool \<times> 's) res) (st :: 's) (y :: 's res). ?K step \<longrightarrow> I st \<longrightarrow> (\<forall>st'. y = Inr st' \<longrightarrow> I st')"
  have "?P step st (Inr st')"
  proof (rule passes.raw_induct [where P = ?P, OF _ assms(1)])
    fix run :: "('s \<Rightarrow> (bool \<times> 's) res) \<Rightarrow> 's \<Rightarrow> 's res option" and step st y
    assume IH: "\<And>step st y. run step st = Some y \<Longrightarrow> ?P step st y"
      and body: "(case step st of Inl e \<Rightarrow> Some (Inl e) | Inr (again, st) \<Rightarrow> if again then run step st else Some (Inr st)) = Some y"
    show "?P step st y"
    proof (cases "step st")
      case (Inr x)
      obtain again st1 where x: "x = (again, st1)" by (cases x)
      show ?thesis
      proof (cases again)
        case True
        then have "run step st1 = Some y" using body Inr x by simp
        from IH [OF this] show ?thesis using Inr x by blast
      qed (use body Inr x in fastforce)
    qed (use body in fastforce)
  qed
  then show ?thesis using keep assms(3) by blast
qed

lemma sendreceive_balanced:
  assumes "sendreceive env s r w fdread fdwrite st = Some (Inr st')" "relays_ok env" "balanced st"
  shows "balanced st'"
  using assms(1) unfolding sendreceive_def sendreceive_loop_def
proof (rule passes_keep [where I = balanced])
  show "balanced (st\<lparr>bs_world := be_sleep env (bs_world st), bs_buf := be_junk env (bs_world st), bs_error := SSL_ERR_NONE\<rparr>)"
    using assms(2,3) by (simp add: balanced_def relays_ok_def)
qed (rule sendreceive_pass_balanced [OF _ assms(2)])

lemma set_up_balanced: "set_up env b st = Inr (x, st') \<Longrightarrow> bs_log st = [] \<Longrightarrow> balanced st'"
  by (auto simp: set_up_def init_OpenSSL_def rbind_Inr need_Inr Let_def balanced_def case_prod_unfold split: if_split_asm)

lemma side_balanced:
  assumes "client env fdread fdwrite st = Some (Inr st') \<or> bio_server env fdread fdwrite st = Some (Inr st')" "relays_ok env" "bs_log st = []"
  shows "balanced st'"
proof -
  consider s r w st1 st2 where "set_up env False st = Inr ((s, r, w), st1)" "client_loop env s r w fdread fdwrite st1 = Some (Inr st2)"
      "sendreceive env s r w fdread fdwrite st2 = Some (Inr st')"
    | s r w st1 st2 where "set_up env True st = Inr ((s, r, w), st1)" "server_loop env s r w fdread fdwrite st1 = Some (Inr st2)"
      "sendreceive env s r w fdread fdwrite st2 = Some (Inr st')"
    using assms(1) by (auto simp: client_def bio_server_def split: sum.splits option.splits prod.splits)
  then show ?thesis
  proof cases
    case 1
    then have "balanced st2" using passes_keep [where I = balanced] client_pass_balanced [OF _ assms(2)] set_up_balanced [OF _ assms(3)]
      unfolding client_loop_def by metis
    then show ?thesis using sendreceive_balanced 1(3) assms(2) by blast
  next
    case 2
    then have "balanced st2" using passes_keep [where I = balanced] server_pass_balanced [OF _ assms(2)] set_up_balanced [OF _ assms(3)]
      unfolding server_loop_def by metis
    then show ?thesis using sendreceive_balanced 2(3) assms(2) by blast
  qed
qed


text \<open>An exchange in which \<^verbatim>\<open>SSL_write\<close> has put nothing into the outgoing BIO steps outside defined
  behaviour at once, whatever the peer does: the \<open>- 1\<close> of \<^verbatim>\<open>BIO_read\<close> on an empty BIO goes to
  \<^verbatim>\<open>write\<close> as a size.\<close>

theorem empty_bio_overruns:
  assumes "\<And>w. fst (be_BIO_read env b BUF_LEN w) = (- 1, [])"
  shows "sendreceive env s r b fdread fdwrite st = Some (Inl Undefined)"
proof -
  have "sendreceive_pass env s r b fdread fdwrite st' = Inl Undefined" for st'
    using assms [of "snd (be_SSL_write env s (take 10 (bs_string st')) (bs_world st'))"]
    by (simp add: sendreceive_pass_def bio_read_def pipe_write_def case_prod_unfold)
  then show ?thesis by (simp add: sendreceive_def sendreceive_loop_def passes.simps)
qed

section \<open>Sample runs\<close>

text \<open>A parent whose handshake is over after one flight, and whose peer hangs up after one record.\<close>

definition demo_bio :: "nat bio_env" where
  "demo_bio =
     \<lparr>be_library_init = (\<lambda>w. (True, w)), be_junk = (\<lambda>w. replicate BUF_LEN 7), be_BIO_new = (\<lambda>w. (Some 1, w)),
      be_SSL_CTX_new = (\<lambda>b w. (Some 2, w)), be_use_certificate_file = (\<lambda>c f w. w), be_use_PrivateKey_file = (\<lambda>c f w. w),
      be_SSL_new = (\<lambda>c w. (Some 3, w)), be_SSL_set_bio = (\<lambda>s a b w. w), be_set_state = (\<lambda>b s w. w),
      be_is_init_finished = (\<lambda>s w. w > 0), be_do_handshake = (\<lambda>s w. (1, 1)), be_get_error = (\<lambda>s r w. SSL_ERR_NONE),
      be_SSL_write = (\<lambda>s bs w. (10, w)), be_SSL_read = (\<lambda>s n w. ((- 1, []), w)),
      be_BIO_read = (\<lambda>b n w. if n < 2 then ((- 1, []), w) else ((2, [22, 3]), w)), be_BIO_write = (\<lambda>b bs w. (int (length bs), w)),
      be_read = (\<lambda>fd n w. ((0, []), w)), be_write = (\<lambda>fd bs w. w), be_select = (\<lambda>fd w. (0, w)), be_sleep = (\<lambda>w. w),
      be_pipe = (\<lambda>w. (Some (4, 5), w)), be_fork = (\<lambda>w. (77, w)), be_close = (\<lambda>fd w. w)\<rparr>"

lemma demo_bio_ok: "relays_ok demo_bio"
  by (simp add: relays_ok_def counts_bytes_def demo_bio_def)

lemma demo_bio_runs: "\<exists>st. bio_main demo_bio 0 = Some (Inr st) \<and> taken (bs_log st) = [22, 3, 22, 3]"
  by (simp add: bio_main_def bio_server_def set_up_def init_OpenSSL_def server_loop_def passes.simps server_pass_def handshake_part_def
      note_error_def bio_read_def pipe_write_def sendreceive_def sendreceive_loop_def sendreceive_pass_def receive_part_def pipe_read_def
      demo_bio_def BUF_LEN_def fill_def)


theorem empty_bio_overruns_witness:
  "sendreceive (demo_bio\<lparr>be_BIO_read := (\<lambda>b n w. ((- 1, []), w))\<rparr>) 3 (Some 1) (Some 1) 4 5
     \<lparr>bs_world = 1, bs_string = sent_string, bs_buf = [], bs_error = 0, bs_log = []\<rparr> = Some (Inl Undefined)"
  by (rule empty_bio_overruns) simp

end
