(* ===== verification/H3X_Mini.thy ===== *)
theory H3X_Mini
  imports H3X_Table
begin

text \<open>
  The datagram example \<^verbatim>\<open>examples/miniserver.c\<close>: one thread waits for datagrams and starts a thread for
  each, which is meant to read from a connection. The threads share one process, so a run is a schedule:
  a list saying whose turn it is. A turn is one pass of the loop of \<^verbatim>\<open>listenServer\<close> or of
  \<^verbatim>\<open>processConnection\<close>. What is printed is kept in \<open>mc_out\<close>; the calls of APR are a record \<open>mini_env\<close>.
\<close>

section \<open>State and calls\<close>

definition DEF_LISTEN_PORT :: apr_port_t where "DEF_LISTEN_PORT = 8081"
definition BUFSIZE :: nat where "BUFSIZE = 4096"
definition RECV_LEN :: nat where "RECV_LEN = 1024"

record 'w mini_env =
  mi_initialize :: "'w \<Rightarrow> 'w"
  mi_terminate :: "'w \<Rightarrow> 'w"
  mi_pool_create :: "'w \<Rightarrow> 'w"
  mi_sockaddr_info_get :: "string option \<Rightarrow> apr_port_t \<Rightarrow> 'w \<Rightarrow> (apr_status_t + nat) \<times> 'w"
  mi_socket_create :: "nat \<Rightarrow> 'w \<Rightarrow> (apr_status_t + nat) \<times> 'w"
  mi_set_blocking :: "nat \<Rightarrow> 'w \<Rightarrow> 'w"
  mi_socket_bind :: "nat \<Rightarrow> nat \<Rightarrow> 'w \<Rightarrow> apr_status_t \<times> 'w"
  mi_recvfrom :: "nat \<Rightarrow> nat \<Rightarrow> nat \<Rightarrow> 'w \<Rightarrow> (apr_status_t \<times> byte list) \<times> 'w"
  mi_thread_create :: "'w \<Rightarrow> apr_status_t \<times> 'w"
  mi_socket_recv :: "nat \<Rightarrow> nat \<Rightarrow> 'w \<Rightarrow> (apr_status_t \<times> byte list) \<times> 'w"
  mi_socket_close :: "nat \<Rightarrow> 'w \<Rightarrow> 'w"

text \<open>A thread is the socket it was given, which may be \<^verbatim>\<open>NULL\<close>, and whether it still runs.\<close>

record 'w mini_st =
  mc_world :: 'w
  mc_exit :: "int option"
  mc_threads :: "(nat option \<times> bool) list"
  mc_out :: "byte list list"

section \<open>The threads\<close>

text \<open>A pass of \<^verbatim>\<open>processConnection\<close>; the result says if there is another. The buffer is zeroed, so what is
  printed ends at the first zero byte or after the bytes received; \<^verbatim>\<open>buf[len]\<close> is the last write.\<close>

definition process_pass :: "('w, 'z) mini_env_scheme \<Rightarrow> nat option \<Rightarrow> 'w mini_st \<Rightarrow> (bool \<times> 'w mini_st) res" where
  "process_pass env sk st =
     rbind (need sk) (\<lambda>s.
       let ((rv, bs), w) = mi_socket_recv env s (BUFSIZE - 1) (mc_world st);
           buf = bs @ replicate (BUFSIZE - length bs) 0
       in if rv = APR_EOF \<or> length bs = 0 then Inr (False, st\<lparr>mc_world := mi_socket_close env s w\<rparr>)
          else if BUFSIZE \<le> length bs then Inl Undefined
          else Inr (True, st\<lparr>mc_world := w, mc_out := mc_out st @ [takeWhile (\<lambda>b. b \<noteq> 0) buf]\<rparr>))"

text \<open>The error exit of \<^verbatim>\<open>listenServer\<close>. \<^verbatim>\<open>main\<close> ignores its \<open>- 1\<close> and returns 0; the handler given to
  \<^verbatim>\<open>atexit\<close> then terminates APR a second time.\<close>

definition mini_end :: "('w, 'z) mini_env_scheme \<Rightarrow> 'w mini_st \<Rightarrow> 'w mini_st" where
  "mini_end env st = st\<lparr>mc_world := mi_terminate env (mi_terminate env (mc_world st)), mc_exit := Some 0\<rparr>"

text \<open>A pass of the loop of \<^verbatim>\<open>listenServer\<close>. The address the datagram came from is written to \<open>from\<close>, which
  is \<^verbatim>\<open>NULL\<close> when it could not be made. The thread is given \<^verbatim>\<open>ns\<close>, which is \<^verbatim>\<open>NULL\<close>.\<close>

definition listen_pass :: "('w, 'z) mini_env_scheme \<Rightarrow> nat \<Rightarrow> 'w mini_st \<Rightarrow> 'w mini_st res" where
  "listen_pass env sock st =
     (case mi_sockaddr_info_get env (Some ''127.1.2.3'') 4242 (mc_world st) of
        (Inl e, w) \<Rightarrow> Inl Undefined
      | (Inr from, w) \<Rightarrow>
          let ((rv, bs), w) = mi_recvfrom env from sock RECV_LEN w
          in if rv \<noteq> APR_SUCCESS then Inr (mini_end env (st\<lparr>mc_world := w\<rparr>))
             else let (rv, w) = mi_thread_create env w;
                      st = st\<lparr>mc_world := w, mc_out := mc_out st @ [takeWhile (\<lambda>b. b \<noteq> 0) bs]\<rparr>
                  in Inr (if rv \<noteq> APR_SUCCESS then st else st\<lparr>mc_threads := mc_threads st @ [(None, True)]\<rparr>))"

section \<open>Starting and running\<close>

text \<open>\<^verbatim>\<open>main\<close> up to the loop: the listening socket, or the end of the process.\<close>

definition listen_start :: "('w, 'z) mini_env_scheme \<Rightarrow> 'w \<Rightarrow> nat option \<times> 'w mini_st" where
  "listen_start env w =
     (let st = (\<lambda>w. \<lparr>mc_world = w, mc_exit = None, mc_threads = [], mc_out = []\<rparr>)
      in case mi_sockaddr_info_get env None DEF_LISTEN_PORT (mi_pool_create env (mi_initialize env w)) of
           (Inl e, w) \<Rightarrow> (None, mini_end env (st w))
         | (Inr sa, w) \<Rightarrow>
             (case mi_socket_create env sa w of
                (Inl e, w) \<Rightarrow> (None, mini_end env (st w))
              | (Inr s, w) \<Rightarrow>
                  let (rv, w) = mi_socket_bind env s sa (mi_set_blocking env s w)
                  in if rv \<noteq> APR_SUCCESS then (None, mini_end env (st w)) else (Some s, st w)))"

datatype turn = Listener | Worker nat

definition mini_turn :: "('w, 'z) mini_env_scheme \<Rightarrow> nat \<Rightarrow> turn \<Rightarrow> 'w mini_st \<Rightarrow> 'w mini_st res" where
  "mini_turn env sock t st =
     (if mc_exit st \<noteq> None then Inr st
      else case t of
             Listener \<Rightarrow> listen_pass env sock st
           | Worker i \<Rightarrow>
               if i < length (mc_threads st) \<and> snd (mc_threads st ! i)
               then rbind (process_pass env (fst (mc_threads st ! i)) st) (\<lambda>(again, st').
                    Inr (st'\<lparr>mc_threads := (mc_threads st')[i := (fst (mc_threads st ! i), again)]\<rparr>))
               else Inr st)"

fun mini_turns :: "('w, 'z) mini_env_scheme \<Rightarrow> nat \<Rightarrow> turn list \<Rightarrow> 'w mini_st \<Rightarrow> 'w mini_st res" where
  "mini_turns env sock [] st = Inr st"
| "mini_turns env sock (t # ts) st = rbind (mini_turn env sock t st) (mini_turns env sock ts)"

text \<open>The process under a schedule.\<close>

definition mini_main :: "('w, 'z) mini_env_scheme \<Rightarrow> turn list \<Rightarrow> 'w \<Rightarrow> 'w mini_st res" where
  "mini_main env ts w = (case listen_start env w of (None, st) \<Rightarrow> Inr st | (Some s, st) \<Rightarrow> mini_turns env s ts st)"

section \<open>A thread on a connection\<close>

text \<open>Given a socket, and a receive that gives no more than it was asked for, a pass is always defined and
  prints what was received up to its first zero byte.\<close>

lemma process_pass_defined:
  assumes "mi_socket_recv env s (BUFSIZE - 1) (mc_world st) = ((rv, bs), w)" "length bs \<le> BUFSIZE - 1"
  shows "process_pass env (Some s) st =
           Inr (if rv = APR_EOF \<or> bs = [] then (False, st\<lparr>mc_world := mi_socket_close env s w\<rparr>)
                else (True, st\<lparr>mc_world := w, mc_out := mc_out st @ [takeWhile (\<lambda>b. b \<noteq> 0) bs]\<rparr>))"
proof -
  have "length bs < BUFSIZE" using assms(2) by (simp add: BUFSIZE_def)
  moreover have "takeWhile (\<lambda>b. b \<noteq> 0) (bs @ replicate n 0) = takeWhile (\<lambda>b. b \<noteq> 0) bs" for n
    by (induction bs) (simp_all add: takeWhile_eq_Nil_iff hd_replicate)
  ultimately show ?thesis using assms(1) by (simp add: process_pass_def)
qed

section \<open>The thread of a datagram\<close>

definition threads_null :: "'w mini_st \<Rightarrow> bool" where
  "threads_null st \<longleftrightarrow> set (mc_threads st) \<subseteq> {(None, True)}"

lemma threads_null_turn: "threads_null st \<Longrightarrow> mini_turn env sock t st = Inr st' \<Longrightarrow> threads_null st'"
  by (auto simp: threads_null_def mini_turn_def listen_pass_def process_pass_def mini_end_def Let_def case_prod_unfold rbind_Inr need_Inr
      split: turn.splits if_split_asm sum.splits dest!: nth_mem)

lemma threads_null_turns: "threads_null st \<Longrightarrow> mini_turns env sock ts st = Inr st' \<Longrightarrow> threads_null st'"
  by (induction ts arbitrary: st) (auto simp: rbind_Inr dest: threads_null_turn)

lemma mini_turns_append: "mini_turns env sock (ts @ us) st = rbind (mini_turns env sock ts st) (mini_turns env sock us)"
proof (induction ts arbitrary: st)
  case (Cons t ts)
  then show ?case by (cases "mini_turn env sock t st") simp_all
qed simp

text \<open>C40: As soon as a datagram has started a thread, that thread's first turn ends the process in undefined
  behaviour: under every schedule, whatever APR returns, each thread there is was given a null socket and
  reads from it. No datagram is ever served.\<close>

theorem datagram_thread_faults:
  assumes "listen_start env w = (Some s, st0)" "mini_turns env s ts st0 = Inr st" "mc_exit st = None" "i < length (mc_threads st)"
  shows "mini_main env (ts @ [Worker i]) w = Inl Undefined"
proof -
  have "mc_threads st0 = []" using assms(1) by (auto simp: listen_start_def mini_end_def Let_def case_prod_unfold split: sum.splits if_split_asm)
  then have "threads_null st" using threads_null_turns [OF _ assms(2)] by (simp add: threads_null_def)
  then have "mc_threads st ! i = (None, True)" using nth_mem [OF assms(4)] by (auto simp: threads_null_def)
  then have "mini_turn env s (Worker i) st = Inl Undefined" using assms(3,4) by (simp add: mini_turn_def process_pass_def)
  then show ?thesis using assms(1,2) by (simp add: mini_main_def mini_turns_append)
qed

definition demo_mini :: "nat mini_env" where
  "demo_mini =
     \<lparr>mi_initialize = (\<lambda>w. w), mi_terminate = (\<lambda>w. w), mi_pool_create = (\<lambda>w. w), mi_sockaddr_info_get = (\<lambda>h p w. (Inr 1, w)),
      mi_socket_create = (\<lambda>sa w. (Inr 3, w)), mi_set_blocking = (\<lambda>s w. w), mi_socket_bind = (\<lambda>s sa w. (APR_SUCCESS, w)),
      mi_recvfrom = (\<lambda>from s n w. ((APR_SUCCESS, [104, 105]), w + 1)), mi_thread_create = (\<lambda>w. (APR_SUCCESS, w)),
      mi_socket_recv = (\<lambda>s n w. ((APR_EOF, []), w)), mi_socket_close = (\<lambda>s w. w)\<rparr>"

lemma demo_turns: "\<exists>s st0 st. listen_start demo_mini 0 = (Some s, st0) \<and> mini_turns demo_mini s [Listener, Listener] st0 = Inr st \<and> mc_exit st = None \<and> length (mc_threads st) = 2"
  by (simp add: demo_mini_def listen_start_def mini_turn_def listen_pass_def)

theorem datagram_thread_faults_witness: "mini_main demo_mini ([Listener, Listener] @ [Worker 1]) 0 = Inl Undefined"
  using demo_turns datagram_thread_faults [of demo_mini 0 _ _ "[Listener, Listener]" _ 1] by auto

end
