(* ===== verification/Spec2Isabelle.thy ===== *)
theory Spec2Isabelle
  imports H3_Hooks H3_Shutdown H3X_Server H3X_Bio H3X_Mini
begin

text \<open>
  \<^bold>\<open>mod\_http3.\<close> An Apache httpd module that serves HTTP/3: QUIC and TLS come from OpenSSL, HTTP/3
  framing and QPACK from nghttp3, everything else about a request from httpd. This development
  models the C code of the module (\<^verbatim>\<open>src/mod_http3\<close>) as functions on explicit state and proves what
  makes each part correct. File names below are relative to \<^verbatim>\<open>src/mod_http3/src\<close>. The example programs
  of the repository (\<^verbatim>\<open>src/examples\<close>) are modelled too, apart from the module.

  \<^bold>\<open>The program.\<close> The configuration is read once (\<^verbatim>\<open>h3_config.c\<close>). Each child process binds one UDP
  socket, or keeps trying while another child owns the port (\<^verbatim>\<open>h3_server.c\<close>, \<^verbatim>\<open>h3_socket.c\<close>), and
  starts a listener: a QUIC engine, a pool of worker threads and one event thread (\<^verbatim>\<open>h3_io.c\<close>,
  \<^verbatim>\<open>h3_threads.c\<close>, \<^verbatim>\<open>quic/h3q.c\<close>). In every round the event thread polls, lets OpenSSL handle its
  datagrams, accepts connections up to a limit, advances handshakes and services each session. A
  session (\<^verbatim>\<open>h3_session.c\<close>) is a connection with its streams; servicing it means accepting streams,
  reading them into nghttp3, whose callbacks (\<^verbatim>\<open>h3_callbacks.c\<close>) fill in the requests, handing
  complete requests to workers, and writing what nghttp3 has to send (\<^verbatim>\<open>h3_stream.c\<close>). A worker
  (\<^verbatim>\<open>h3_request.c\<close>) runs the request through httpd with the module's filters (\<^verbatim>\<open>h3_filter.c\<close>) and hooks
  (\<^verbatim>\<open>h3_hooks.c\<close>), and queues the response bytes on the stream, where nghttp3 finds them. Workers and
  event thread share the session under one lock.

  \<^bold>\<open>The theories\<close>, from the bottom up.

  \<^item> \<open>H3_Prelude\<close>: C types as words, APR status codes, the collections of facts, removal by swapping
    (\<open>swap_remove\<close>) and buffer growth by doubling (\<open>grow_cap\<close>).
  \<^item> \<open>H3_Config\<close> (\<^verbatim>\<open>h3_config.c\<close>, \<^verbatim>\<open>h3.h\<close>, \<^verbatim>\<open>h3_config.h\<close>): \<open>h3_server_conf\<close>, one function per directive,
    the command table \<open>h3_cmds\<close>, merging, \<open>h3_post_config\<close>. The locale \<open>numeric_directive\<close>
    states once what a numeric directive promises and is interpreted for all sixteen. Settings stay
    in range over any configuration, and the server a child picks is ready to serve.
  \<^item> \<open>H3_Response_Queue\<close> (\<^verbatim>\<open>h3_session.c\<close>): the linked list of response chunks with its pointers and an
    explicit store, against the abstract log \<open>resp_spec\<close> (bytes queued, handed over, acknowledged).
    Every operation refines its abstract counterpart (locale \<open>byte_queue\<close>), so that any schedule of
    producer and event thread is memory safe, loses no byte and keeps the limit.
  \<^item> \<open>H3Q_Transport\<close> (\<^verbatim>\<open>quic/h3q_stream.c\<close>, \<^verbatim>\<open>quic/h3q_conn.c\<close>): operations on QUIC streams and
    connections over \<open>ssl_api\<close>.
  \<^item> \<open>H3Q_Engine\<close> (\<^verbatim>\<open>quic/h3q.c\<close>, \<^verbatim>\<open>quic/detail/h3q_addr.c\<close>, \<^verbatim>\<open>quic/detail/h3q_tls.c\<close>): the listener's
    OpenSSL objects with what each error path holds, the pump, and the queue of received datagrams
    that gives each connection the address of its peer.
  \<^item> \<open>H3_State\<close> (\<^verbatim>\<open>h3_session.h\<close>): \<open>h3_session\<close> and \<open>h3_stream\<close>. Streams live in a store indexed by
    \<open>stream_ref\<close>; \<open>se_streams\<close> is the hash from stream id to reference. \<open>h3_st\<close> is a session with the
    world outside and the byte counters of the listener.
  \<^item> \<open>H3_Callbacks\<close>: the callbacks, and the interpreter that runs a call of nghttp3 with them. The
    locale \<open>callback_invariant\<close> lifts what every callback keeps to whole calls.
  \<^item> \<open>H3_Stream\<close> (\<^verbatim>\<open>h3_stream.c\<close>): flushing, tracking, feeding, rejecting, draining under a byte budget,
    reclaiming. The locales \<open>session_steps\<close> and \<open>session_contract\<close> extend \<open>callback_invariant\<close> to these;
    an invariant given by a few laws holds over every operation. They are interpreted with the
    invariants of the hash, of the ownership of QUIC streams, of the streams' buffers, of the tasks
    (in \<open>H3_Pass\<close>) and of the shutdown deadline (in \<open>H3_Shutdown\<close>).
  \<^item> \<open>H3_Session\<close> (\<^verbatim>\<open>h3_session.c\<close>): creation, the three unidirectional streams, destruction.
  \<^item> \<open>H3_Httpd\<close>, \<open>H3_Filter\<close>, \<open>H3_Request\<close>: what is used of httpd, the filters, and the worker as a
    program \<open>wprog\<close> of lock-held actions. Between two actions anything may happen to the session.
  \<^item> \<open>H3_Pass\<close> (\<^verbatim>\<open>h3_io.c\<close>): \<open>service_session_pass\<close> over a session and its running workers (\<open>live\<close>).
    \<open>session_step\<close> interleaves passes, workers and the outside. A stream with a running worker is
    neither reclaimed nor freed, and \<open>se_active_tasks\<close> counts the workers.
  \<^item> \<open>H3_Socket\<close> (\<^verbatim>\<open>h3_socket.c\<close>, \<^verbatim>\<open>h3_socket_os.c\<close>): the UDP socket and the wake-up pair.
  \<^item> \<open>H3_Io\<close> (\<^verbatim>\<open>h3_io.c\<close>, \<^verbatim>\<open>h3_threads.c\<close>): the listener and the event thread. Over any number of rounds the
    limit on connections holds, the session counter is right, and the MPM has been told of exactly
    the connections there are; when stopping returns, everything is released.
  \<^item> \<open>H3_Hooks\<close> (\<^verbatim>\<open>h3_hooks.c\<close>): the hooks on requests and the status page.
  \<^item> \<open>H3_Server\<close> (\<^verbatim>\<open>h3_server.c\<close>): start and stop of a child, and the thread that waits for the port.
  \<^item> \<open>H3_Shutdown\<close>: that stopping ends. Sessions past their deadline or aborted leave in the next round
    once their workers are done, so the loop of the event thread is left.

  \<^bold>\<open>The example programs.\<close> They share no code with the module.

  \<^item> \<open>H3X_Table\<close> (\<^verbatim>\<open>examples/server.c\<close>, \<^verbatim>\<open>struct h3ssl\<close> to \<^verbatim>\<open>on_end_stream\<close> and \<^verbatim>\<open>step_read_data\<close>): the state of a
    connection, its 20 slots for streams and the nghttp3 callbacks. The locale \<open>stream_table\<close> states
    what a table of streams promises; the slots implement it. The file name a path gives is determined
    for every path, and a response body is given out whole.
  \<^item> \<open>H3X_Poll\<close> (\<^verbatim>\<open>quic_server_read\<close>, \<^verbatim>\<open>quic_server_h3streams\<close>, \<^verbatim>\<open>read_from_ssl_ids\<close>): polling the connection
    and its streams. The locale \<open>ex_invariant\<close> has the laws by which an invariant is kept by a whole
    poll; it is interpreted with the invariant of the connection (\<open>conn_inv\<close>) and with the list of
    objects held.
  \<^item> \<open>H3X_Server\<close> (the files served, sending, \<^verbatim>\<open>run_quic_server\<close>, \<^verbatim>\<open>main\<close>): the loop of the server with its
    \<^verbatim>\<open>goto\<close>s is a machine, \<open>srv_step\<close>, with one label for each place jumped to; \<open>run_from\<close> runs it and
    \<open>srv_run\<close> gives the states it goes through. The locale \<open>srv_invariant\<close> extends \<open>ex_invariant\<close> from polls
    to runs.
  \<^item> \<open>H3X_Bio\<close> (\<^verbatim>\<open>examples/biomemexample.c\<close>): two processes that relay TLS between pipes and memory BIOs; no
    byte is lost, repeated or reordered by the relay loops.
  \<^item> \<open>H3X_Mini\<close> (\<^verbatim>\<open>examples/miniserver.c\<close>): a thread that receives datagrams and the threads it starts, under
    any schedule of passes of their loops.

  In these theories a function that may end the process gives \<open>stop + 'a\<close>: \<^verbatim>\<open>exit\<close> with its code,
  \<^verbatim>\<open>abort\<close>, or undefined behaviour. SSL objects are numbers that are not used again, malloc'ed blocks are in
  an explicit store, and a list of the objects made and not yet released is carried along. What is
  printed is left out, except that printing through a null pointer, or beyond an array or a string
  without end, is undefined.

  \<^bold>\<open>How C is read.\<close> An operation takes the state it works on and gives the new one; early returns,
  error codes and \<^verbatim>\<open>goto\<close> labels are branches. \<^const>\<open>None\<close> as result of an operation stands for
  undefined behaviour (a freed or missing chunk, a copy beyond a buffer, a null pointer used),
  \<^verbatim>\<open>abort()\<close>, or a loop without end, so a theorem that gives \<^const>\<open>Some\<close> shows that none of these
  happens. \<^verbatim>\<open>size_t\<close>, \<^verbatim>\<open>uint64_t\<close>, \<^verbatim>\<open>apr_uint32_t\<close> and port numbers are words and wrap. Times
  (\<^verbatim>\<open>apr_time_t\<close>) and stream ids are integers: they are compared, subtracted and masked, far from the
  ends of 64 bits.

  \<^bold>\<open>What is outside\<close> is a parameter: OpenSSL (\<open>ssl_api\<close>), nghttp3 (\<open>ngh3_api\<close>), httpd (\<open>httpd_api\<close>,
  \<open>table_api\<close>), APR and system calls (\<open>h3_env\<close>, \<open>socket_api\<close>, \<open>io_env\<close>, \<open>server_env\<close>), all on an arbitrary
  type of worlds \<open>'w\<close>. A call that calls back into the module (nghttp3's reading and writing,
  \<^verbatim>\<open>SSL_handle_events\<close>, httpd's processing of a request) is a tree of the callbacks it makes, so it can
  choose each one by the answer to those before. What a theorem needs of these parameters is a named
  predicate in its hypotheses, such as \<open>malloc_fresh\<close>, \<open>io_env_ok\<close> or \<open>rapid_ok\<close>; the theorem's witness
  has a concrete instance. Where a record describes what others do meanwhile, a theorem over several
  rounds allows a different record in each.

  \<^bold>\<open>Threads.\<close> Code under the lock is one step. Elsewhere the other threads come in explicitly: in
  \<open>append_loop\<close> as an arbitrary function applied whenever the producer waits or has released the lock,
  in \<open>session_step\<close> and \<open>worker_moves\<close> as steps of the workers, in \<open>run_workers\<close> as what the workers do
  between sessions. The flags \<^verbatim>\<open>thread_running\<close>, \<^verbatim>\<open>draining\<close> and \<^verbatim>\<open>child_stopping\<close> are part of the world
  and are read afresh each time. Joining a thread is running it from the head of its loop.

  \<^bold>\<open>Loops.\<close> No fuel is used. Loops over a list or with a counter are structural; \<open>field_tokens\<close>, the
  scanner of header lists, has a termination proof. Loops that depend on the outside are
  \<^theory_text>\<open>partial_function\<close>s with \<^const>\<open>None\<close> for no end: \<open>grow_cap\<close>, \<open>append_loop\<close>, \<open>ack_loop\<close>, \<open>free_chunks\<close>,
  \<open>flush_loop\<close>, \<open>pump_loop\<close>, \<open>accept_streams\<close>, \<open>accept_conns\<close>, \<open>event_loop\<close>, \<open>port_acquire_thread_fn\<close>,
  \<open>run_from\<close>, \<open>passes\<close>. That they return is proved for buffer growth, the loops on the response queue, the pump (when events consume
  datagrams), the event loop (after a stop), the port acquirer (when the port becomes free) and the
  example server (when its client falls silent).
  Statements about the others say what holds once they return; a client that keeps sending can keep
  them busy.

  \<^bold>\<open>Not modelled.\<close>
  \<^item> Log calls: they change no state the module reads.
  \<^item> Pools and memory from them: allocation from a pool aborts the process when it fails and is freed
    with the pool. The pools whose creation the code tests are parameters that may fail. Buffers are
    modelled by capacity and content, and the response chunks, which are malloc'ed and freed by hand,
    by an explicit store.
  \<^item> Registration (\<^verbatim>\<open>mod_http3.c\<close>): calls that give httpd the hooks and filters, with constant
    arguments. The order in which httpd runs the hooks of several modules is httpd's.
  \<^item> Handlers of the filter BIO that pass the call on to the next BIO, and the methods that register
    them (\<^verbatim>\<open>quic/detail/h3q_addr.c\<close>).
  \<^item> Platform and version macros (\<^verbatim>\<open>h3_os.h\<close>, \<^verbatim>\<open>h3_check.h\<close>, \<^verbatim>\<open>h3_version.h\<close>): they have no run-time
    behaviour. Both kinds of httpd release they tell apart are modelled (flag \<open>devel\<close>).
  \<^item> \<^verbatim>\<open>examples/quic_client_test.c\<close>, a test client, \<^verbatim>\<open>examples/quic_server_test.c\<close>, a temporary test server on the
    internal test interface of an OpenSSL build that the documentation calls broken, and the tests of
    \<^verbatim>\<open>src/test\<close>.
\<close>

end
